(* ===== verification/Cql_Prelude.thy ===== *)
theory Cql_Prelude
  imports Main "HOL-Library.Word"
begin

text \<open>
  Shared vocabulary of the development.

  \<^item> Bytes, buffers and the big-endian reading of a byte sequence.
  \<^item> Results: a C++ function that may throw returns a sum whose left side is the fault.
  \<^item> Readers: a C++ parser gets a buffer view and an offset by reference; the model gets both
    and returns the value with the new offset, or a fault.
  \<^item> Writers: a C++ formatter appends to a buffer; the model returns the new buffer or a fault.
  \<^item> Generic lemmas on lists and on big-endian numbers, collected in \<open>io_simps\<close>.
\<close>

named_theorems io_simps \<open>rewriting readers, writers and results\<close>
named_theorems be_simps \<open>big-endian encoding of numbers\<close>

section \<open>Types\<close>

type_synonym byte = "8 word"
type_synonym RawBuffer = "byte list"
type_synonym ('e, 'a) reader = "RawBuffer \<Rightarrow> nat \<Rightarrow> 'e + ('a \<times> nat)"
type_synonym ('e, 'a) writer = "'a \<Rightarrow> RawBuffer \<Rightarrow> 'e + RawBuffer"

section \<open>Results, readers and writers\<close>

definition res_bind :: "'e + 'a \<Rightarrow> ('a \<Rightarrow> 'e + 'b) \<Rightarrow> 'e + 'b" where
  "res_bind r f = (case r of Inl e \<Rightarrow> Inl e | Inr x \<Rightarrow> f x)"

definition rret :: "'a \<Rightarrow> ('e, 'a) reader" where
  "rret x = (\<lambda>data off. Inr (x, off))"

definition rfail :: "'e \<Rightarrow> ('e, 'a) reader" where
  "rfail e = (\<lambda>data off. Inl e)"

definition rbind :: "('e, 'a) reader \<Rightarrow> ('a \<Rightarrow> ('e, 'b) reader) \<Rightarrow> ('e, 'b) reader" where
  "rbind p f = (\<lambda>data off. case p data off of Inl e \<Rightarrow> Inl e | Inr (x, off') \<Rightarrow> f x data off')"

definition rmap :: "('a \<Rightarrow> 'b) \<Rightarrow> ('e, 'a) reader \<Rightarrow> ('e, 'b) reader" where
  "rmap f p = rbind p (\<lambda>x. rret (f x))"

text \<open>A counted loop that reads one element per round and pushes it back.\<close>

primrec rrepeat :: "nat \<Rightarrow> ('e, 'a) reader \<Rightarrow> ('e, 'a list) reader" where
  "rrepeat 0 p = rret []"
| "rrepeat (Suc n) p = rbind p (\<lambda>x. rbind (rrepeat n p) (\<lambda>xs. rret (x # xs)))"

text \<open>Writing several fields one after the other into the same buffer.\<close>

primrec writes :: "(RawBuffer \<Rightarrow> 'e + RawBuffer) list \<Rightarrow> RawBuffer \<Rightarrow> 'e + RawBuffer" where
  "writes [] buf = Inr buf"
| "writes (w # ws) buf = res_bind (w buf) (writes ws)"

lemma res_bind_simps [simp]:
  "res_bind (Inl e) f = Inl e"
  "res_bind (Inr x) f = f x"
  by (simp_all add: res_bind_def)

lemma res_bind_eq_Inr:
  "res_bind r f = Inr y \<longleftrightarrow> (\<exists>x. r = Inr x \<and> f x = Inr y)"
  by (cases r) auto

lemma res_bind_eq_Inl:
  "res_bind r f = Inl e \<longleftrightarrow> r = Inl e \<or> (\<exists>x. r = Inr x \<and> f x = Inl e)"
  by (cases r) auto

lemma rret_apply [simp]: "rret x data off = Inr (x, off)"
  by (simp add: rret_def)

lemma rfail_apply [simp]: "rfail e data off = Inl e"
  by (simp add: rfail_def)

lemma rbind_Inr [simp]:
  "p data off = Inr (x, off') \<Longrightarrow> rbind p f data off = f x data off'"
  by (simp add: rbind_def)

lemma rbind_Inl [simp]: "p data off = Inl e \<Longrightarrow> rbind p f data off = Inl e"
  by (simp add: rbind_def)

lemma rbind_eq_Inr:
  "rbind p f data off = Inr r \<longleftrightarrow>
     (\<exists>x off'. p data off = Inr (x, off') \<and> f x data off' = Inr r)"
  by (cases "p data off") (auto simp: rbind_def)

lemma rbind_eq_Inl:
  "rbind p f data off = Inl e \<longleftrightarrow>
     p data off = Inl e \<or> (\<exists>x off'. p data off = Inr (x, off') \<and> f x data off' = Inl e)"
  by (cases "p data off") (auto simp: rbind_def)

lemma rmap_Inr [simp]:
  "p data off = Inr (x, off') \<Longrightarrow> rmap f p data off = Inr (f x, off')"
  by (simp add: rmap_def)

lemma rrepeat_length:
  "rrepeat n p data off = Inr (xs, off') \<Longrightarrow> length xs = n"
  by (induction n arbitrary: off xs off') (auto simp: rbind_eq_Inr)

lemma writes_append:
  "writes (ws @ vs) buf = res_bind (writes ws buf) (writes vs)"
  by (induction ws arbitrary: buf) (auto simp: res_bind_def split: sum.splits)


section \<open>Memory\<close>

text \<open>
  \<open>std::memcpy\<close> out of a buffer: defined only where the whole source range lies in the buffer.
  No object is larger than \<open>PTRDIFF_MAX\<close> bytes, so a buffer has fewer than \<open>2 ^ 63\<close> bytes.
\<close>

definition memcpy_from :: "RawBuffer \<Rightarrow> nat \<Rightarrow> nat \<Rightarrow> RawBuffer option" where
  "memcpy_from data off n = (if off + n \<le> length data then Some (take n (drop off data)) else None)"

definition memcpy_to :: "RawBuffer \<Rightarrow> nat \<Rightarrow> RawBuffer \<Rightarrow> RawBuffer option" where
  "memcpy_to data off bs =
     (if off + length bs \<le> length data
      then Some (take off data @ bs @ drop (off + length bs) data) else None)"

definition buffer_ok :: "RawBuffer \<Rightarrow> bool" where
  "buffer_ok data \<longleftrightarrow> length data < 2 ^ 63"

text \<open>\<open>max_size()\<close> of a byte container, and \<open>resize\<close>, which cuts or pads with zeros.\<close>

abbreviation max_size :: nat where
  "max_size \<equiv> 2 ^ 63 - 1"

definition vec_resize :: "nat \<Rightarrow> RawBuffer \<Rightarrow> RawBuffer" where
  "vec_resize n data = take n data @ replicate (n - length data) 0"

lemma memcpy_from_append [simp]:
  "memcpy_from (pre @ bs @ post) (length pre) (length bs) = Some bs"
  by (simp add: memcpy_from_def)

lemma memcpy_from_eq_Some:
  "memcpy_from data off n = Some bs \<longleftrightarrow> off + n \<le> length data \<and> bs = take n (drop off data)"
  by (auto simp: memcpy_from_def)

lemma memcpy_from_length: "memcpy_from data off n = Some bs \<Longrightarrow> length bs = n"
  by (auto simp: memcpy_from_def split: if_splits)

lemma memcpy_to_length: "memcpy_to data off bs = Some data' \<Longrightarrow> length data' = length data"
  by (auto simp: memcpy_to_def split: if_splits)

lemma memcpy_to_from:
  "memcpy_to data off bs = Some data' \<Longrightarrow> memcpy_from data' off (length bs) = Some bs"
  by (auto simp: memcpy_to_def memcpy_from_def split: if_splits)

lemma buffer_ok_appendD:
  "buffer_ok (xs @ ys) \<Longrightarrow> buffer_ok xs"
  "buffer_ok (xs @ ys) \<Longrightarrow> buffer_ok ys"
  by (simp_all add: buffer_ok_def)

lemma vec_resize_length [simp]: "length (vec_resize n data) = n"
  by (simp add: vec_resize_def)

lemma memcpy_to_vec_resize [simp]:
  "memcpy_to (vec_resize (length data + length bs) data) (length data) bs = Some (data @ bs)"
  by (simp add: memcpy_to_def vec_resize_def)

text \<open>
  Writers that each append a fixed piece append the concatenation of the pieces.
\<close>

lemma writes_map_append:
  assumes "\<And>x buf. x \<in> set xs \<Longrightarrow> buffer_ok (buf @ e x) \<Longrightarrow> w x buf = Inr (buf @ e x)"
    and "buffer_ok (buf @ concat (map e xs))"
  shows "writes (map w xs) buf = Inr (buf @ concat (map e xs))"
  using assms
proof (induction xs arbitrary: buf)
  case Nil
  show ?case by simp
next
  case (Cons x xs)
  have "buffer_ok ((buf @ e x) @ concat (map e xs))"
    using Cons.prems(2) by simp
  with Cons show ?case
    using buffer_ok_appendD(1) [of "buf @ e x"] by simp
qed

section \<open>Big-endian numbers\<close>

primrec be_enc :: "nat \<Rightarrow> nat \<Rightarrow> RawBuffer" where
  "be_enc 0 x = []"
| "be_enc (Suc n) x = be_enc n (x div 256) @ [word_of_nat x]"

definition be_dec :: "RawBuffer \<Rightarrow> nat" where
  "be_dec bs = foldl (\<lambda>acc b. acc * 256 + unat b) 0 bs"

lemma be_enc_length [simp, be_simps]: "length (be_enc n x) = n"
  by (induction n arbitrary: x) simp_all

lemma be_dec_snoc [simp]: "be_dec (bs @ [b]) = be_dec bs * 256 + unat b"
  by (simp add: be_dec_def)

lemma be_dec_Nil [simp]: "be_dec [] = 0"
  by (simp add: be_dec_def)

lemma unat_byte_of_nat: "unat (word_of_nat x :: byte) = x mod 256"
  by (simp add: unat_of_nat)

lemma unat_byte_less [simp]: "unat (b :: byte) < 256"
  using unsigned_less [of b, where 'a = nat] by simp

lemma be_dec_enc: "be_dec (be_enc n x) = x mod 256 ^ n"
proof (induction n arbitrary: x)
  case 0
  show ?case by simp
next
  case (Suc n)
  have "x mod 256 ^ Suc n = 256 * (x div 256 mod 256 ^ n) + x mod 256"
    using mod_mult2_eq [of x 256 "256 ^ n"] by simp
  with Suc show ?case by (simp add: unat_byte_of_nat)
qed

lemma be_enc_dec: "be_enc (length bs) (be_dec bs) = bs"
proof (induction bs rule: rev_induct)
  case Nil
  show ?case by simp
next
  case (snoc b bs)
  have "(be_dec bs * 256 + unat b) div 256 = be_dec bs"
    by simp
  moreover have "unat (word_of_nat (be_dec bs * 256 + unat b) :: byte) = unat b"
    by (simp only: unat_byte_of_nat) simp
  then have "word_of_nat (be_dec bs * 256 + unat b) = b"
    by (simp only: word_unat_eq_iff)
  ultimately show ?case using snoc by simp
qed

lemma be_dec_bound: "be_dec bs < 256 ^ length bs"
proof (induction bs rule: rev_induct)
  case Nil
  show ?case by simp
next
  case (snoc b bs)
  have "unat b < 256" by simp
  with snoc have "be_dec bs * 256 + unat b < (be_dec bs + 1) * 256" by simp
  also have "\<dots> \<le> 256 ^ length bs * 256" using snoc by simp
  finally show ?case by simp
qed

section \<open>Strings\<close>

text \<open>A C++ character literal as the bytes a \<open>std::string\<close> holds.\<close>

definition str :: "string \<Rightarrow> RawBuffer" where
  "str s = map of_char s"

text \<open>\<open>fmt::format\<close> of a number: its decimal digits.\<close>

fun fmt_nat :: "nat \<Rightarrow> string" where
  "fmt_nat n = (if n < 10 then [char_of (48 + n)] else fmt_nat (n div 10) @ [char_of (48 + n mod 10)])"

declare fmt_nat.simps [simp del]

lemma str_length [simp]: "length (str s) = length s"
  by (simp add: str_def)

lemma of_char_byte_inject: "(of_char c :: byte) = of_char d \<longleftrightarrow> c = d"
proof
  assume "(of_char c :: byte) = of_char d"
  then have "(word_of_nat (of_char c) :: byte) = word_of_nat (of_char d)"
    by (simp only: of_nat_of_char)
  then have "(of_char c :: nat) mod 256 = of_char d mod 256"
    by (metis unat_byte_of_nat)
  then show "c = d" by simp
qed simp

lemma str_inject [simp]: "str a = str b \<longleftrightarrow> a = b"
  unfolding str_def by (rule inj_map_eq_map) (simp add: inj_on_def of_char_byte_inject)

end
