(* ===== verification/Cql_Exceptions.thy ===== *)
theory Cql_Exceptions
  imports Cql_Prelude
begin

text \<open>
  Error codes of the protocol (\<open>include/cassandra/io/protocol/types.hpp\<close>) and the exception
  classes of the driver (\<open>include/cassandra/exception.hpp\<close>).

  A C++ enumeration with a fixed underlying type holds any value of that type after a
  \<open>static_cast\<close>, so a code read from the wire stays a 32-bit word; \<open>ErrorCode_of\<close> says which
  enumerator, if any, it is. A fault is what a call can end in instead of returning: a thrown
  exception, or undefined behaviour, which the model never hides behind a default value.
\<close>

section \<open>Error codes\<close>

datatype ErrorCode =
    kServerError | kProtocolError | kAuthenticationError
  | kUnavailable | kOverloaded | kIsBootstrapping | kTruncateError
  | kWriteTimeout | kReadTimeout
  | kReadFailure | kFunctionFailure | kWriteFailure
  | kSyntaxError | kUnauthorized | kInvalid | kConfigError | kAlreadyExists | kUnprepared

fun ErrorCode_value :: "ErrorCode \<Rightarrow> 32 word" where
  "ErrorCode_value kServerError = 0x0000"
| "ErrorCode_value kProtocolError = 0x000A"
| "ErrorCode_value kAuthenticationError = 0x0100"
| "ErrorCode_value kUnavailable = 0x1000"
| "ErrorCode_value kOverloaded = 0x1001"
| "ErrorCode_value kIsBootstrapping = 0x1002"
| "ErrorCode_value kTruncateError = 0x1003"
| "ErrorCode_value kWriteTimeout = 0x1100"
| "ErrorCode_value kReadTimeout = 0x1200"
| "ErrorCode_value kReadFailure = 0x1300"
| "ErrorCode_value kFunctionFailure = 0x1400"
| "ErrorCode_value kWriteFailure = 0x1500"
| "ErrorCode_value kSyntaxError = 0x2000"
| "ErrorCode_value kUnauthorized = 0x2100"
| "ErrorCode_value kInvalid = 0x2200"
| "ErrorCode_value kConfigError = 0x2300"
| "ErrorCode_value kAlreadyExists = 0x2400"
| "ErrorCode_value kUnprepared = 0x2500"

definition ErrorCodes :: "ErrorCode list" where
  "ErrorCodes =
    [kServerError, kProtocolError, kAuthenticationError, kUnavailable, kOverloaded,
     kIsBootstrapping, kTruncateError, kWriteTimeout, kReadTimeout, kReadFailure,
     kFunctionFailure, kWriteFailure, kSyntaxError, kUnauthorized, kInvalid, kConfigError,
     kAlreadyExists, kUnprepared]"

definition ErrorCode_of :: "32 word \<Rightarrow> ErrorCode option" where
  "ErrorCode_of w = find (\<lambda>c. ErrorCode_value c = w) ErrorCodes"

section \<open>Exceptions\<close>

text \<open>The final subclasses of \<open>FrameError\<close>; each constructor fixes the code it passes on.\<close>

datatype frame_exception =
    ServerError | ProtocolError | AuthenticationError
  | Unavailable | Overloaded | IsBootstrapping | TruncateError
  | WriteTimeout | ReadTimeout
  | ReadFailure | FunctionFailure | WriteFailure
  | SyntaxError | Unauthorized | Invalid | ConfigError | AlreadyExists | Unprepared

fun frame_exception_code :: "frame_exception \<Rightarrow> ErrorCode" where
  "frame_exception_code ServerError = kServerError"
| "frame_exception_code ProtocolError = kProtocolError"
| "frame_exception_code AuthenticationError = kAuthenticationError"
| "frame_exception_code Unavailable = kUnavailable"
| "frame_exception_code Overloaded = kOverloaded"
| "frame_exception_code IsBootstrapping = kIsBootstrapping"
| "frame_exception_code TruncateError = kTruncateError"
| "frame_exception_code WriteTimeout = kWriteTimeout"
| "frame_exception_code ReadTimeout = kReadTimeout"
| "frame_exception_code ReadFailure = kReadFailure"
| "frame_exception_code FunctionFailure = kFunctionFailure"
| "frame_exception_code WriteFailure = kWriteFailure"
| "frame_exception_code SyntaxError = kSyntaxError"
| "frame_exception_code Unauthorized = kUnauthorized"
| "frame_exception_code Invalid = kInvalid"
| "frame_exception_code ConfigError = kConfigError"
| "frame_exception_code AlreadyExists = kAlreadyExists"
| "frame_exception_code Unprepared = kUnprepared"

text \<open>
  Thrown objects: those of the standard library and of userver the code mentions, and the
  classes of \<open>cassandra::exceptions\<close>. A \<open>FrameError\<close> carries its class and its message bytes.
\<close>

datatype exn =
    std_runtime_error string
  | std_length_error
  | std_out_of_range string
  | std_bad_variant_access
  | IoException
  | SecdistError string
  | Error string
  | SessionError string
  | InvalidConfig string
  | ConnectionError string
  | PoolError string
  | FrameError frame_exception RawBuffer

text \<open>\<open>catch (const exceptions::RuntimeError&)\<close> selects the subclasses of \<open>RuntimeError\<close>.\<close>

fun is_RuntimeError :: "exn \<Rightarrow> bool" where
  "is_RuntimeError (SessionError _) = True"
| "is_RuntimeError (InvalidConfig _) = True"
| "is_RuntimeError (ConnectionError _) = True"
| "is_RuntimeError (PoolError _) = True"
| "is_RuntimeError (FrameError _ _) = True"
| "is_RuntimeError _ = False"

datatype ub = OutOfBounds | NullDeref | InvalidBool | EmptyFront | UseAfterFree | DanglingView

datatype fault = Throw exn | UB ub | OutOfFuel

type_synonym 'a rd = "(fault, 'a) reader"
type_synonym 'a wr = "(fault, 'a) writer"
type_synonym 'a res = "fault + 'a"

definition is_UB :: "fault \<Rightarrow> bool" where
  "is_UB f \<longleftrightarrow> (\<exists>u. f = UB u)"

lemma is_UB_simps [simp]:
  "is_UB (UB u)"
  "\<not> is_UB (Throw e)"
  "\<not> is_UB OutOfFuel"
  by (simp_all add: is_UB_def)

lemma ErrorCode_of_value [simp]: "ErrorCode_of (ErrorCode_value c) = Some c"
  by (cases c) (simp_all add: ErrorCode_of_def ErrorCodes_def)

lemma ErrorCode_of_Some: "ErrorCode_of w = Some c \<Longrightarrow> ErrorCode_value c = w"
  by (auto simp: ErrorCode_of_def find_Some_iff)

lemma frame_exception_code_inject:
  "frame_exception_code a = frame_exception_code b \<Longrightarrow> a = b"
  by (cases a; cases b) simp_all

end
