(* ===== verification/Cql_Codec.thy ===== *)
theory Cql_Codec
  imports Cql_Exceptions
begin

text \<open>
  The interfaces between the serialization layers. The driver composes readers and writers of
  values out of readers and writers of their parts (\<open>IO<T>::ParserType\<close> and
  \<open>IO<T>::FormatterType\<close> in \<open>include/cassandra/io/buffer_io_base.hpp\<close>); what a layer relies on of
  the layer below is one of these contracts:

  \<^item> \<open>bounded_reader\<close>: a successful read moves the offset forwards, at most to the end;
  \<^item> \<open>checked_reader\<close>: no read leaves the buffer, whatever the bytes are;
  \<^item> \<open>decoder\<close>: the reader inverts the wire format \<open>enc\<close> on well-formed values;
  \<^item> \<open>codec\<close>: moreover the writer appends exactly the wire format.
\<close>

section \<open>Readers that stay in their buffer\<close>

locale bounded_reader =
  fixes read :: "'a rd"
  assumes bounded: "off \<le> length data \<Longrightarrow> buffer_ok data \<Longrightarrow> read data off = Inr (x, off') \<Longrightarrow>
    off \<le> off' \<and> off' \<le> length data"

locale checked_reader = bounded_reader +
  assumes checked: "off \<le> length data \<Longrightarrow> buffer_ok data \<Longrightarrow> read data off = Inl f \<Longrightarrow> \<not> is_UB f"

lemma bounded_rret: "bounded_reader (rret x)"
  by unfold_locales simp

lemma bounded_rfail: "bounded_reader (rfail e)"
  by unfold_locales simp

lemma bounded_rbind:
  assumes p: "bounded_reader p" and f: "\<And>x. bounded_reader (f x)"
  shows "bounded_reader (rbind p f)"
proof
  fix off off'' :: nat and data :: RawBuffer and y
  assume off: "off \<le> length data" and ok: "buffer_ok data"
    and "rbind p f data off = Inr (y, off'')"
  then obtain x off' where 1: "p data off = Inr (x, off')" and 2: "f x data off' = Inr (y, off'')"
    by (auto simp: rbind_eq_Inr)
  from bounded_reader.bounded [OF p off ok 1] have "off \<le> off'" "off' \<le> length data" by auto
  moreover from bounded_reader.bounded [OF f this(2) ok 2] have "off' \<le> off''" "off'' \<le> length data"
    by auto
  ultimately show "off \<le> off'' \<and> off'' \<le> length data" by simp
qed

lemma bounded_rmap: "bounded_reader p \<Longrightarrow> bounded_reader (rmap f p)"
  unfolding rmap_def by (intro bounded_rbind bounded_rret)

lemma bounded_rrepeat: "bounded_reader p \<Longrightarrow> bounded_reader (rrepeat n p)"
  by (induction n) (auto intro!: bounded_rbind bounded_rret)

lemma checked_rret: "checked_reader (rret x)"
  by unfold_locales auto

lemma checked_rbind:
  assumes p: "checked_reader p" and f: "\<And>x. checked_reader (f x)"
  shows "checked_reader (rbind p f)"
proof -
  have bp: "bounded_reader p" and bf: "\<And>x. bounded_reader (f x)"
    using p f by (auto simp: checked_reader_def)
  show ?thesis
  proof (rule checked_reader.intro [OF bounded_rbind [OF bp bf]])
    show "checked_reader_axioms (rbind p f)"
    proof
      fix off data fl
      assume off: "off \<le> length data" and ok: "buffer_ok data" and "rbind p f data off = Inl fl"
      then consider "p data off = Inl fl"
        | x off' where "p data off = Inr (x, off')" "f x data off' = Inl fl"
        by (auto simp: rbind_eq_Inl)
      then show "\<not> is_UB fl"
      proof cases
        case 1
        with checked_reader.checked [OF p off ok] show ?thesis by blast
      next
        case (2 x off')
        with bounded_reader.bounded [OF bp off ok] have "off' \<le> length data" by blast
        with 2 checked_reader.checked [OF f _ ok] show ?thesis by blast
      qed
    qed
  qed
qed

lemma checked_rrepeat: "checked_reader p \<Longrightarrow> checked_reader (rrepeat n p)"
  by (induction n) (auto intro!: checked_rbind checked_rret)

lemmas bounded_intros = bounded_rret bounded_rfail bounded_rbind bounded_rmap bounded_rrepeat
lemmas checked_intros = checked_rret checked_rbind checked_rrepeat

section \<open>Decoding and appending a given piece of the wire\<close>

text \<open>
  \<open>decodes p bs x\<close>: wherever the bytes \<open>bs\<close> stand in a buffer, the reader \<open>p\<close> at their start
  returns \<open>x\<close> and stops at their end. \<open>appends w bs\<close>: the writer \<open>w\<close> puts \<open>bs\<close> at the end of
  any buffer with room for them. Both compose along the fields of a message.
\<close>

definition decodes :: "'a rd \<Rightarrow> RawBuffer \<Rightarrow> 'a \<Rightarrow> bool" where
  "decodes p bs x \<longleftrightarrow> (\<forall>pre post. buffer_ok (pre @ bs @ post) \<longrightarrow>
     p (pre @ bs @ post) (length pre) = Inr (x, length pre + length bs))"

definition appends :: "(RawBuffer \<Rightarrow> RawBuffer res) \<Rightarrow> RawBuffer \<Rightarrow> bool" where
  "appends w bs \<longleftrightarrow> (\<forall>buf. buffer_ok (buf @ bs) \<longrightarrow> w buf = Inr (buf @ bs))"

lemma decodesD: "decodes p bs x \<Longrightarrow> buffer_ok (pre @ bs @ post) \<Longrightarrow>
    p (pre @ bs @ post) (length pre) = Inr (x, length pre + length bs)"
  by (simp add: decodes_def)

lemma decodes_start: "decodes p bs x \<Longrightarrow> buffer_ok (bs @ post) \<Longrightarrow> p (bs @ post) 0 = Inr (x, length bs)"
  using decodesD [of p bs x "[]" post] by simp

lemma decodes_rret: "decodes (rret x) [] x"
  by (simp add: decodes_def)

lemma decodes_rbind:
  assumes "decodes p bs x" "decodes (f x) bs' y"
  shows "decodes (rbind p f) (bs @ bs') y"
  unfolding decodes_def
proof (intro allI impI)
  fix pre post
  assume ok: "buffer_ok (pre @ (bs @ bs') @ post)"
  have "p (pre @ bs @ bs' @ post) (length pre) = Inr (x, length (pre @ bs))"
    using decodesD [OF assms(1), of pre "bs' @ post"] ok by simp
  moreover have "f x ((pre @ bs) @ bs' @ post) (length (pre @ bs)) = Inr (y, length (pre @ bs) + length bs')"
    by (rule decodesD [OF assms(2)]) (use ok in simp)
  ultimately show "rbind p f (pre @ (bs @ bs') @ post) (length pre) = Inr (y, length pre + length (bs @ bs'))"
    by simp
qed

lemma decodes_rbind_last:
  assumes "decodes p bs x"
  shows "decodes (rbind p (\<lambda>x. rret (f x))) bs (f x)"
  using decodes_rbind [OF assms, of "\<lambda>x. rret (f x)" "[]" "f x"] by (simp add: decodes_rret)

lemma decodes_rbind_eq: "decodes p bs x \<Longrightarrow> f x = y \<Longrightarrow> decodes (rbind p (\<lambda>x. rret (f x))) bs y"
  by (drule decodes_rbind_last [where f = f]) (simp del: rret_apply)

lemma decodes_rmap: "decodes p bs x \<Longrightarrow> decodes (rmap f p) bs (f x)"
  unfolding rmap_def by (rule decodes_rbind_last)

lemma decodes_rrepeat:
  assumes "\<And>x. x \<in> set xs \<Longrightarrow> decodes p (e x) x"
  shows "decodes (rrepeat (length xs) p) (concat (map e xs)) xs"
  using assms
proof (induction xs)
  case Nil
  show ?case using decodes_rret [of "[]"] by (simp del: rret_apply)
next
  case (Cons x xs)
  then have "decodes (rbind (rrepeat (length xs) p) (\<lambda>xs. rret (x # xs))) (concat (map e xs)) (x # xs)"
    by (intro decodes_rbind_last) simp
  with Cons.prems show ?case
    by (simp del: rret_apply) (rule decodes_rbind [of p "e x" x], simp_all del: rret_apply)
qed

lemma appends_writes_Nil: "appends (writes []) []"
  by (simp add: appends_def)

lemma appends_writes_Cons:
  assumes "appends w a" "appends (writes ws) b"
  shows "appends (writes (w # ws)) (a @ b)"
  unfolding appends_def
proof (intro allI impI)
  fix buf
  assume ok: "buffer_ok (buf @ a @ b)"
  then have "buffer_ok (buf @ a)" using buffer_ok_appendD(1) [of "buf @ a" b] by simp
  with assms ok show "writes (w # ws) buf = Inr (buf @ a @ b)" by (simp add: appends_def)
qed

lemma appends_writes_single: "appends w a \<Longrightarrow> appends (writes [w]) a"
  using appends_writes_Cons [of w a "[]" "[]"] by (simp add: appends_writes_Nil)

lemma appends_writes_append:
  assumes "appends (writes vs) a" "appends (writes ws) b"
  shows "appends (writes (vs @ ws)) (a @ b)"
  unfolding appends_def
proof (intro allI impI)
  fix buf
  assume ok: "buffer_ok (buf @ a @ b)"
  then have "buffer_ok (buf @ a)" using buffer_ok_appendD(1) [of "buf @ a" b] by simp
  with assms ok show "writes (vs @ ws) buf = Inr (buf @ a @ b)"
    by (simp add: appends_def writes_append)
qed

lemma appends_writes_map:
  "(\<And>x. x \<in> set xs \<Longrightarrow> appends (w x) (e x)) \<Longrightarrow> appends (writes (map w xs)) (concat (map e xs))"
  unfolding appends_def by (blast intro: writes_map_append)

lemmas decodes_intros = decodes_rbind_last decodes_rbind decodes_rret
lemmas appends_intros = appends_writes_single appends_writes_Cons appends_writes_Nil

section \<open>Decoders and codecs\<close>

locale decoder =
  fixes read :: "'a rd"
    and enc :: "'a \<Rightarrow> RawBuffer"
    and wf :: "'a \<Rightarrow> bool"
  assumes read_enc: "wf x \<Longrightarrow> buffer_ok (pre @ enc x @ post) \<Longrightarrow>
    read (pre @ enc x @ post) (length pre) = Inr (x, length pre + length (enc x))"
begin

lemma decodes_enc: "wf x \<Longrightarrow> decodes read (enc x) x"
  by (simp add: decodes_def read_enc)

lemma enc_prefix_free:
  assumes "wf x" "wf y" "buffer_ok (enc x @ p)" "enc x @ p = enc y @ q"
  shows "x = y"
  using read_enc [of x "[]" p] read_enc [of y "[]" q] assms by simp

lemma rrepeat_enc:
  assumes "\<forall>x \<in> set xs. wf x" "buffer_ok (pre @ concat (map enc xs) @ post)"
  shows "rrepeat (length xs) read (pre @ concat (map enc xs) @ post) (length pre)
    = Inr (xs, length pre + length (concat (map enc xs)))"
  using assms decodes_rrepeat [of xs read enc] by (intro decodesD) (auto intro: decodes_enc)

end

locale codec = decoder +
  fixes "write" :: "'a wr"
  assumes write_enc: "wf x \<Longrightarrow> buffer_ok (buf @ enc x) \<Longrightarrow> write x buf = Inr (buf @ enc x)"
begin

lemma appends_enc: "wf x \<Longrightarrow> appends (write x) (enc x)"
  by (simp add: appends_def write_enc)

lemma write_read:
  assumes "wf x" "buffer_ok (buf @ enc x @ post)"
  shows "\<exists>buf'. write x buf = Inr buf' \<and> read (buf' @ post) (length buf) = Inr (x, length buf')"
proof -
  have "buffer_ok (buf @ enc x)"
    using assms(2) buffer_ok_appendD(1) [of "buf @ enc x" post] by simp
  then show ?thesis using assms read_enc [of x buf post] write_enc [of x buf] by simp
qed

lemma writes_enc:
  assumes "\<forall>x \<in> set xs. wf x" "buffer_ok (buf @ concat (map enc xs))"
  shows "writes (map write xs) buf = Inr (buf @ concat (map enc xs))"
  using assms by (intro writes_map_append) (auto intro: write_enc)

end

end
