(* ===== verification/Cql_Buffer_IO.thy ===== *)
theory Cql_Buffer_IO
  imports Cql_Codec
begin

text \<open>
  Primitive buffer access (\<open>include/cassandra/io/buffer_io_base.hpp\<close>), the integral and floating
  point types (\<open>integral_types.hpp\<close>, \<open>floating_point_types.hpp\<close>), the buffer views of
  \<open>protocol/types.hpp\<close> and the accessors of \<open>buffer_reader.hpp\<close>.

  \<open>ReadIntBE\<close> and \<open>WriteIntBE\<close> are templates over the integral type; here they are polymorphic in
  the width of the word. Offsets and sizes are \<open>size_t\<close>: the only sum of them the code forms,
  in \<open>EnsureSize\<close>, is taken modulo \<open>2 ^ 64\<close>.
\<close>

section \<open>Bounds check, reading and writing big-endian integers\<close>

abbreviation size_of :: "'a::len itself \<Rightarrow> nat" where
  "size_of T \<equiv> LENGTH('a) div 8"

definition EnsureSize :: "nat \<Rightarrow> nat \<Rightarrow> nat \<Rightarrow> unit res" where
  "EnsureSize offset required data_size =
     (if (offset + required) mod 2 ^ 64 > data_size
      then Inl (Throw (std_runtime_error ''Buffer underread'')) else Inr ())"

definition ReadIntBE :: "'a::len word rd" where
  "ReadIntBE data offset =
     res_bind (EnsureSize offset (size_of TYPE('a)) (length data)) (\<lambda>_.
       case memcpy_from data offset (size_of TYPE('a)) of
         None \<Rightarrow> Inl (UB OutOfBounds)
       | Some bs \<Rightarrow> Inr (word_of_nat (be_dec bs), offset + size_of TYPE('a)))"

definition WriteIntBE :: "'a::len word wr" where
  "WriteIntBE value data =
     (if length data + size_of TYPE('a) > max_size then Inl (Throw std_length_error)
      else Inr (data @ be_enc (size_of TYPE('a)) (unat value)))"

text \<open>
  The overload that writes into the range \<open>[begin, end)\<close> of an existing buffer: the range must be
  wide enough, and the copy must stay in the buffer.
\<close>

definition WriteIntBE_range :: "nat \<Rightarrow> nat \<Rightarrow> 'a::len word \<Rightarrow> RawBuffer \<Rightarrow> RawBuffer res" where
  "WriteIntBE_range b e value data =
     (if e - b < size_of TYPE('a) then Inl (Throw (std_out_of_range ''buffer is too small''))
      else case memcpy_to data b (be_enc (size_of TYPE('a)) (unat value)) of
             None \<Rightarrow> Inl (UB OutOfBounds)
           | Some data' \<Rightarrow> Inr data')"

text \<open>Integers in a cell of a row (\<open>Bytes\<close>): the same code on a local offset of 0.\<close>

definition IntegralBinaryParser_Bytes :: "RawBuffer \<Rightarrow> 'a::len word res" where
  "IntegralBinaryParser_Bytes buffer = res_bind (ReadIntBE buffer 0) (\<lambda>(v, _). Inr v)"

definition IntegralBinaryFormatter_Bytes :: "'a::len word \<Rightarrow> RawBuffer \<Rightarrow> RawBuffer res" where
  "IntegralBinaryFormatter_Bytes value buffer = WriteIntBE value buffer"

section \<open>Booleans and floating point numbers\<close>

text \<open>
  A \<open>bool\<close> is filled by \<open>memcpy\<close> from one byte; an object representation other than 0 or 1 is no
  value of type \<open>bool\<close>. A floating point number is its bit pattern.
\<close>

definition ReadBoolean :: "bool rd" where
  "ReadBoolean = rbind (ReadIntBE :: byte rd) (\<lambda>b.
     if b = 0 then rret False else if b = 1 then rret True else rfail (UB InvalidBool))"

definition WriteBoolean :: "bool wr" where
  "WriteBoolean v = WriteIntBE (if v then 1 else 0 :: byte)"

datatype Float = Float_bits "32 word"
datatype Double = Double_bits "64 word"

definition ReadFloat :: "Float rd" where
  "ReadFloat = rmap Float_bits ReadIntBE"

definition ReadDouble :: "Double rd" where
  "ReadDouble = rmap Double_bits ReadIntBE"

definition WriteFloat :: "Float wr" where
  "WriteFloat v = (case v of Float_bits w \<Rightarrow> WriteIntBE w)"

definition WriteDouble :: "Double wr" where
  "WriteDouble v = (case v of Double_bits w \<Rightarrow> WriteIntBE w)"

section \<open>Views and the buffer reader\<close>

record BufferView =
  view_data :: RawBuffer
  view_offset :: nat

definition BufferView_SubView :: "BufferView \<Rightarrow> nat \<Rightarrow> RawBuffer res" where
  "BufferView_SubView v n =
     (if view_offset v + n \<le> length (view_data v)
      then Inr (take n (drop (view_offset v) (view_data v))) else Inl (UB OutOfBounds))"

definition BufferReader :: "RawBuffer \<Rightarrow> BufferView" where
  "BufferReader buffer = \<lparr>view_data = buffer, view_offset = 0\<rparr>"

definition BufferReader_Remaining :: "BufferView \<Rightarrow> nat" where
  "BufferReader_Remaining r =
     nat ((int (length (view_data r)) - int (view_offset r)) mod 2 ^ 64)"

definition BufferReader_Read :: "'a rd \<Rightarrow> BufferView \<Rightarrow> ('a \<times> BufferView) res" where
  "BufferReader_Read p r =
     res_bind (p (view_data r) (view_offset r)) (\<lambda>(x, off). Inr (x, r\<lparr>view_offset := off\<rparr>))"

definition BufferReader_Offset :: "BufferView \<Rightarrow> nat" where
  "BufferReader_Offset r = view_offset r"

definition BufferReader_Empty :: "BufferView \<Rightarrow> bool" where
  "BufferReader_Empty r \<longleftrightarrow> view_data r = []"

definition BufferReader_GetSubBuffer :: "nat \<Rightarrow> BufferView \<Rightarrow> RawBuffer res" where
  "BufferReader_GetSubBuffer n r = BufferView_SubView r n"

text \<open>The unread part of the buffer; \<open>Empty\<close> says whether the whole buffer is empty, not whether all of it is read.\<close>

lemma BufferReader_rest:
  assumes "BufferReader_Offset r \<le> length (view_data r)" "length (view_data r) < 2 ^ 64"
  shows "BufferReader_GetSubBuffer (BufferReader_Remaining r) r = Inr (drop (BufferReader_Offset r) (view_data r))"
    "BufferReader_Empty r \<longleftrightarrow> BufferReader_Remaining r = 0 \<and> BufferReader_Offset r = 0"
proof -
  have "BufferReader_Remaining r = length (view_data r) - BufferReader_Offset r"
    using assms by (simp add: BufferReader_Remaining_def BufferReader_Offset_def nat_diff_distrib)
  with assms(1) show "BufferReader_GetSubBuffer (BufferReader_Remaining r) r = Inr (drop (BufferReader_Offset r) (view_data r))"
    "BufferReader_Empty r \<longleftrightarrow> BufferReader_Remaining r = 0 \<and> BufferReader_Offset r = 0"
    by (auto simp: BufferReader_GetSubBuffer_def BufferView_SubView_def BufferReader_Offset_def BufferReader_Empty_def)
qed

section \<open>The wire format of integers\<close>

definition enc_int :: "'a::len word \<Rightarrow> RawBuffer" where
  "enc_int v = be_enc (size_of TYPE('a)) (unat v)"

abbreviation always :: "'a \<Rightarrow> bool" where
  "always \<equiv> \<lambda>_. True"

lemma enc_int_length [simp]: "length (enc_int (v :: 'a::len word)) = size_of TYPE('a)"
  by (simp add: enc_int_def)

lemma EnsureSize_fits:
  assumes "data_size < 2 ^ 63" "offset \<le> data_size" "required \<le> 2 ^ 62"
  shows "EnsureSize offset required data_size =
    (if offset + required \<le> data_size then Inr ()
     else Inl (Throw (std_runtime_error ''Buffer underread'')))"
  using assms by (simp add: EnsureSize_def)

lemma power_256_size_of: "8 dvd LENGTH('a) \<Longrightarrow> (256 :: nat) ^ size_of TYPE('a::len) = 2 ^ LENGTH('a)"
proof -
  assume "8 dvd LENGTH('a)"
  then have "LENGTH('a) = 8 * size_of TYPE('a)" by simp
  moreover have "(256 :: nat) ^ size_of TYPE('a) = 2 ^ (8 * size_of TYPE('a))"
    by (simp add: power_mult)
  ultimately show ?thesis by simp
qed

lemma be_word_roundtrip:
  assumes "8 dvd LENGTH('a)"
  shows "word_of_nat (be_dec (enc_int (v :: 'a::len word))) = v"
proof -
  have "unat v < 2 ^ LENGTH('a)" by (rule unsigned_less)
  with power_256_size_of [OF assms] show ?thesis by (simp add: enc_int_def be_dec_enc)
qed

lemma enc_int_be_dec:
  assumes "8 dvd LENGTH('a)" "length bs = size_of TYPE('a)"
  shows "enc_int (word_of_nat (be_dec bs) :: 'a::len word) = bs"
proof -
  have "be_dec bs < 2 ^ LENGTH('a)"
    using be_dec_bound [of bs] assms power_256_size_of [OF assms(1)] by simp
  then have "unat (word_of_nat (be_dec bs) :: 'a word) = be_dec bs"
    by (simp add: unat_of_nat)
  with assms(2) be_enc_dec [of bs] show ?thesis by (simp add: enc_int_def)
qed

section \<open>Behaviour of the integer reader\<close>

lemma ReadIntBE_in_range:
  assumes "buffer_ok data" "off + size_of TYPE('a) \<le> length data"
  shows "(ReadIntBE :: 'a::len word rd) data off =
    Inr (word_of_nat (be_dec (take (size_of TYPE('a)) (drop off data))), off + size_of TYPE('a))"
  using assms by (simp add: ReadIntBE_def EnsureSize_def buffer_ok_def memcpy_from_def)

lemma ReadIntBE_underread:
  assumes "buffer_ok data" "off \<le> length data" "LENGTH('a) \<le> 64"
    "length data < off + size_of TYPE('a)"
  shows "(ReadIntBE :: 'a::len word rd) data off =
    Inl (Throw (std_runtime_error ''Buffer underread''))"
proof -
  have "size_of TYPE('a) \<le> 8" using assms(3) by (simp add: div_le_mono [of _ 64 8, simplified])
  with assms show ?thesis
    by (simp add: ReadIntBE_def EnsureSize_fits buffer_ok_def)
qed

lemma checked_ReadIntBE:
  assumes "LENGTH('a) \<le> 64"
  shows "checked_reader (ReadIntBE :: 'a::len word rd)"
proof unfold_locales
  fix off off' data and x :: "'a word"
  assume "off \<le> length data" "buffer_ok data" "ReadIntBE data off = Inr (x, off')"
  then show "off \<le> off' \<and> off' \<le> length data"
    using ReadIntBE_underread [OF _ _ assms, of data off]
    by (cases "off + size_of TYPE('a) \<le> length data") (auto simp: ReadIntBE_in_range)
next
  fix off data f
  assume "off \<le> length data" "buffer_ok data" "(ReadIntBE :: 'a word rd) data off = Inl f"
  then show "\<not> is_UB f"
    using ReadIntBE_underread [OF _ _ assms, of data off]
    by (cases "off + size_of TYPE('a) \<le> length data") (auto simp: ReadIntBE_in_range)
qed

lemma codec_int:
  assumes "8 dvd LENGTH('a)"
  shows "codec (ReadIntBE :: 'a::len word rd) enc_int always WriteIntBE"
proof unfold_locales
  fix x :: "'a word" and pre post
  assume "buffer_ok (pre @ enc_int x @ post)"
  then show "ReadIntBE (pre @ enc_int x @ post) (length pre) = Inr (x, length pre + length (enc_int x))"
    by (subst ReadIntBE_in_range) (auto simp: be_word_roundtrip [OF assms])
next
  fix x :: "'a word" and buf
  assume "buffer_ok (buf @ enc_int x)"
  then show "WriteIntBE x buf = Inr (buf @ enc_int x)"
    by (simp add: WriteIntBE_def enc_int_def buffer_ok_def)
qed

section \<open>The integral types of the driver\<close>

abbreviation ReadByte :: "8 word rd" where "ReadByte \<equiv> ReadIntBE"
abbreviation ReadShort :: "16 word rd" where "ReadShort \<equiv> ReadIntBE"
abbreviation ReadSmallInt :: "16 word rd" where "ReadSmallInt \<equiv> ReadIntBE"
abbreviation ReadInt :: "32 word rd" where "ReadInt \<equiv> ReadIntBE"
abbreviation ReadBigInt :: "64 word rd" where "ReadBigInt \<equiv> ReadIntBE"
abbreviation WriteByte :: "8 word wr" where "WriteByte \<equiv> WriteIntBE"
abbreviation WriteShort :: "16 word wr" where "WriteShort \<equiv> WriteIntBE"
abbreviation WriteSmallInt :: "16 word wr" where "WriteSmallInt \<equiv> WriteIntBE"
abbreviation WriteInt :: "32 word wr" where "WriteInt \<equiv> WriteIntBE"
abbreviation WriteBigInt :: "64 word wr" where "WriteBigInt \<equiv> WriteIntBE"

interpretation io_byte: codec ReadByte enc_int always WriteByte
  by (rule codec_int) simp

interpretation io_short: codec ReadShort enc_int always WriteShort
  by (rule codec_int) simp

interpretation io_int: codec ReadInt enc_int always WriteInt
  by (rule codec_int) simp

interpretation io_bigint: codec ReadBigInt enc_int always WriteBigInt
  by (rule codec_int) simp

interpretation chk_byte: checked_reader ReadByte
  by (rule checked_ReadIntBE) simp

interpretation chk_short: checked_reader ReadShort
  by (rule checked_ReadIntBE) simp

interpretation chk_int: checked_reader ReadInt
  by (rule checked_ReadIntBE) simp

interpretation chk_bigint: checked_reader ReadBigInt
  by (rule checked_ReadIntBE) simp

lemma int_decodes [simp, intro!]:
  "decodes ReadByte (enc_int (b :: 8 word)) b"
  "decodes ReadShort (enc_int (s :: 16 word)) s"
  "decodes ReadInt (enc_int (i :: 32 word)) i"
  "decodes ReadBigInt (enc_int (l :: 64 word)) l"
  by (simp_all add: io_byte.decodes_enc io_short.decodes_enc io_int.decodes_enc io_bigint.decodes_enc)

lemma int_appends [simp, intro!]:
  "appends (WriteByte b) (enc_int b)"
  "appends (WriteShort s) (enc_int s)"
  "appends (WriteInt i) (enc_int i)"
  "appends (WriteBigInt l) (enc_int l)"
  by (simp_all add: io_byte.appends_enc io_short.appends_enc io_int.appends_enc io_bigint.appends_enc)

lemma WriteIntBE_range_enc:
  "WriteIntBE_range b e (v :: 'a::len word) data =
     (if e - b < size_of TYPE('a) then Inl (Throw (std_out_of_range ''buffer is too small''))
      else case memcpy_to data b (enc_int v) of None \<Rightarrow> Inl (UB OutOfBounds) | Some data' \<Rightarrow> Inr data')"
  by (simp add: WriteIntBE_range_def enc_int_def)

lemmas int_bounded = chk_byte.bounded_reader_axioms chk_short.bounded_reader_axioms
  chk_int.bounded_reader_axioms chk_bigint.bounded_reader_axioms
lemmas int_checked = chk_byte.checked_reader_axioms chk_short.checked_reader_axioms
  chk_int.checked_reader_axioms chk_bigint.checked_reader_axioms
lemmas int_decoders = io_byte.decoder_axioms io_short.decoder_axioms
  io_int.decoder_axioms io_bigint.decoder_axioms

section \<open>Properties of the integer layer\<close>

text \<open>Writing an integral value of any whole-byte width at the end of a buffer and reading it
  back at the old end returns the value and leaves the offset at the new end, whatever follows.\<close>

theorem integral_roundtrip:
  assumes "8 dvd LENGTH('a)" and "length buf + size_of TYPE('a) + length post < 2 ^ 63"
  shows "\<exists>buf'. WriteIntBE (x :: 'a::len word) buf = Inr buf' \<and>
    length buf' = length buf + size_of TYPE('a) \<and>
    ReadIntBE (buf' @ post) (length buf) = Inr (x, length buf')"
proof -
  have ok: "buffer_ok (buf @ enc_int x @ post)" using assms(2) by (simp add: buffer_ok_def)
  from codec.write_read [OF codec_int [OF assms(1)] _ ok]
  obtain buf' where "WriteIntBE x buf = Inr buf'" "ReadIntBE (buf' @ post) (length buf) = Inr (x, length buf')"
    by auto
  moreover from this(1) have "length buf' = length buf + size_of TYPE('a)"
    by (auto simp: WriteIntBE_def split: if_splits)
  ultimately show ?thesis by blast
qed

theorem integral_roundtrip_witness:
  "\<exists>buf'. WriteIntBE (0x12345678 :: 32 word) [9] = Inr buf' \<and> length buf' = 5 \<and>
    ReadIntBE (buf' @ [7, 7]) 1 = Inr (0x12345678 :: 32 word, length buf')"
  using integral_roundtrip [where 'a = 32 and buf = "[9]" and post = "[7, 7]" and x = "0x12345678"] by simp

text \<open>The integer reader is exact on every buffer and offset inside it: it returns the
  big-endian value when the bytes are there and throws "Buffer underread" otherwise; in neither
  case does it touch memory outside the buffer.\<close>

theorem ReadIntBE_exact:
  assumes "length data < 2 ^ 63" "off \<le> length data" "LENGTH('a) \<le> 64"
  shows "(ReadIntBE :: 'a::len word rd) data off =
    (if off + size_of TYPE('a) \<le> length data
     then Inr (word_of_nat (be_dec (take (size_of TYPE('a)) (drop off data))), off + size_of TYPE('a))
     else Inl (Throw (std_runtime_error ''Buffer underread'')))"
  using assms by (auto simp: ReadIntBE_in_range ReadIntBE_underread buffer_ok_def)

theorem ReadIntBE_exact_witness:
  "(ReadIntBE :: 16 word rd) [1, 2, 3] 1 = Inr (0x0203, 3) \<and>
   (ReadIntBE :: 32 word rd) [1, 2, 3] 1 = Inl (Throw (std_runtime_error ''Buffer underread''))"
  using ReadIntBE_exact [where 'a = 16 and data = "[1, 2, 3]" and off = 1]
    ReadIntBE_exact [where 'a = 32 and data = "[1, 2, 3]" and off = 1]
  by (simp add: be_dec_def)

end
