(* ===== verification/Cql_Containers.thy ===== *)
theory Cql_Containers
  imports Cql_Buffer_IO
begin

text \<open>
  Strings, byte sequences, lists and maps (\<open>include/cassandra/io/string_types.hpp\<close>,
  \<open>list_types.hpp\<close>, \<open>map_types.hpp\<close>).

  The templates are parameterised by the type of the length prefix: here by its reader or writer
  and by the conversions the code applies to it. A \<open>std::string\<close> and a byte vector are lists of
  bytes. An \<open>unordered_map\<close> is an association list in the container's iteration order, which
  C++ leaves open; theorems about it hold for every order.
\<close>

section \<open>Length prefixes\<close>

text \<open>
  \<open>Short\<close> is unsigned, \<open>Int\<close> is signed. Used as a \<open>size_t\<close>, an \<open>Int\<close> is sign-extended, so a
  negative length becomes a huge one.
\<close>

definition Int_to_size_t :: "32 word \<Rightarrow> nat" where
  "Int_to_size_t w = nat (sint w mod 2 ^ 64)"

definition enc_short_len :: "nat \<Rightarrow> RawBuffer" where
  "enc_short_len n = enc_int (word_of_nat n :: 16 word)"

definition enc_int_len :: "nat \<Rightarrow> RawBuffer" where
  "enc_int_len n = enc_int (word_of_nat n :: 32 word)"

section \<open>Strings\<close>

definition StringBinaryParser :: "'s rd \<Rightarrow> ('s \<Rightarrow> nat) \<Rightarrow> RawBuffer rd" where
  "StringBinaryParser ReadSize to_size_t =
     rbind ReadSize (\<lambda>size data offset.
       if to_size_t size > max_size then Inl (Throw std_length_error)
       else case memcpy_from data offset (to_size_t size) of
              None \<Rightarrow> Inl (UB OutOfBounds)
            | Some res \<Rightarrow> Inr (res, offset + to_size_t size))"

text \<open>
  The formatter casts the length to the prefix type, grows the buffer by it (as a \<open>size_t\<close> sum)
  and copies that many bytes.
\<close>

definition StringBinaryFormatter :: "'s wr \<Rightarrow> (nat \<Rightarrow> 's) \<Rightarrow> ('s \<Rightarrow> nat) \<Rightarrow> RawBuffer wr" where
  "StringBinaryFormatter WriteSize cast to_size_t value buffer =
     (let size = cast (length value); n = to_size_t size in
      res_bind (WriteSize size buffer) (\<lambda>buffer.
        let offset = length buffer; new_size = (offset + n) mod 2 ^ 64 in
        if new_size > max_size then Inl (Throw std_length_error)
        else if n > length value then Inl (UB OutOfBounds)
        else case memcpy_to (vec_resize new_size buffer) offset (take n value) of
               None \<Rightarrow> Inl (UB OutOfBounds)
             | Some buffer' \<Rightarrow> Inr buffer'))"

definition ReadString :: "RawBuffer rd" where
  "ReadString = StringBinaryParser ReadShort unat"

definition ReadLongString :: "RawBuffer rd" where
  "ReadLongString = StringBinaryParser ReadInt Int_to_size_t"

definition WriteString :: "RawBuffer wr" where
  "WriteString = StringBinaryFormatter WriteShort word_of_nat unat"

definition WriteLongString :: "RawBuffer wr" where
  "WriteLongString = StringBinaryFormatter WriteInt word_of_nat Int_to_size_t"

text \<open>\<open>std::string\<close> outside of a cell has a \<open>Short\<close> as its prefix.\<close>

definition CommonStringBinaryParser :: "RawBuffer rd" where
  "CommonStringBinaryParser =
     rbind ReadShort (\<lambda>size data offset.
       case memcpy_from data offset (unat size) of
         None \<Rightarrow> Inl (UB OutOfBounds)
       | Some value \<Rightarrow> Inr (value, offset + unat size))"

definition CommonStringBinaryFormatter :: "RawBuffer wr" where
  "CommonStringBinaryFormatter value buffer =
     (let size = word_of_nat (length value) :: 16 word in
      res_bind (WriteShort size buffer) (\<lambda>buffer.
        let offset = length buffer; new_size = (offset + unat size) mod 2 ^ 64 in
        if new_size > max_size then Inl (Throw std_length_error)
        else case memcpy_to (vec_resize new_size buffer) offset (take (unat size) value) of
               None \<Rightarrow> Inl (UB OutOfBounds)
             | Some buffer' \<Rightarrow> Inr buffer'))"

text \<open>\<open>std::string\<close> in a cell of a row: the cell is the string, with no prefix.\<close>

definition CommonStringBinaryParser_Bytes :: "RawBuffer \<Rightarrow> RawBuffer res" where
  "CommonStringBinaryParser_Bytes buffer = Inr (take (length buffer) buffer)"

definition CommonStringBinaryFormatter_Bytes :: "RawBuffer \<Rightarrow> RawBuffer \<Rightarrow> RawBuffer res" where
  "CommonStringBinaryFormatter_Bytes value buffer = Inr (vec_resize (length value) value)"

section \<open>Byte sequences\<close>

text \<open>A negative or zero length reads as the empty sequence: null and empty coincide.\<close>

definition BytesBinaryParser :: "'s rd \<Rightarrow> ('s \<Rightarrow> int) \<Rightarrow> RawBuffer rd" where
  "BytesBinaryParser ReadSize value_of =
     rbind ReadSize (\<lambda>len data offset.
       if value_of len > 0
       then case memcpy_from data offset (nat (value_of len)) of
              None \<Rightarrow> Inl (UB OutOfBounds)
            | Some underlying \<Rightarrow> Inr (underlying, offset + nat (value_of len))
       else Inr ([], offset))"

definition BytesBinaryFormatter :: "'s wr \<Rightarrow> (nat \<Rightarrow> 's) \<Rightarrow> ('s \<Rightarrow> int) \<Rightarrow> RawBuffer wr" where
  "BytesBinaryFormatter WriteSize cast value_of value buffer =
     (let size = cast (length value) in
      res_bind (WriteSize size buffer) (\<lambda>buffer.
        if value_of size \<le> 0 then Inr buffer
        else let offset = length buffer; n = nat (value_of size) in
             if offset + n > max_size then Inl (Throw std_length_error)
             else if n > length value then Inl (UB OutOfBounds)
             else case memcpy_to (vec_resize (offset + n) buffer) offset (take n value) of
                    None \<Rightarrow> Inl (UB OutOfBounds)
                  | Some buffer' \<Rightarrow> Inr buffer'))"

definition ReadBytes :: "RawBuffer rd" where
  "ReadBytes = BytesBinaryParser ReadInt sint"

definition ReadShortBytes :: "RawBuffer rd" where
  "ReadShortBytes = BytesBinaryParser ReadShort uint"

definition WriteBytes :: "RawBuffer wr" where
  "WriteBytes = BytesBinaryFormatter WriteInt word_of_nat sint"

definition WriteShortBytes :: "RawBuffer wr" where
  "WriteShortBytes = BytesBinaryFormatter WriteShort word_of_nat uint"

section \<open>Lists\<close>

definition ListBinaryParser :: "'l rd \<Rightarrow> ('l \<Rightarrow> nat) \<Rightarrow> 'a rd \<Rightarrow> 'a list rd" where
  "ListBinaryParser ReadLen to_size_t ReadElement =
     rbind ReadLen (\<lambda>count. rrepeat (to_size_t count) ReadElement)"

definition ListBinaryFormatter :: "'l wr \<Rightarrow> (nat \<Rightarrow> 'l) \<Rightarrow> 'a wr \<Rightarrow> 'a list wr" where
  "ListBinaryFormatter WriteLen cast WriteElement value =
     writes (WriteLen (cast (length value)) # map WriteElement value)"

definition ReadStringList :: "RawBuffer list rd" where
  "ReadStringList = ListBinaryParser ReadShort unat ReadString"

definition WriteStringList :: "RawBuffer list wr" where
  "WriteStringList = ListBinaryFormatter WriteShort word_of_nat WriteString"

definition ReadShortVector :: "16 word list rd" where
  "ReadShortVector = ListBinaryParser ReadInt Int_to_size_t ReadShort"

definition WriteShortVector :: "16 word list wr" where
  "WriteShortVector = ListBinaryFormatter WriteInt word_of_nat WriteShort"

section \<open>Maps\<close>

text \<open>\<open>emplace\<close> keeps the mapping already there.\<close>

definition emplace :: "('k \<times> 'v) list \<Rightarrow> 'k \<Rightarrow> 'v \<Rightarrow> ('k \<times> 'v) list" where
  "emplace m k v = (if k \<in> set (map fst m) then m else m @ [(k, v)])"

primrec MapBinaryParser_loop ::
    "'k rd \<Rightarrow> 'v rd \<Rightarrow> nat \<Rightarrow> ('k \<times> 'v) list \<Rightarrow> ('k \<times> 'v) list rd" where
  "MapBinaryParser_loop ReadKey ReadMapped 0 value = rret value"
| "MapBinaryParser_loop ReadKey ReadMapped (Suc n) value =
     rbind ReadKey (\<lambda>key. rbind ReadMapped (\<lambda>mapped.
       MapBinaryParser_loop ReadKey ReadMapped n (emplace value key mapped)))"

definition MapBinaryParser :: "'l rd \<Rightarrow> ('l \<Rightarrow> nat) \<Rightarrow> 'k rd \<Rightarrow> 'v rd \<Rightarrow> ('k \<times> 'v) list rd" where
  "MapBinaryParser ReadLen to_size_t ReadKey ReadMapped =
     rbind ReadLen (\<lambda>count. MapBinaryParser_loop ReadKey ReadMapped (to_size_t count) [])"

definition MapBinaryFormatter ::
    "'l wr \<Rightarrow> (nat \<Rightarrow> 'l) \<Rightarrow> 'k wr \<Rightarrow> 'v wr \<Rightarrow> ('k \<times> 'v) list wr" where
  "MapBinaryFormatter WriteLen cast WriteKey WriteMapped value =
     writes (WriteLen (cast (length value))
             # concat (map (\<lambda>(key, val). [WriteKey key, WriteMapped val]) value))"

definition ReadStringMap :: "(RawBuffer \<times> RawBuffer) list rd" where
  "ReadStringMap = MapBinaryParser ReadShort unat ReadString ReadString"

definition WriteStringMap :: "(RawBuffer \<times> RawBuffer) list wr" where
  "WriteStringMap = MapBinaryFormatter WriteShort word_of_nat WriteString WriteString"

definition ReadStringMultiMap :: "(RawBuffer \<times> RawBuffer list) list rd" where
  "ReadStringMultiMap = MapBinaryParser ReadShort unat ReadString ReadStringList"

definition WriteStringMultiMap :: "(RawBuffer \<times> RawBuffer list) list wr" where
  "WriteStringMultiMap = MapBinaryFormatter WriteShort word_of_nat WriteString WriteStringList"

definition ReadBytesMap :: "(RawBuffer \<times> RawBuffer) list rd" where
  "ReadBytesMap = MapBinaryParser ReadShort unat ReadString ReadBytes"

definition WriteBytesMap :: "(RawBuffer \<times> RawBuffer) list wr" where
  "WriteBytesMap = MapBinaryFormatter WriteShort word_of_nat WriteString WriteBytes"

section \<open>The wire formats of the protocol\<close>

text \<open>
  The notations of the protocol, independent of the code above: \<open>[string]\<close>, \<open>[long string]\<close>,
  \<open>[bytes]\<close>, \<open>[short bytes]\<close>, \<open>[string list]\<close>, \<open>[string map]\<close>, \<open>[string multimap]\<close>.
\<close>

definition enc_string :: "RawBuffer \<Rightarrow> RawBuffer" where
  "enc_string s = enc_short_len (length s) @ s"

definition enc_long_string :: "RawBuffer \<Rightarrow> RawBuffer" where
  "enc_long_string s = enc_int_len (length s) @ s"

abbreviation enc_bytes :: "RawBuffer \<Rightarrow> RawBuffer" where
  "enc_bytes \<equiv> enc_long_string"

abbreviation enc_short_bytes :: "RawBuffer \<Rightarrow> RawBuffer" where
  "enc_short_bytes \<equiv> enc_string"

definition wf_string :: "RawBuffer \<Rightarrow> bool" where
  "wf_string s \<longleftrightarrow> length s < 2 ^ 16"

definition wf_long_string :: "RawBuffer \<Rightarrow> bool" where
  "wf_long_string s \<longleftrightarrow> length s < 2 ^ 31"

definition enc_list :: "(nat \<Rightarrow> RawBuffer) \<Rightarrow> ('a \<Rightarrow> RawBuffer) \<Rightarrow> 'a list \<Rightarrow> RawBuffer" where
  "enc_list el e xs = el (length xs) @ concat (map e xs)"

definition wf_list :: "nat \<Rightarrow> ('a \<Rightarrow> bool) \<Rightarrow> 'a list \<Rightarrow> bool" where
  "wf_list bound w xs \<longleftrightarrow> length xs < bound \<and> (\<forall>x \<in> set xs. w x)"

definition enc_pair :: "('k \<Rightarrow> RawBuffer) \<Rightarrow> ('v \<Rightarrow> RawBuffer) \<Rightarrow> 'k \<times> 'v \<Rightarrow> RawBuffer" where
  "enc_pair ek ev kv = ek (fst kv) @ ev (snd kv)"

definition wf_map :: "('k \<Rightarrow> bool) \<Rightarrow> ('v \<Rightarrow> bool) \<Rightarrow> ('k \<times> 'v) list \<Rightarrow> bool" where
  "wf_map wk wv m \<longleftrightarrow> wf_list (2 ^ 16) (\<lambda>(k, v). wk k \<and> wv v) m \<and> distinct (map fst m)"

abbreviation "enc_string_list \<equiv> enc_list enc_short_len enc_string"
abbreviation "wf_string_list \<equiv> wf_list (2 ^ 16) wf_string"
abbreviation "enc_short_vector \<equiv> enc_list enc_int_len (enc_int :: 16 word \<Rightarrow> RawBuffer)"
abbreviation "wf_short_vector \<equiv> wf_list (2 ^ 31) (always :: 16 word \<Rightarrow> bool)"
abbreviation "enc_string_map \<equiv> enc_list enc_short_len (enc_pair enc_string enc_string)"
abbreviation "wf_string_map \<equiv> wf_map wf_string wf_string"
abbreviation "enc_string_multimap \<equiv> enc_list enc_short_len (enc_pair enc_string enc_string_list)"
abbreviation "wf_string_multimap \<equiv> wf_map wf_string wf_string_list"

lemma enc_len_length [simp]: "length (enc_short_len n) = 2" "length (enc_int_len n) = 4"
  by (simp_all add: enc_short_len_def enc_int_len_def)

section \<open>Maps keep the first mapping of a key\<close>

lemma enc_pair_Pair [simp]: "enc_pair ek ev (k, v) = ek k @ ev v"
  by (simp add: enc_pair_def)

abbreviation emplace_all :: "('k \<times> 'v) list \<Rightarrow> ('k \<times> 'v) list \<Rightarrow> ('k \<times> 'v) list" where
  "emplace_all \<equiv> foldl (\<lambda>m (k, v). emplace m k v)"

lemma emplace_distinct: "distinct (map fst m) \<Longrightarrow> distinct (map fst (emplace m k v))"
  by (simp add: emplace_def)

lemma map_of_emplace: "map_of (emplace m k v) = map_of (m @ [(k, v)])"
  by (auto simp: emplace_def fun_eq_iff map_of_eq_None_iff map_add_def split: option.splits)

lemma map_of_emplace_all: "map_of (emplace_all m kvs) = map_of (m @ kvs)"
proof (induction kvs arbitrary: m)
  case (Cons kv kvs)
  then show ?case
    by (cases kv) (simp add: map_of_emplace)
qed simp

lemma emplace_all_distinct: "distinct (map fst (m @ kvs)) \<Longrightarrow> emplace_all m kvs = m @ kvs"
proof (induction kvs arbitrary: m)
  case (Cons kv kvs)
  then show ?case
    by (cases kv) (simp add: emplace_def)
qed simp

text \<open>The loop of the map reader and the body of the map writer, given codecs for the parts.\<close>

locale map_parts = key: codec ReadKey enc_key wf_key WriteKey + mapped: codec ReadMapped enc_mapped wf_mapped WriteMapped
  for ReadKey :: "'k rd" and enc_key wf_key WriteKey
    and ReadMapped :: "'v rd" and enc_mapped wf_mapped WriteMapped
begin

lemma loop_enc:
  assumes "\<forall>(k, v) \<in> set kvs. wf_key k \<and> wf_mapped v"
    and "buffer_ok (pre @ concat (map (enc_pair enc_key enc_mapped) kvs) @ post)"
  shows "MapBinaryParser_loop ReadKey ReadMapped (length kvs) m
      (pre @ concat (map (enc_pair enc_key enc_mapped) kvs) @ post) (length pre)
    = Inr (emplace_all m kvs, length pre + length (concat (map (enc_pair enc_key enc_mapped) kvs)))"
  using assms
proof (induction kvs arbitrary: pre m)
  case Nil
  show ?case by simp
next
  case (Cons kv kvs)
  obtain k v where kv: "kv = (k, v)" by (cases kv)
  let ?rest = "concat (map (enc_pair enc_key enc_mapped) kvs) @ post"
  let ?data = "pre @ enc_key k @ enc_mapped v @ ?rest"
  have ok: "buffer_ok ?data" using Cons.prems(2) kv by simp
  have 1: "ReadKey ?data (length pre) = Inr (k, length (pre @ enc_key k))"
    using key.read_enc [of k pre "enc_mapped v @ ?rest"] Cons.prems(1) kv ok by simp
  have 2: "ReadMapped ?data (length (pre @ enc_key k)) = Inr (v, length (pre @ enc_key k @ enc_mapped v))"
    using mapped.read_enc [of v "pre @ enc_key k" ?rest] Cons.prems(1) kv ok by simp
  have 3: "MapBinaryParser_loop ReadKey ReadMapped (length kvs) (emplace m k v)
      ((pre @ enc_key k @ enc_mapped v) @ ?rest) (length (pre @ enc_key k @ enc_mapped v))
    = Inr (emplace_all (emplace m k v) kvs, length (pre @ enc_key k @ enc_mapped v)
        + length (concat (map (enc_pair enc_key enc_mapped) kvs)))"
    by (rule Cons.IH) (use Cons.prems kv ok in simp_all)
  show ?case using 1 2 3 by (simp add: kv)
qed

lemma writes_pairs:
  assumes "\<forall>(k, v) \<in> set kvs. wf_key k \<and> wf_mapped v"
    and "buffer_ok (buf @ concat (map (enc_pair enc_key enc_mapped) kvs))"
  shows "writes (concat (map (\<lambda>(k, v). [WriteKey k, WriteMapped v]) kvs)) buf
    = Inr (buf @ concat (map (enc_pair enc_key enc_mapped) kvs))"
  using assms
proof (induction kvs arbitrary: buf)
  case Nil
  show ?case by simp
next
  case (Cons kv kvs)
  obtain k v where kv: "kv = (k, v)" by (cases kv)
  let ?rest = "concat (map (enc_pair enc_key enc_mapped) kvs)"
  have ok: "buffer_ok (((buf @ enc_key k) @ enc_mapped v) @ ?rest)"
    using Cons.prems(2) kv by simp
  have ok1: "buffer_ok ((buf @ enc_key k) @ enc_mapped v)" using ok by (rule buffer_ok_appendD)
  have ok2: "buffer_ok (buf @ enc_key k)" using ok1 by (rule buffer_ok_appendD)
  have "writes (concat (map (\<lambda>(k, v). [WriteKey k, WriteMapped v]) kvs)) ((buf @ enc_key k) @ enc_mapped v)
      = Inr (((buf @ enc_key k) @ enc_mapped v) @ ?rest)"
    by (rule Cons.IH) (use Cons.prems ok in simp_all)
  then show ?case
    using Cons.prems(1) kv ok1 ok2 by (simp add: key.write_enc mapped.write_enc)
qed

end

section \<open>The contract of a length prefix\<close>

locale length_prefix = bounded_reader ReadLen
  for ReadLen :: "'l rd" +
  fixes WriteLen :: "'l wr"
    and enc_len :: "nat \<Rightarrow> RawBuffer"
    and cast :: "nat \<Rightarrow> 'l"
    and to_size_t :: "'l \<Rightarrow> nat"
    and bound :: nat
  assumes read_len: "n < bound \<Longrightarrow> buffer_ok (pre @ enc_len n @ post) \<Longrightarrow>
      ReadLen (pre @ enc_len n @ post) (length pre) = Inr (cast n, length pre + length (enc_len n))"
    and write_len: "n < bound \<Longrightarrow> buffer_ok (buf @ enc_len n) \<Longrightarrow>
      WriteLen (cast n) buf = Inr (buf @ enc_len n)"
    and to_size_cast: "n < bound \<Longrightarrow> to_size_t (cast n) = n"
    and bound_small: "bound \<le> 2 ^ 31"
begin

lemma string_codec:
  "codec (StringBinaryParser ReadLen to_size_t) (\<lambda>s. enc_len (length s) @ s)
     (\<lambda>s. length s < bound) (StringBinaryFormatter WriteLen cast to_size_t)"
proof unfold_locales
  fix s pre post :: RawBuffer
  let ?e = "enc_len (length s)"
  assume s: "length s < bound" and ok: "buffer_ok (pre @ (?e @ s) @ post)"
  have "ReadLen (pre @ ?e @ s @ post) (length pre) = Inr (cast (length s), length (pre @ ?e))"
    using read_len [OF s, of pre "s @ post"] ok by simp
  moreover have "memcpy_from (pre @ ?e @ s @ post) (length (pre @ ?e)) (length s) = Some s"
    using memcpy_from_append [of "pre @ ?e" s post] by simp
  ultimately show "StringBinaryParser ReadLen to_size_t (pre @ (?e @ s) @ post) (length pre)
      = Inr (s, length pre + length (?e @ s))"
    using s bound_small by (simp add: StringBinaryParser_def to_size_cast)
next
  fix s buf :: RawBuffer
  let ?e = "enc_len (length s)"
  assume s: "length s < bound" and ok: "buffer_ok (buf @ ?e @ s)"
  have "buffer_ok (buf @ ?e)" using ok buffer_ok_appendD(1) [of "buf @ ?e" s] by simp
  moreover have "length buf + length ?e + length s \<le> max_size"
    using ok by (simp add: buffer_ok_def)
  moreover have "memcpy_to (vec_resize (length (buf @ ?e) + length s) (buf @ ?e)) (length (buf @ ?e)) s
      = Some ((buf @ ?e) @ s)"
    by (rule memcpy_to_vec_resize)
  ultimately show "StringBinaryFormatter WriteLen cast to_size_t s buf = Inr (buf @ ?e @ s)"
    using s by (simp add: StringBinaryFormatter_def Let_def write_len to_size_cast)
qed

lemma list_codec:
  fixes good :: "'b \<Rightarrow> bool"
  assumes elem: "codec read enc good write"
  shows "codec (ListBinaryParser ReadLen to_size_t read) (enc_list enc_len enc) (wf_list bound good)
     (ListBinaryFormatter WriteLen cast write)"
proof unfold_locales
  fix xs :: "'b list" and pre post
  let ?e = "enc_len (length xs)"
  assume xs: "wf_list bound good xs" and ok: "buffer_ok (pre @ enc_list enc_len enc xs @ post)"
  have dec: "decoder read enc good" using elem by (rule codec.axioms(1))
  have "ReadLen (pre @ ?e @ concat (map enc xs) @ post) (length pre)
      = Inr (cast (length xs), length (pre @ ?e))"
    using read_len [of "length xs" pre "concat (map enc xs) @ post"] ok xs
    by (simp add: enc_list_def wf_list_def)
  moreover have "rrepeat (length xs) read ((pre @ ?e) @ concat (map enc xs) @ post) (length (pre @ ?e))
      = Inr (xs, length (pre @ ?e) + length (concat (map enc xs)))"
    by (rule decoder.rrepeat_enc [OF dec]) (use ok xs in \<open>simp_all add: enc_list_def wf_list_def\<close>)
  ultimately show "ListBinaryParser ReadLen to_size_t read (pre @ enc_list enc_len enc xs @ post) (length pre)
      = Inr (xs, length pre + length (enc_list enc_len enc xs))"
    using xs by (simp add: ListBinaryParser_def enc_list_def wf_list_def to_size_cast)
next
  fix xs :: "'b list" and buf
  let ?e = "enc_len (length xs)"
  assume xs: "wf_list bound good xs" and ok: "buffer_ok (buf @ enc_list enc_len enc xs)"
  then have ok': "buffer_ok ((buf @ ?e) @ concat (map enc xs))" by (simp add: enc_list_def)
  then have "WriteLen (cast (length xs)) buf = Inr (buf @ ?e)"
    using xs buffer_ok_appendD(1) [OF ok'] by (simp add: wf_list_def write_len)
  moreover have "writes (map write xs) (buf @ ?e) = Inr ((buf @ ?e) @ concat (map enc xs))"
    by (rule codec.writes_enc [OF elem]) (use xs ok' in \<open>simp_all add: wf_list_def\<close>)
  ultimately show "ListBinaryFormatter WriteLen cast write xs buf = Inr (buf @ enc_list enc_len enc xs)"
    by (simp add: ListBinaryFormatter_def enc_list_def)
qed

lemma map_codec:
  assumes parts: "map_parts rk ek wk wrk rv ev wv wrv" and b: "2 ^ 16 \<le> bound"
  shows "codec (MapBinaryParser ReadLen to_size_t rk rv) (enc_list enc_len (enc_pair ek ev))
     (wf_map wk wv) (MapBinaryFormatter WriteLen cast wrk wrv)"
proof unfold_locales
  fix m pre post
  let ?e = "enc_len (length m)" and ?c = "concat (map (enc_pair ek ev) m)"
  assume m: "wf_map wk wv m" and ok: "buffer_ok (pre @ enc_list enc_len (enc_pair ek ev) m @ post)"
  have len: "length m < bound" using m b by (simp add: wf_map_def wf_list_def)
  have "ReadLen (pre @ ?e @ ?c @ post) (length pre) = Inr (cast (length m), length (pre @ ?e))"
    using read_len [OF len, of pre "?c @ post"] ok by (simp add: enc_list_def)
  moreover have "MapBinaryParser_loop rk rv (length m) [] ((pre @ ?e) @ ?c @ post) (length (pre @ ?e))
      = Inr (emplace_all [] m, length (pre @ ?e) + length ?c)"
    by (rule map_parts.loop_enc [OF parts])
       (use ok m in \<open>auto simp: enc_list_def wf_map_def wf_list_def\<close>)
  moreover have "emplace_all [] m = m"
    using m emplace_all_distinct [of "[]" m] by (simp add: wf_map_def)
  ultimately show "MapBinaryParser ReadLen to_size_t rk rv
      (pre @ enc_list enc_len (enc_pair ek ev) m @ post) (length pre)
      = Inr (m, length pre + length (enc_list enc_len (enc_pair ek ev) m))"
    using len by (simp add: MapBinaryParser_def enc_list_def to_size_cast)
next
  fix m buf
  let ?e = "enc_len (length m)" and ?c = "concat (map (enc_pair ek ev) m)"
  assume m: "wf_map wk wv m" and ok: "buffer_ok (buf @ enc_list enc_len (enc_pair ek ev) m)"
  have len: "length m < bound" using m b by (simp add: wf_map_def wf_list_def)
  from ok have ok': "buffer_ok ((buf @ ?e) @ ?c)" by (simp add: enc_list_def)
  then have "WriteLen (cast (length m)) buf = Inr (buf @ ?e)"
    using len buffer_ok_appendD(1) [OF ok'] by (simp add: write_len)
  moreover have "writes (concat (map (\<lambda>(k, v). [wrk k, wrv v]) m)) (buf @ ?e) = Inr ((buf @ ?e) @ ?c)"
    by (rule map_parts.writes_pairs [OF parts]) (use ok' m in \<open>auto simp: wf_map_def wf_list_def\<close>)
  ultimately show "MapBinaryFormatter WriteLen cast wrk wrv m buf
      = Inr (buf @ enc_list enc_len (enc_pair ek ev) m)"
    by (simp add: MapBinaryFormatter_def enc_list_def)
qed

lemma bounded_map:
  assumes "bounded_reader rk" "bounded_reader rv"
  shows "bounded_reader (MapBinaryParser ReadLen to_size_t rk rv)"
proof -
  have "bounded_reader (MapBinaryParser_loop rk rv n m)" for n m
    using assms by (induction n arbitrary: m) (auto intro!: bounded_intros)
  then show ?thesis
    unfolding MapBinaryParser_def by (intro bounded_rbind bounded_reader_axioms)
qed

lemma bounded_string: "bounded_reader (StringBinaryParser ReadLen to_size_t)"
  unfolding StringBinaryParser_def
  by (intro bounded_rbind bounded_reader_axioms, unfold_locales)
     (auto simp: memcpy_from_def split: if_splits)

lemma bounded_list: "bounded_reader p \<Longrightarrow> bounded_reader (ListBinaryParser ReadLen to_size_t p)"
  unfolding ListBinaryParser_def
  by (intro bounded_rbind bounded_rrepeat bounded_reader_axioms)

end

text \<open>The byte sequences test the sign of the prefix, so they rely on its integer value too.\<close>

locale valued_prefix = length_prefix +
  fixes value_of :: "'a \<Rightarrow> int"
  assumes value_cast: "n < bound \<Longrightarrow> value_of (cast n) = int n"
begin

lemma bytes_codec:
  "codec (BytesBinaryParser ReadLen value_of) (\<lambda>s. enc_len (length s) @ s)
     (\<lambda>s. length s < bound) (BytesBinaryFormatter WriteLen cast value_of)"
proof unfold_locales
  fix s pre post :: RawBuffer
  let ?e = "enc_len (length s)"
  assume s: "length s < bound" and ok: "buffer_ok (pre @ (?e @ s) @ post)"
  have "ReadLen (pre @ ?e @ s @ post) (length pre) = Inr (cast (length s), length (pre @ ?e))"
    using read_len [OF s, of pre "s @ post"] ok by simp
  moreover have "memcpy_from (pre @ ?e @ s @ post) (length (pre @ ?e)) (length s) = Some s"
    using memcpy_from_append [of "pre @ ?e" s post] by simp
  ultimately show "BytesBinaryParser ReadLen value_of (pre @ (?e @ s) @ post) (length pre)
      = Inr (s, length pre + length (?e @ s))"
    using s by (simp add: BytesBinaryParser_def value_cast)
next
  fix s buf :: RawBuffer
  let ?e = "enc_len (length s)"
  assume s: "length s < bound" and ok: "buffer_ok (buf @ ?e @ s)"
  have "buffer_ok (buf @ ?e)" using ok buffer_ok_appendD(1) [of "buf @ ?e" s] by simp
  moreover have "length buf + length ?e + length s \<le> max_size"
    using ok by (simp add: buffer_ok_def)
  moreover have "memcpy_to (vec_resize (length (buf @ ?e) + length s) (buf @ ?e)) (length (buf @ ?e)) s
      = Some ((buf @ ?e) @ s)"
    by (rule memcpy_to_vec_resize)
  ultimately show "BytesBinaryFormatter WriteLen cast value_of s buf = Inr (buf @ ?e @ s)"
    using s by (simp add: BytesBinaryFormatter_def Let_def write_len value_cast)
qed

lemma bounded_bytes: "bounded_reader (BytesBinaryParser ReadLen value_of)"
  unfolding BytesBinaryParser_def
  by (intro bounded_rbind bounded_reader_axioms, unfold_locales)
     (auto simp: memcpy_from_def split: if_splits)

end

section \<open>The two prefixes of the protocol\<close>

lemma unat_short_of_nat: "n < 2 ^ 16 \<Longrightarrow> unat (word_of_nat n :: 16 word) = n"
  by (simp add: unat_of_nat)

lemma sint_int_of_nat: "n < 2 ^ 31 \<Longrightarrow> sint (word_of_nat n :: 32 word) = int n"
  by (simp add: signed_of_nat signed_take_bit_int_eq_self)

lemma Int_to_size_t_nat: "n < 2 ^ 31 \<Longrightarrow> Int_to_size_t (word_of_nat n) = n"
  by (simp add: Int_to_size_t_def sint_int_of_nat)

lemma sint_int_bounds: "- (2 ^ 31) \<le> sint (w :: 32 word)" "sint (w :: 32 word) < 2 ^ 31"
  using sint_range_size [of w] by (simp_all add: word_size)

lemma Int_to_size_t_negative:
  assumes "sint w < 0"
  shows "Int_to_size_t w = nat (2 ^ 64 + sint w)" and "max_size < Int_to_size_t w"
proof -
  have "(sint w + 2 ^ 64) mod 2 ^ 64 = sint w + 2 ^ 64"
    using assms sint_int_bounds(1) [of w] by (intro mod_pos_pos_trivial) simp_all
  then have "sint w mod 2 ^ 64 = 2 ^ 64 + sint w" by simp
  then show "Int_to_size_t w = nat (2 ^ 64 + sint w)" by (simp add: Int_to_size_t_def)
  with assms sint_int_bounds(1) [of w] show "max_size < Int_to_size_t w" by simp
qed

interpretation short_len: valued_prefix ReadShort WriteShort enc_short_len word_of_nat unat "2 ^ 16" uint
proof unfold_locales
  fix n :: nat and pre post
  assume "buffer_ok (pre @ enc_short_len n @ post)"
  then show "ReadShort (pre @ enc_short_len n @ post) (length pre) =
      Inr (word_of_nat n, length pre + length (enc_short_len n))"
    unfolding enc_short_len_def by (intro io_short.read_enc) simp_all
qed (simp_all add: io_short.write_enc enc_short_len_def unat_short_of_nat uint_nat)

interpretation int_len: valued_prefix ReadInt WriteInt enc_int_len word_of_nat Int_to_size_t "2 ^ 31" sint
proof unfold_locales
  fix n :: nat and pre post
  assume "buffer_ok (pre @ enc_int_len n @ post)"
  then show "ReadInt (pre @ enc_int_len n @ post) (length pre) =
      Inr (word_of_nat n, length pre + length (enc_int_len n))"
    unfolding enc_int_len_def by (intro io_int.read_enc) simp_all
qed (simp_all add: io_int.write_enc enc_int_len_def Int_to_size_t_nat sint_int_of_nat)

section \<open>The container types of the driver\<close>

lemma enc_string_eq: "enc_string = (\<lambda>s. enc_short_len (length s) @ s)" "wf_string = (\<lambda>s. length s < 2 ^ 16)"
  by (simp_all add: enc_string_def wf_string_def fun_eq_iff)

lemma enc_long_string_eq:
  "enc_long_string = (\<lambda>s. enc_int_len (length s) @ s)" "wf_long_string = (\<lambda>s. length s < 2 ^ 31)"
  by (simp_all add: enc_long_string_def wf_long_string_def fun_eq_iff)

interpretation io_string: codec ReadString enc_string wf_string WriteString
  unfolding enc_string_eq ReadString_def WriteString_def by (rule short_len.string_codec)

text \<open>\<open>std::string\<close> and \<open>String\<close> have the same wire form.\<close>

lemma CommonString_eq:
  "CommonStringBinaryParser = ReadString" "CommonStringBinaryFormatter = WriteString"
proof -
  have "\<not> max_size < unat n" for n :: "16 word"
  proof -
    have "unat n < 2 ^ 16" using unsigned_less [of n] by simp
    then show ?thesis by simp
  qed
  then show "CommonStringBinaryParser = ReadString"
    by (simp add: CommonStringBinaryParser_def ReadString_def StringBinaryParser_def)
  have "\<not> n < unat (word_of_nat n :: 16 word)" for n by (simp add: unat_of_nat not_less)
  then show "CommonStringBinaryFormatter = WriteString"
    by (intro ext) (simp add: CommonStringBinaryFormatter_def WriteString_def StringBinaryFormatter_def Let_def cong: if_cong)
qed

interpretation io_std_string: codec CommonStringBinaryParser enc_string wf_string CommonStringBinaryFormatter
  unfolding CommonString_eq by (rule io_string.codec_axioms)

interpretation io_long_string: codec ReadLongString enc_long_string wf_long_string WriteLongString
  unfolding enc_long_string_eq ReadLongString_def WriteLongString_def by (rule int_len.string_codec)

interpretation io_bytes: codec ReadBytes enc_bytes wf_long_string WriteBytes
  unfolding enc_long_string_eq ReadBytes_def WriteBytes_def by (rule int_len.bytes_codec)

interpretation io_short_bytes: codec ReadShortBytes enc_short_bytes wf_string WriteShortBytes
  unfolding enc_string_eq ReadShortBytes_def WriteShortBytes_def by (rule short_len.bytes_codec)

interpretation io_string_list: codec ReadStringList enc_string_list wf_string_list WriteStringList
  unfolding ReadStringList_def WriteStringList_def
  by (rule short_len.list_codec) (rule io_string.codec_axioms)

interpretation io_short_vector: codec ReadShortVector enc_short_vector wf_short_vector WriteShortVector
  unfolding ReadShortVector_def WriteShortVector_def
  by (rule int_len.list_codec) (rule io_short.codec_axioms)

interpretation string_map_parts: map_parts ReadString enc_string wf_string WriteString
  ReadString enc_string wf_string WriteString
  by (rule map_parts.intro) (rule io_string.codec_axioms)+

interpretation string_multimap_parts: map_parts ReadString enc_string wf_string WriteString
  ReadStringList enc_string_list wf_string_list WriteStringList
  by (rule map_parts.intro) (rule io_string.codec_axioms io_string_list.codec_axioms)+

interpretation bytes_map_parts: map_parts ReadString enc_string wf_string WriteString
  ReadBytes enc_bytes wf_long_string WriteBytes
  by (rule map_parts.intro) (rule io_string.codec_axioms io_bytes.codec_axioms)+

interpretation io_string_map: codec ReadStringMap enc_string_map wf_string_map WriteStringMap
  unfolding ReadStringMap_def WriteStringMap_def
  by (rule short_len.map_codec [OF string_map_parts.map_parts_axioms]) simp

interpretation io_string_multimap: codec ReadStringMultiMap enc_string_multimap wf_string_multimap WriteStringMultiMap
  unfolding ReadStringMultiMap_def WriteStringMultiMap_def
  by (rule short_len.map_codec [OF string_multimap_parts.map_parts_axioms]) simp

interpretation io_bytes_map: codec ReadBytesMap
  "enc_list enc_short_len (enc_pair enc_string enc_bytes)" "wf_map wf_string wf_long_string" WriteBytesMap
  unfolding ReadBytesMap_def WriteBytesMap_def
  by (rule short_len.map_codec [OF bytes_map_parts.map_parts_axioms]) simp

lemma container_bounded:
  "bounded_reader ReadString" "bounded_reader ReadLongString" "bounded_reader ReadBytes"
  "bounded_reader ReadShortBytes" "bounded_reader ReadStringList" "bounded_reader ReadShortVector"
  "bounded_reader ReadStringMultiMap"
proof -
  show 1: "bounded_reader ReadString" unfolding ReadString_def by (rule short_len.bounded_string)
  show "bounded_reader ReadLongString" unfolding ReadLongString_def by (rule int_len.bounded_string)
  show "bounded_reader ReadBytes" unfolding ReadBytes_def by (rule int_len.bounded_bytes)
  show "bounded_reader ReadShortBytes" unfolding ReadShortBytes_def by (rule short_len.bounded_bytes)
  show 2: "bounded_reader ReadStringList"
    unfolding ReadStringList_def by (rule short_len.bounded_list [OF 1])
  show "bounded_reader ReadShortVector"
    unfolding ReadShortVector_def by (rule int_len.bounded_list) (rule int_bounded)
  show "bounded_reader ReadStringMultiMap"
    unfolding ReadStringMultiMap_def by (rule short_len.bounded_map [OF 1 2])
qed

lemma len_decodes [simp, intro!]:
  "decodes ReadShort (enc_short_len n) (word_of_nat n)"
  "decodes ReadInt (enc_int_len n) (word_of_nat n)"
  by (simp_all add: enc_short_len_def enc_int_len_def)

lemma len_appends [simp, intro!]:
  "appends (WriteShort (word_of_nat n)) (enc_short_len n)"
  "appends (WriteInt (word_of_nat n)) (enc_int_len n)"
  by (simp_all add: enc_short_len_def enc_int_len_def)

lemma decodes_counted:
  assumes "length xs < 2 ^ 16" "\<And>x. x \<in> set xs \<Longrightarrow> decodes p (e x) x"
  shows "decodes (rrepeat (unat (word_of_nat (length xs) :: 16 word)) p) (concat (map e xs)) xs"
  using decodes_rrepeat [of xs p e] assms by (simp add: unat_short_of_nat)

section \<open>Properties of the container layer\<close>

text \<open>A string map written by the map formatter in any iteration order is read back by the
  map parser as the same map, and the reader stops exactly where the writer stopped.\<close>

theorem string_map_roundtrip:
  assumes "wf_string_map m" and "length buf + length (enc_string_map m) + length post < 2 ^ 63"
  shows "\<exists>buf'. WriteStringMap m buf = Inr buf' \<and>
    ReadStringMap (buf' @ post) (length buf) = Inr (m, length buf')"
  using assms by (intro io_string_map.write_read) (simp_all add: buffer_ok_def)

theorem string_map_roundtrip_witness:
  "\<exists>buf'. WriteStringMap [(str ''CQL_VERSION'', str ''3.0.0''), (str ''COMPRESSION'', str ''lz4'')] [1] = Inr buf' \<and>
    ReadStringMap (buf' @ [5]) (length [1 :: byte]) =
      Inr ([(str ''CQL_VERSION'', str ''3.0.0''), (str ''COMPRESSION'', str ''lz4'')], length buf')"
  by (rule string_map_roundtrip)
     (simp_all add: wf_map_def wf_list_def wf_string_def enc_list_def enc_string_def enc_short_len_def)

text \<open>When a map on the wire repeats a key, the parsed map keeps the first value of the key:
  it is the map of the pairs as they were sent, read from the front.\<close>

theorem map_parser_first_wins:
  assumes "length kvs < 2 ^ 16" "\<forall>(k, v) \<in> set kvs. wf_string k \<and> wf_string v"
    and "length (enc_string_map kvs) < 2 ^ 63"
  shows "\<exists>m. ReadStringMap (enc_string_map kvs) 0 = Inr (m, length (enc_string_map kvs)) \<and>
    map_of m = map_of kvs"
proof -
  let ?c = "concat (map (enc_pair enc_string enc_string) kvs)"
  have "ReadShort (enc_short_len (length kvs) @ ?c) 0 = Inr (word_of_nat (length kvs), length (enc_short_len (length kvs)))"
    using short_len.read_len [of "length kvs" "[]" ?c] assms by (simp add: buffer_ok_def enc_list_def)
  moreover have "MapBinaryParser_loop ReadString ReadString (length kvs) []
      (enc_short_len (length kvs) @ ?c @ []) (length (enc_short_len (length kvs)))
      = Inr (emplace_all [] kvs, length (enc_short_len (length kvs)) + length ?c)"
    by (rule string_map_parts.loop_enc) (use assms in \<open>simp_all add: buffer_ok_def enc_list_def\<close>)
  moreover have "unat (word_of_nat (length kvs) :: 16 word) = length kvs"
    using assms(1) by (rule unat_short_of_nat)
  ultimately have "ReadStringMap (enc_string_map kvs) 0 = Inr (emplace_all [] kvs, length (enc_string_map kvs))"
    by (simp add: ReadStringMap_def MapBinaryParser_def enc_list_def)
  then show ?thesis using map_of_emplace_all [of "[]" kvs] by auto
qed

theorem map_parser_first_wins_witness:
  "\<exists>m. ReadStringMap (enc_string_map [([1], [2]), ([1], [3])]) 0 =
      Inr (m, length (enc_string_map [([1], [2]), ([1], [3])])) \<and>
    map_of m = map_of [([1], [2]), ([1], [3])]"
  by (rule map_parser_first_wins)
     (simp_all add: wf_string_def enc_list_def enc_string_def enc_short_len_def)

text \<open>The string formatter casts the length to 16 bits: a string of 65536 bytes or more is
  silently cut to its length modulo 65536, and what is written is the well-formed wire string of
  that prefix. Shorter strings are written whole.\<close>

theorem WriteString_any_length:
  assumes "length buf < 2 ^ 62"
  shows "WriteString s buf = Inr (buf @ enc_string (take (length s mod 2 ^ 16) s))"
proof -
  define t where "t = take (length s mod 2 ^ 16) s"
  have t: "length t = length s mod 2 ^ 16" by (simp add: t_def)
  then have wf: "wf_string t" by (simp add: wf_string_def)
  then have u: "unat (word_of_nat (length t) :: 16 word) = length t"
    by (simp add: wf_string_def unat_short_of_nat)
  have c: "(word_of_nat (length s) :: 16 word) = word_of_nat (length t)"
    unfolding t by (simp add: word_unat_eq_iff unat_of_nat)
  have "length s < length t \<longleftrightarrow> length t < length t" "take (length t) s = take (length t) t"
    by (simp_all add: t_def)
  then have "WriteString s buf = WriteString t buf"
    by (simp only: WriteString_def StringBinaryFormatter_def Let_def c u)
  also have "\<dots> = Inr (buf @ enc_string t)"
    by (rule io_string.write_enc [OF wf])
       (use assms t in \<open>simp add: buffer_ok_def enc_string_def enc_short_len_def\<close>)
  finally show ?thesis by (simp only: t_def)
qed

theorem WriteString_any_length_witness:
  "WriteString (replicate 65537 7) [1] = Inr ([1] @ enc_string (take (65537 mod 2 ^ 16) (replicate 65537 7)))"
  using WriteString_any_length [of "[1]" "replicate 65537 7"] by simp

text \<open>C40: The string reader checks that the two length bytes are present, but not that the announced
  bytes are: on every buffer and offset it either throws "Buffer underread" (prefix missing),
  returns the bytes, or, when the announced length passes the end, copies memory beyond the buffer.\<close>

theorem ReadString_exact:
  assumes "length data < 2 ^ 63" "off \<le> length data"
  shows "ReadString data off =
    (if length data < off + 2 then Inl (Throw (std_runtime_error ''Buffer underread''))
     else let n = be_dec (take 2 (drop off data)) in
          if off + 2 + n \<le> length data then Inr (take n (drop (off + 2) data), off + 2 + n)
          else Inl (UB OutOfBounds))"
proof (cases "length data < off + 2")
  case True
  with assms show ?thesis
    by (simp add: ReadString_def StringBinaryParser_def rbind_def ReadIntBE_underread buffer_ok_def)
next
  case False
  let ?n = "be_dec (take 2 (drop off data))"
  have "?n < 2 ^ 16" using be_dec_bound [of "take 2 (drop off data)"] False by simp
  then have "unat (word_of_nat ?n :: 16 word) = ?n" by (rule unat_short_of_nat)
  moreover have "ReadShort data off = Inr (word_of_nat ?n, off + 2)"
    using False assms by (simp add: ReadIntBE_in_range buffer_ok_def)
  ultimately show ?thesis
    using False \<open>?n < 2 ^ 16\<close> by (simp add: ReadString_def StringBinaryParser_def memcpy_from_def Let_def)
qed

theorem ReadString_exact_witness:
  "ReadString [0, 2, 65, 66, 67] 0 = Inr ([65, 66], 4) \<and> ReadString [0, 9, 65] 0 = Inl (UB OutOfBounds)"
  using ReadString_exact [of "[0, 2, 65, 66, 67]" 0] ReadString_exact [of "[0, 9, 65]" 0]
  by (simp add: be_dec_def)

text \<open>A negative length never makes the long-string reader or the byte-sequence reader leave
  the buffer: the former throws a length error, the latter returns the empty sequence, so null and
  empty values are the same to the caller.\<close>

theorem negative_length:
  fixes n :: "32 word"
  assumes "sint n < 0" "length pre + 4 + length post < 2 ^ 63"
  shows "ReadLongString (pre @ enc_int n @ post) (length pre) = Inl (Throw std_length_error) \<and>
    ReadBytes (pre @ enc_int n @ post) (length pre) = Inr ([], length pre + 4)"
proof -
  have r: "ReadInt (pre @ enc_int n @ post) (length pre) = Inr (n, length pre + 4)"
    using io_int.read_enc [where x = n and pre = pre and post = post] assms(2) by (simp add: buffer_ok_def)
  moreover from r Int_to_size_t_negative(2) [OF assms(1)]
  have "ReadLongString (pre @ enc_int n @ post) (length pre) = Inl (Throw std_length_error)"
    by (simp add: ReadLongString_def StringBinaryParser_def)
  ultimately show ?thesis
    using assms(1) by (simp add: ReadBytes_def BytesBinaryParser_def)
qed

theorem negative_length_witness:
  "ReadLongString ([] @ enc_int (- 1 :: 32 word) @ [1]) (length ([] :: byte list)) = Inl (Throw std_length_error) \<and>
   ReadBytes ([] @ enc_int (- 1 :: 32 word) @ [1]) (length ([] :: byte list)) = Inr ([], length ([] :: byte list) + 4)"
  using negative_length [of "- 1" "[]" "[1]"] by simp

text \<open>The element loop of a list of integers never leaves the buffer, whatever count the
  message announces, negative counts (which the loop takes as huge ones) included; a successful
  read returns exactly the announced number of elements and ends inside the buffer.\<close>

theorem short_vector_safe:
  assumes "length data < 2 ^ 63" "off \<le> length data"
  shows "case ReadShortVector data off of
      Inl f \<Rightarrow> \<not> is_UB f
    | Inr (xs, off') \<Rightarrow> off + 4 + 2 * length xs = off' \<and> off' \<le> length data"
proof -
  have ok: "buffer_ok data" using assms(1) by (simp add: buffer_ok_def)
  have chk: "checked_reader ReadShortVector"
    unfolding ReadShortVector_def ListBinaryParser_def by (intro checked_intros int_checked)
  have rep: "rrepeat n ReadShort data o1 = Inr (xs, o2) \<Longrightarrow> o1 \<le> length data \<Longrightarrow> o2 = o1 + 2 * length xs"
    for n o1 o2 xs
  proof (induction n arbitrary: o1 xs)
    case (Suc n)
    then obtain y o' ys where 1: "ReadShort data o1 = Inr (y, o')"
      and 2: "rrepeat n ReadShort data o' = Inr (ys, o2)" and xs: "xs = y # ys"
      by (auto simp: rbind_eq_Inr)
    have "o' = o1 + 2" "o' \<le> length data"
      using 1 chk_short.bounded [OF Suc.prems(2) ok 1] ReadIntBE_exact [OF assms(1) Suc.prems(2), where 'a = 16]
      by (auto split: if_splits)
    with Suc.IH [OF 2] xs show ?case by simp
  qed simp
  show ?thesis
  proof (cases "ReadShortVector data off")
    case (Inl f)
    with checked_reader.checked [OF chk assms(2) ok] show ?thesis by simp
  next
    case (Inr r)
    obtain xs off' where r: "r = (xs, off')" by (cases r)
    from Inr r obtain c o1 where 1: "ReadInt data off = Inr (c, o1)"
      and 2: "rrepeat (Int_to_size_t c) ReadShort data o1 = Inr (xs, off')"
      by (auto simp: ReadShortVector_def ListBinaryParser_def rbind_eq_Inr)
    have o1: "o1 = off + 4" "o1 \<le> length data"
      using 1 ReadIntBE_exact [OF assms, where 'a = 32] by (auto split: if_splits)
    have "off' \<le> length data"
      using container_bounded(6) Inr r assms(2) ok by (auto dest: bounded_reader.bounded)
    with rep [OF 2 o1(2)] o1(1) Inr r show ?thesis by simp
  qed
qed

theorem short_vector_safe_witness:
  "case ReadShortVector [0, 0, 0, 2, 0, 1, 0, 2] 0 of
      Inl f \<Rightarrow> \<not> is_UB f
    | Inr (xs, off') \<Rightarrow> 0 + 4 + 2 * length xs = off' \<and> off' \<le> length [0, 0, 0, 2, 0, 1, 0, 2 :: byte]"
  by (rule short_vector_safe) simp_all

end
