(* ===== verification/Cql_Frame.thy ===== *)
theory Cql_Frame
  imports Cql_Containers
begin

text \<open>
  The frame header of the native protocol, version 4 (\<open>include/cassandra/io/protocol/frame.hpp\<close>,
  \<open>src/io/protocol/frame.cpp\<close>) and the message base class (\<open>message.hpp\<close>).

  Enumerations with a fixed underlying type hold any value of that type, so the header keeps the
  opcode and the version as bytes; \<open>Opcode_of\<close> tells which enumerator an opcode is.
\<close>

section \<open>Enumerations\<close>

definition kCompression :: byte where "kCompression = 0x01"

datatype Opcode =
    kError | kStartup | kReady | kAuthenticate | kCredentials | kOptions | kSupported | kQuery
  | kResult | kPrepare | kExecute | kRegister | kEvent | kBatch | kAuthChallenge | kAuthResponse
  | kAuthSuccess

fun Opcode_value :: "Opcode \<Rightarrow> byte" where
  "Opcode_value kError = 0x00"
| "Opcode_value kStartup = 0x01"
| "Opcode_value kReady = 0x02"
| "Opcode_value kAuthenticate = 0x03"
| "Opcode_value kCredentials = 0x04"
| "Opcode_value kOptions = 0x05"
| "Opcode_value kSupported = 0x06"
| "Opcode_value kQuery = 0x07"
| "Opcode_value kResult = 0x08"
| "Opcode_value kPrepare = 0x09"
| "Opcode_value kExecute = 0x0A"
| "Opcode_value kRegister = 0x0B"
| "Opcode_value kEvent = 0x0C"
| "Opcode_value kBatch = 0x0D"
| "Opcode_value kAuthChallenge = 0x0E"
| "Opcode_value kAuthResponse = 0x0F"
| "Opcode_value kAuthSuccess = 0x10"

definition Opcodes :: "Opcode list" where
  "Opcodes =
    [kError, kStartup, kReady, kAuthenticate, kCredentials, kOptions, kSupported, kQuery, kResult,
     kPrepare, kExecute, kRegister, kEvent, kBatch, kAuthChallenge, kAuthResponse, kAuthSuccess]"

definition Opcode_of :: "byte \<Rightarrow> Opcode option" where
  "Opcode_of b = find (\<lambda>c. Opcode_value c = b) Opcodes"

datatype MessageDirection = kRequest | kResponse

fun MessageDirection_value :: "MessageDirection \<Rightarrow> byte" where
  "MessageDirection_value kRequest = 0x04"
| "MessageDirection_value kResponse = 0x84"

section \<open>The frame header\<close>

record FrameHeader =
  hdr_version :: byte
  hdr_flags :: byte
  hdr_stream :: "16 word"
  hdr_opcode :: byte
  hdr_length :: "32 word"

abbreviation kHeaderSize :: nat where
  "kHeaderSize \<equiv> 9"

text \<open>\<open>FrameHeader{.opcode = op}\<close>: the default member initializers and the given opcode.\<close>

definition FrameHeader_init :: "Opcode \<Rightarrow> FrameHeader" where
  "FrameHeader_init op =
     \<lparr>hdr_version = MessageDirection_value kRequest, hdr_flags = 0, hdr_stream = 0,
      hdr_opcode = Opcode_value op, hdr_length = 0\<rparr>"

definition FrameHeader_Serialize :: "FrameHeader wr" where
  "FrameHeader_Serialize h buffer =
     (if length buffer + kHeaderSize > max_size then Inl (Throw std_length_error)
      else writes
        [WriteIntBE (hdr_version h), WriteIntBE (hdr_flags h), WriteIntBE (hdr_stream h),
         WriteIntBE (hdr_opcode h), WriteIntBE (hdr_length h)] buffer)"

definition FrameHeader_UpdateLength :: "32 word \<Rightarrow> RawBuffer \<Rightarrow> RawBuffer res" where
  "FrameHeader_UpdateLength body_length buffer = WriteIntBE_range 5 9 body_length buffer"

definition FrameHeader_read :: "FrameHeader rd" where
  "FrameHeader_read =
     rbind ReadByte (\<lambda>version.
     rbind ReadByte (\<lambda>flags.
     rbind ReadShort (\<lambda>stream.
     rbind ReadByte (\<lambda>opcode.
     rbind ReadInt (\<lambda>len.
       rret \<lparr>hdr_version = version, hdr_flags = flags, hdr_stream = stream,
             hdr_opcode = opcode, hdr_length = len\<rparr>)))))"

definition FrameHeader_Parse :: "RawBuffer \<Rightarrow> FrameHeader res" where
  "FrameHeader_Parse data = res_bind (FrameHeader_read data 0) (\<lambda>(h, _). Inr h)"

text \<open>\<open>Message::SetStreamId\<close> and \<open>Message::GetStreamId\<close>: the stream is a signed 16-bit number.\<close>

definition Message_SetStreamId :: "int \<Rightarrow> FrameHeader \<Rightarrow> FrameHeader" where
  "Message_SetStreamId i h = h\<lparr>hdr_stream := word_of_int i\<rparr>"

definition Message_GetStreamId :: "FrameHeader \<Rightarrow> int" where
  "Message_GetStreamId h = sint (hdr_stream h)"

section \<open>The wire format of the header\<close>

definition enc_header :: "FrameHeader \<Rightarrow> RawBuffer" where
  "enc_header h = enc_int (hdr_version h) @ enc_int (hdr_flags h) @ enc_int (hdr_stream h)
     @ enc_int (hdr_opcode h) @ enc_int (hdr_length h)"

lemma enc_header_length [simp]: "length (enc_header h) = kHeaderSize"
  by (simp add: enc_header_def)

lemma Opcode_of_value [simp]: "Opcode_of (Opcode_value c) = Some c"
  by (cases c) (simp_all add: Opcode_of_def Opcodes_def)

lemma Opcode_of_Some: "Opcode_of b = Some c \<longleftrightarrow> b = Opcode_value c"
proof
  assume "Opcode_of b = Some c"
  then show "b = Opcode_value c" by (auto simp: Opcode_of_def find_Some_iff)
qed simp

lemma decodes_header: "decodes FrameHeader_read (enc_header h) h"
proof (cases h)
  case (fields version flags stream opcode len)
  show ?thesis
    unfolding fields FrameHeader_read_def enc_header_def FrameHeader.select_convs
    by (rule decodes_intros int_decodes)+
qed

lemma appends_header: "appends (FrameHeader_Serialize h) (enc_header h)"
proof -
  have "appends (writes [WriteIntBE (hdr_version h), WriteIntBE (hdr_flags h), WriteIntBE (hdr_stream h),
         WriteIntBE (hdr_opcode h), WriteIntBE (hdr_length h)]) (enc_header h)"
    unfolding enc_header_def by (intro appends_intros int_appends)
  then show ?thesis
    by (simp add: appends_def FrameHeader_Serialize_def buffer_ok_def)
qed

interpretation io_header: codec FrameHeader_read enc_header always FrameHeader_Serialize
  using decodes_header appends_header by unfold_locales (simp_all add: decodes_def appends_def)

lemma bounded_header: "bounded_reader FrameHeader_read"
  unfolding FrameHeader_read_def by (intro bounded_intros int_bounded)

lemma checked_header: "checked_reader FrameHeader_read"
  unfolding FrameHeader_read_def by (intro checked_intros int_checked)

lemma FrameHeader_Parse_enc:
  "length post < 2 ^ 62 \<Longrightarrow> FrameHeader_Parse (enc_header h @ post) = Inr h"
  using io_header.read_enc [where x = h and pre = "[]" and post = post]
  by (simp add: FrameHeader_Parse_def buffer_ok_def)

lemma FrameHeader_UpdateLength_enc:
  "FrameHeader_UpdateLength n (enc_header h @ body) = Inr (enc_header (h\<lparr>hdr_length := n\<rparr>) @ body)"
proof -
  let ?p = "enc_int (hdr_version h) @ enc_int (hdr_flags h) @ enc_int (hdr_stream h) @ enc_int (hdr_opcode h)"
  have "length ?p = 5" by simp
  moreover have "enc_header h @ body = ?p @ enc_int (hdr_length h) @ body"
    "enc_header (h\<lparr>hdr_length := n\<rparr>) @ body = ?p @ enc_int n @ body"
    by (simp_all add: enc_header_def)
  ultimately show ?thesis
    by (simp add: FrameHeader_UpdateLength_def WriteIntBE_range_enc memcpy_to_def)
qed

section \<open>Properties of the header\<close>

text \<open>A serialized header takes nine bytes, and parsing them, whatever body follows, gives back
  every field; overwriting the length afterwards changes the length field and nothing else, neither
  in the header nor in the body.\<close>

theorem header_roundtrip:
  assumes "length body < 2 ^ 62"
  shows "\<exists>buf buf'. FrameHeader_Serialize h [] = Inr buf \<and> length buf = kHeaderSize \<and>
    FrameHeader_Parse (buf @ body) = Inr h \<and>
    FrameHeader_UpdateLength n (buf @ body) = Inr buf' \<and>
    FrameHeader_Parse buf' = Inr (h\<lparr>hdr_length := n\<rparr>) \<and> drop kHeaderSize buf' = body"
proof -
  have "FrameHeader_Serialize h [] = Inr (enc_header h)"
    using appends_header [of h] by (simp add: appends_def buffer_ok_def)
  then show ?thesis
    using assms by (simp add: FrameHeader_Parse_enc FrameHeader_UpdateLength_enc)
qed

theorem header_roundtrip_witness:
  "\<exists>buf buf'. FrameHeader_Serialize (FrameHeader_init kQuery) [] = Inr buf \<and> length buf = kHeaderSize \<and>
    FrameHeader_Parse (buf @ [1, 2]) = Inr (FrameHeader_init kQuery) \<and>
    FrameHeader_UpdateLength 2 (buf @ [1, 2]) = Inr buf' \<and>
    FrameHeader_Parse buf' = Inr ((FrameHeader_init kQuery)\<lparr>hdr_length := 2\<rparr>) \<and> drop kHeaderSize buf' = [1, 2]"
  by (rule header_roundtrip) simp

text \<open>Parsing a header out of fewer than nine bytes throws "Buffer underread"; with nine bytes or
  more it always succeeds, whatever they are.\<close>

theorem header_parse_total:
  assumes "length data < 2 ^ 63"
  shows "if length data < kHeaderSize
    then FrameHeader_Parse data = Inl (Throw (std_runtime_error ''Buffer underread''))
    else \<exists>h. FrameHeader_Parse data = Inr h \<and> take kHeaderSize data = enc_header h"
proof -
  have r: "(ReadIntBE :: 'a::len word rd) data off =
    (if off + size_of TYPE('a) \<le> length data
     then Inr (word_of_nat (be_dec (take (size_of TYPE('a)) (drop off data))), off + size_of TYPE('a))
     else Inl (Throw (std_runtime_error ''Buffer underread'')))"
    if "off \<le> length data" "LENGTH('a) \<le> 64" for off
    using that assms by (auto simp: ReadIntBE_in_range ReadIntBE_underread buffer_ok_def)
  show ?thesis
  proof (cases "length data < kHeaderSize")
    case True
    then show ?thesis by (simp add: FrameHeader_Parse_def FrameHeader_read_def rbind_def r)
  next
    case False
    define f :: "nat \<Rightarrow> nat \<Rightarrow> nat" where "f o' n = be_dec (take n (drop o' data))" for o' n
    let ?h = "\<lparr>hdr_version = word_of_nat (f 0 1), hdr_flags = word_of_nat (f 1 1),
      hdr_stream = word_of_nat (f 2 2), hdr_opcode = word_of_nat (f 4 1), hdr_length = word_of_nat (f 5 4)\<rparr>"
    have "FrameHeader_Parse data = Inr ?h"
      using False
      by (simp add: FrameHeader_Parse_def FrameHeader_read_def rbind_def r f_def) (simp add: eval_nat_numeral)
    moreover have "enc_header ?h = take 1 (drop 0 data) @ take 1 (drop 1 data) @ take 2 (drop 2 data)
        @ take 1 (drop 4 data) @ take 4 (drop 5 data)"
      using False by (simp add: enc_header_def f_def enc_int_be_dec)
    moreover have "\<dots> = take kHeaderSize data"
      by (simp add: take_add [of 1 8 data, simplified] take_add [of 1 7, simplified]
          take_add [of 2 5, simplified] take_add [of 1 4, simplified] numeral_2_eq_2 [symmetric])
    ultimately show ?thesis using False by auto
  qed
qed

theorem header_parse_total_witness:
  "if length [0x84, 0, 0, 1 :: byte] < kHeaderSize
   then FrameHeader_Parse [0x84, 0, 0, 1] = Inl (Throw (std_runtime_error ''Buffer underread''))
   else \<exists>h. FrameHeader_Parse [0x84, 0, 0, 1] = Inr h \<and> take kHeaderSize [0x84, 0, 0, 1] = enc_header h"
  by (rule header_parse_total) simp

end
