(* ===== verification/Cql_Lz4.thy ===== *)
theory Cql_Lz4
  imports Cql_Frame
begin

text \<open>
  The LZ4 body compressor (\<open>include/cassandra/io/protocol/lz4_utils.hpp\<close>,
  \<open>src/io/protocol/lz4_utils.cpp\<close>). The block format itself is the LZ4 library's: its three functions
  are parameters. A call is modelled by its return value and the bytes it stores at the start of the
  destination; what the driver relies on of them is \<open>lz4_contract\<close>.
\<close>

section \<open>The library\<close>

record lz4_lib =
  LZ4_compressBound :: "int \<Rightarrow> int"
  LZ4_compress_default :: "RawBuffer \<Rightarrow> int \<Rightarrow> int \<Rightarrow> int \<times> RawBuffer"
  LZ4_decompress_safe :: "RawBuffer \<Rightarrow> int \<Rightarrow> int \<Rightarrow> int \<times> RawBuffer"

abbreviation LZ4_MAX_INPUT_SIZE :: nat where
  "LZ4_MAX_INPUT_SIZE \<equiv> 0x7E000000"

text \<open>
  The documented behaviour: the bound of an input of supported size is positive and not much larger
  than the input; compressing into a destination of that capacity succeeds; decompressing the
  produced block into a destination of the original size gives the input back.
\<close>

definition lz4_contract :: "lz4_lib \<Rightarrow> bool" where
  "lz4_contract L \<longleftrightarrow> (\<forall>src. length src \<le> LZ4_MAX_INPUT_SIZE \<longrightarrow>
     (let n = int (length src); cap = LZ4_compressBound L n in
      0 < cap \<and> cap \<le> n + n div 255 + 16 \<and>
      (case LZ4_compress_default L src n cap of (ret, block) \<Rightarrow>
         0 < ret \<and> ret \<le> cap \<and> length block = nat ret \<and>
         LZ4_decompress_safe L block ret n = (n, src))))"

section \<open>The compressor\<close>

text \<open>A \<open>size_t\<close> passed where the library takes an \<open>int\<close>.\<close>

definition size_to_int :: "nat \<Rightarrow> int" where
  "size_to_int n = sint (word_of_nat n :: 32 word)"

definition Lz4Compressor_Compress ::
    "lz4_lib \<Rightarrow> RawBuffer \<Rightarrow> RawBuffer \<Rightarrow> (32 word \<times> RawBuffer) res" where
  "Lz4Compressor_Compress L source output =
     (let source_size = length source;
          output_size = length output;
          compressed_size = LZ4_compressBound L (size_to_int source_size);
          new_size = nat ((int output_size + compressed_size + 4) mod 2 ^ 64) in
      if new_size > max_size then Inl (Throw std_length_error) else
      let output1 = vec_resize new_size output;
          (ret, block) = LZ4_compress_default L source (size_to_int source_size) compressed_size in
      if ret \<le> 0 then Inl (Throw (Error ''LZ4 compression failed'')) else
      case memcpy_to output1 (output_size + 4) block of
        None \<Rightarrow> Inl (UB OutOfBounds)
      | Some output2 \<Rightarrow>
          res_bind (WriteIntBE_range output_size (output_size + 4) (word_of_nat source_size :: 32 word) output2)
            (\<lambda>output3. Inr (word_of_nat source_size, vec_resize (output_size + 4 + nat ret) output3)))"

definition Lz4Compressor_Decompress :: "lz4_lib \<Rightarrow> RawBuffer \<Rightarrow> RawBuffer res" where
  "Lz4Compressor_Decompress L source =
     res_bind (ReadInt source 0) (\<lambda>(uncompressed_size, offset).
       let compressed_buffer = drop offset source in
       if Int_to_size_t uncompressed_size > max_size then Inl (Throw std_length_error) else
       let output = replicate (Int_to_size_t uncompressed_size) 0;
           (ret, block) = LZ4_decompress_safe L compressed_buffer
             (size_to_int (length compressed_buffer)) (sint uncompressed_size) in
       case memcpy_to output 0 block of
         None \<Rightarrow> Inl (UB OutOfBounds)
       | Some output' \<Rightarrow>
           if ret \<noteq> sint uncompressed_size then Inl (Throw (Error ''LZ4 decompression failed''))
           else Inr output')"

section \<open>Framing of the compressed body\<close>

lemma size_to_int_small: "n < 2 ^ 31 \<Longrightarrow> size_to_int n = int n"
  by (simp add: size_to_int_def sint_int_of_nat)

lemma lz4_contractD:
  assumes "lz4_contract L" "length src \<le> LZ4_MAX_INPUT_SIZE"
  obtains ret block where
    "LZ4_compress_default L src (int (length src)) (LZ4_compressBound L (int (length src))) = (ret, block)"
    "0 < ret" "ret \<le> LZ4_compressBound L (int (length src))"
    "LZ4_compressBound L (int (length src)) \<le> int (length src) + int (length src) div 255 + 16"
    "length block = nat ret" "LZ4_decompress_safe L block ret (int (length src)) = (int (length src), src)"
proof -
  let ?n = "int (length src)"
  obtain ret block where e: "LZ4_compress_default L src ?n (LZ4_compressBound L ?n) = (ret, block)"
    by fastforce
  have "LZ4_compressBound L ?n \<le> ?n + ?n div 255 + 16 \<and>
      (case LZ4_compress_default L src ?n (LZ4_compressBound L ?n) of (ret, block) \<Rightarrow>
         0 < ret \<and> ret \<le> LZ4_compressBound L ?n \<and> length block = nat ret \<and>
         LZ4_decompress_safe L block ret ?n = (?n, src))"
    using assms(1) [unfolded lz4_contract_def Let_def, rule_format, OF assms(2)] by (rule conjunct2)
  with e show ?thesis by (intro that [of ret block]) simp_all
qed

lemma Compress_eq:
  assumes L: "lz4_contract L" and src: "length src \<le> LZ4_MAX_INPUT_SIZE" and out: "length out < 2 ^ 62"
  obtains block where
    "Lz4Compressor_Compress L src out = Inr (word_of_nat (length src), out @ enc_int_len (length src) @ block)"
    "block \<noteq> []" "length block \<le> length src + length src div 255 + 16"
    "LZ4_decompress_safe L block (int (length block)) (int (length src)) = (int (length src), src)"
proof -
  from lz4_contractD [OF L src] obtain ret block where c:
    "LZ4_compress_default L src (int (length src)) (LZ4_compressBound L (int (length src))) = (ret, block)"
    "0 < ret" "ret \<le> LZ4_compressBound L (int (length src))"
    "LZ4_compressBound L (int (length src)) \<le> int (length src) + int (length src) div 255 + 16"
    "length block = nat ret" "LZ4_decompress_safe L block ret (int (length src)) = (int (length src), src)" .
  define cap where "cap = LZ4_compressBound L (int (length src))"
  have n: "size_to_int (length src) = int (length src)" using src by (simp add: size_to_int_small)
  have cap: "0 < cap" "cap < 2 ^ 33" using c(2-4) src by (simp_all add: cap_def)
  have size: "nat ((int (length out) + cap + 4) mod 2 ^ 64) = length out + nat cap + 4"
    using cap out by (simp add: nat_add_distrib)
  have le: "length block \<le> nat cap" using c(3,5) by (simp add: cap_def)
  define big where "big = vec_resize (length out + nat cap + 4) out"
  have big: "length big = length out + nat cap + 4" "take (length out) big = out"
    by (simp_all add: big_def vec_resize_def)
  obtain mid where mid: "memcpy_to big (length out + 4) block = Some mid"
    using big le by (simp add: memcpy_to_def)
  have mid_eq: "mid = take (length out + 4) big @ block @ drop (length out + 4 + length block) big"
    using mid by (simp add: memcpy_to_def split: if_splits)
  have tk: "take (length out) mid = out"
    using big by (simp add: mid_eq)
  have dr: "drop (length out + 4) mid = block @ drop (length out + 4 + length block) big"
    using big le by (simp add: mid_eq)
  have "WriteIntBE_range (length out) (length out + 4) (word_of_nat (length src) :: 32 word) mid
      = Inr (out @ enc_int_len (length src) @ block @ drop (length out + 4 + length block) big)"
    using mid_eq big le tk dr by (simp add: WriteIntBE_range_enc memcpy_to_def enc_int_len_def)
  moreover have "vec_resize (length out + 4 + nat ret)
      (out @ enc_int_len (length src) @ block @ drop (length out + 4 + length block) big)
      = out @ enc_int_len (length src) @ block"
    using c(5) big le by (simp add: vec_resize_def enc_int_len_def)
  ultimately have "Lz4Compressor_Compress L src out
      = Inr (word_of_nat (length src), out @ enc_int_len (length src) @ block)"
    using c(1,2) cap out mid
    unfolding Lz4Compressor_Compress_def Let_def n cap_def [symmetric] size big_def by simp
  moreover have "block \<noteq> []" using c(2,5) by auto
  moreover have "length block \<le> length src + length src div 255 + 16"
    using c(3-5) by (simp add: zdiv_int [symmetric])
  moreover have "LZ4_decompress_safe L block (int (length block)) (int (length src)) = (int (length src), src)"
    using c(2,5,6) by simp
  ultimately show ?thesis by (rule that)
qed

lemma Decompress_eq:
  assumes L: "LZ4_decompress_safe L block (int (length block)) (int (length src)) = (int (length src), src)"
    and src: "length src < 2 ^ 31" and block: "length block < 2 ^ 31"
  shows "Lz4Compressor_Decompress L (enc_int_len (length src) @ block) = Inr src"
proof -
  have "ReadInt (enc_int_len (length src) @ block) 0 = Inr (word_of_nat (length src), 4)"
    using decodes_start [of ReadInt "enc_int_len (length src)" "word_of_nat (length src)" block] block
    by (simp add: enc_int_len_def buffer_ok_def)
  moreover have "drop 4 (enc_int_len (length src) @ block) = block"
    by (simp add: enc_int_len_def)
  moreover have "memcpy_to (replicate (length src) 0) 0 src = Some src"
    by (simp add: memcpy_to_def)
  ultimately show ?thesis
    using assms
    by (simp add: Lz4Compressor_Decompress_def Let_def Int_to_size_t_nat sint_int_of_nat size_to_int_small)
qed

section \<open>Properties of the compressor\<close>

text \<open>A library that stores the input behind a zero byte meets the contract.\<close>

definition stored_lz4 :: lz4_lib where
  "stored_lz4 = \<lparr>LZ4_compressBound = (\<lambda>n. n + n div 255 + 16),
     LZ4_compress_default = (\<lambda>src n cap. (n + 1, 0 # src)),
     LZ4_decompress_safe = (\<lambda>src n cap. (n - 1, tl src))\<rparr>"

lemma stored_lz4_contract: "lz4_contract stored_lz4"
  by (auto simp: lz4_contract_def stored_lz4_def Let_def)

text \<open>With a library that behaves as documented, compressing a body of supported size appends the
  four-byte original size and the compressed block to the output and leaves what was there alone, and
  decompressing the appended part gives the body back.\<close>

theorem lz4_roundtrip:
  assumes "lz4_contract L" "length src \<le> LZ4_MAX_INPUT_SIZE" "length out < 2 ^ 62"
  shows "\<exists>tail. Lz4Compressor_Compress L src out = Inr (word_of_nat (length src), out @ tail) \<and>
    4 < length tail \<and> Lz4Compressor_Decompress L tail = Inr src"
proof -
  from Compress_eq [OF assms] obtain block where b:
    "Lz4Compressor_Compress L src out = Inr (word_of_nat (length src), out @ enc_int_len (length src) @ block)"
    "block \<noteq> []" "length block \<le> length src + length src div 255 + 16"
    "LZ4_decompress_safe L block (int (length block)) (int (length src)) = (int (length src), src)" .
  have "length src div 255 \<le> 8290000" using assms(2) by simp
  with b(3) assms(2) have "length block < 2 ^ 31" "length src < 2 ^ 31" by simp_all
  with Decompress_eq [OF b(4)] have "Lz4Compressor_Decompress L (enc_int_len (length src) @ block) = Inr src"
    by simp
  with b(1,2) show ?thesis by (intro exI conjI) (auto simp: enc_int_len_def)
qed

theorem lz4_roundtrip_witness:
  "\<exists>tail. Lz4Compressor_Compress stored_lz4 [1, 2, 3] [9] = Inr (word_of_nat (length [1, 2, 3 :: byte]), [9] @ tail) \<and>
    4 < length tail \<and> Lz4Compressor_Decompress stored_lz4 tail = Inr [1, 2, 3]"
  by (rule lz4_roundtrip [OF stored_lz4_contract]) simp_all

text \<open>Whatever the library does, a decompressed body has exactly the size its four-byte prefix
  announces, and a body shorter than the prefix or with a negative size is rejected by an exception
  before the library is called.\<close>

theorem decompress_size:
  assumes "length source < 2 ^ 63"
  shows "case Lz4Compressor_Decompress L source of
      Inr out \<Rightarrow> 4 \<le> length source \<and>
        int (length out) = sint (word_of_nat (be_dec (take 4 source)) :: 32 word)
    | Inl f \<Rightarrow> (length source < 4 \<longrightarrow> f = Throw (std_runtime_error ''Buffer underread'')) \<and>
        (4 \<le> length source \<and> sint (word_of_nat (be_dec (take 4 source)) :: 32 word) < 0 \<longrightarrow>
          f = Throw std_length_error)"
proof -
  let ?n = "word_of_nat (be_dec (take 4 source)) :: 32 word"
  have pos: "int (Int_to_size_t ?n) = sint ?n" if "\<not> max_size < Int_to_size_t ?n"
  proof -
    have "0 \<le> sint ?n" using that Int_to_size_t_negative(2) [of ?n] by (meson linorder_not_less)
    with sint_int_bounds(2) [of ?n] show ?thesis by (simp add: Int_to_size_t_def)
  qed
  show ?thesis
  proof (cases "4 \<le> length source")
    case True
    then have r: "ReadInt source 0 = Inr (?n, 4)"
      using assms by (simp add: ReadIntBE_in_range buffer_ok_def)
    show ?thesis
    proof (cases "max_size < Int_to_size_t ?n")
      case big: True
      with r True show ?thesis by (simp add: Lz4Compressor_Decompress_def Let_def)
    next
      case False
      with pos have n: "int (Int_to_size_t ?n) = sint ?n" by simp
      then have "\<not> sint ?n < 0" by linarith
      with r True False n show ?thesis
        by (auto simp: Lz4Compressor_Decompress_def Let_def split: prod.split option.split
            dest!: memcpy_to_length)
    qed
  next
    case False
    then have "ReadInt source 0 = Inl (Throw (std_runtime_error ''Buffer underread''))"
      using assms by (simp add: ReadIntBE_underread buffer_ok_def)
    with False show ?thesis by (simp add: Lz4Compressor_Decompress_def)
  qed
qed

theorem decompress_size_witness:
  "case Lz4Compressor_Decompress stored_lz4 [0, 0, 0, 1, 0, 7] of
      Inr out \<Rightarrow> 4 \<le> length [0, 0, 0, 1, 0, 7 :: byte] \<and>
        int (length out) = sint (word_of_nat (be_dec (take 4 [0, 0, 0, 1, 0, 7])) :: 32 word)
    | Inl f \<Rightarrow> (length [0, 0, 0, 1, 0, 7 :: byte] < 4 \<longrightarrow> f = Throw (std_runtime_error ''Buffer underread'')) \<and>
        (4 \<le> length [0, 0, 0, 1, 0, 7 :: byte] \<and> sint (word_of_nat (be_dec (take 4 [0, 0, 0, 1, 0, 7])) :: 32 word) < 0 \<longrightarrow>
          f = Throw std_length_error)"
  by (rule decompress_size) simp

end
