(* ===== verification/Cql_Options.thy ===== *)
theory Cql_Options
  imports Cql_Exceptions
begin

text \<open>
  Options of sessions, pools and commands (\<open>include/cassandra/options.hpp\<close>). Durations are integers
  (milliseconds for the timeouts, seconds for the time to live).
\<close>

section \<open>Enumerations\<close>

datatype InitMode = kSync | kAsync

datatype Consistency =
    kAny | kOne | kTwo | kThree | kQuorum | kAll | kLocalQuorum | kEachQuorum | kSerial
  | kLocalSerial | kLocalOne

fun Consistency_value :: "Consistency \<Rightarrow> 16 word" where
  "Consistency_value kAny = 0x0000"
| "Consistency_value kOne = 0x0001"
| "Consistency_value kTwo = 0x0002"
| "Consistency_value kThree = 0x0003"
| "Consistency_value kQuorum = 0x0004"
| "Consistency_value kAll = 0x0005"
| "Consistency_value kLocalQuorum = 0x0006"
| "Consistency_value kEachQuorum = 0x0007"
| "Consistency_value kSerial = 0x0008"
| "Consistency_value kLocalSerial = 0x0009"
| "Consistency_value kLocalOne = 0x000A"

section \<open>Command control\<close>

datatype PreparedStatementsOptionOverride = kNoOverride | kEnabled | kDisabled

record CommandControl =
  network_timeout_ms :: int
  statement_timeout_ms :: int
  prepared_statements_enabled :: PreparedStatementsOptionOverride

definition mk_CommandControl :: "int \<Rightarrow> int \<Rightarrow> PreparedStatementsOptionOverride \<Rightarrow> CommandControl" where
  "mk_CommandControl network statement prepared =
     \<lparr>network_timeout_ms = network, statement_timeout_ms = statement,
      prepared_statements_enabled = prepared\<rparr>"

text \<open>Both builders call the constructor with two arguments, so the third takes its default.\<close>

definition WithExecuteTimeout :: "int \<Rightarrow> CommandControl \<Rightarrow> CommandControl" where
  "WithExecuteTimeout n c = mk_CommandControl n (statement_timeout_ms c) kNoOverride"

definition WithStatementTimeout :: "int \<Rightarrow> CommandControl \<Rightarrow> CommandControl" where
  "WithStatementTimeout s c = mk_CommandControl (network_timeout_ms c) s kNoOverride"

definition CommandControl_eq :: "CommandControl \<Rightarrow> CommandControl \<Rightarrow> bool" where
  "CommandControl_eq a b \<longleftrightarrow>
     network_timeout_ms a = network_timeout_ms b \<and>
     statement_timeout_ms a = statement_timeout_ms b \<and>
     prepared_statements_enabled a = prepared_statements_enabled b"

text \<open>The default used when a call passes no command control: 3 s and 1 s.\<close>

definition default_CommandControl :: CommandControl where
  "default_CommandControl = mk_CommandControl 3000 1000 kNoOverride"

section \<open>Settings\<close>

definition kDefaultPoolMinSize :: nat where "kDefaultPoolMinSize = 4"
definition kDefaultPoolMaxSize :: nat where "kDefaultPoolMaxSize = 15"
definition kDefaultPoolMaxQueueSize :: nat where "kDefaultPoolMaxQueueSize = 200"
definition kDefaultConnectingLimit :: nat where "kDefaultConnectingLimit = 0"

record PoolSettings =
  min_size :: nat
  max_pool_size :: nat
  max_queue_size :: nat
  connecting_limit :: nat
  prepared_statement_cache_ways :: nat
  prepared_statement_cache_way_size :: nat
  prepared_statement_cache_enabled :: bool

definition PoolSettings_eq :: "PoolSettings \<Rightarrow> PoolSettings \<Rightarrow> bool" where
  "PoolSettings_eq a b \<longleftrightarrow>
     min_size a = min_size b \<and> max_pool_size a = max_pool_size b \<and>
     max_queue_size a = max_queue_size b \<and> connecting_limit a = connecting_limit b"

record ConnectionSettings =
  max_ttl :: "int option"
  recent_errors_threshold :: nat

record SessionSettings =
  keyspace_name :: string
  pool_settings :: PoolSettings
  connection_settings :: ConnectionSettings

lemma Consistency_value_inject [simp]: "Consistency_value a = Consistency_value b \<longleftrightarrow> a = b"
  by (cases a; cases b) simp_all

lemma CommandControl_eq_iff: "CommandControl_eq a b \<longleftrightarrow> a = b"
  by (cases a; cases b) (auto simp: CommandControl_eq_def)

section \<open>Properties of the options\<close>

text \<open>Changing a timeout of a command control drops its prepared-statement override: the copy has
  the new timeout, the other timeout of the original and no override, so it equals the original with
  that timeout replaced exactly when the original had no override.\<close>

theorem timeout_builders_drop_override:
  "prepared_statements_enabled (WithExecuteTimeout n c) = kNoOverride \<and>
   prepared_statements_enabled (WithStatementTimeout s c) = kNoOverride \<and>
   (CommandControl_eq (WithExecuteTimeout n c) (c\<lparr>network_timeout_ms := n\<rparr>) \<longleftrightarrow>
      prepared_statements_enabled c = kNoOverride) \<and>
   (CommandControl_eq (WithStatementTimeout s c) (c\<lparr>statement_timeout_ms := s\<rparr>) \<longleftrightarrow>
      prepared_statements_enabled c = kNoOverride)"
  by (auto simp: WithExecuteTimeout_def WithStatementTimeout_def mk_CommandControl_def CommandControl_eq_def)

end
