(* ===== verification/Cql_Query.thy ===== *)
theory Cql_Query
  imports Cql_Containers Cql_Options
begin

text \<open>
  Query parameters (\<open>include/cassandra/detail/query_parameters.hpp\<close>) and batches
  (\<open>include/cassandra/batch_query.hpp\<close>).

  A bound parameter is one of the C++ types that have a formatter into a \<open>Bytes\<close> cell: the integral
  types append their big-endian bytes to the cell, a \<open>std::string\<close> replaces it. The same types have a
  parser out of a cell, which rows use.
\<close>

section \<open>Values in cells\<close>

datatype cell_type = TBoolean | TByte | TShort | TInt | TBigInt | TString

datatype cell_value =
    VBoolean bool
  | VByte "8 word"
  | VShort "16 word"
  | VInt "32 word"
  | VBigInt "64 word"
  | VString RawBuffer

fun cell_type_of :: "cell_value \<Rightarrow> cell_type" where
  "cell_type_of (VBoolean _) = TBoolean"
| "cell_type_of (VByte _) = TByte"
| "cell_type_of (VShort _) = TShort"
| "cell_type_of (VInt _) = TInt"
| "cell_type_of (VBigInt _) = TBigInt"
| "cell_type_of (VString _) = TString"

text \<open>\<open>BufferWriter<Bytes>::Write\<close> and \<open>BufferReader<Bytes>::Read\<close>: the overload is chosen by the type.\<close>

fun Write_cell :: "cell_value \<Rightarrow> RawBuffer \<Rightarrow> RawBuffer res" where
  "Write_cell (VBoolean b) buf = IntegralBinaryFormatter_Bytes (if b then 1 else 0 :: 8 word) buf"
| "Write_cell (VByte w) buf = IntegralBinaryFormatter_Bytes w buf"
| "Write_cell (VShort w) buf = IntegralBinaryFormatter_Bytes w buf"
| "Write_cell (VInt w) buf = IntegralBinaryFormatter_Bytes w buf"
| "Write_cell (VBigInt w) buf = IntegralBinaryFormatter_Bytes w buf"
| "Write_cell (VString s) buf = CommonStringBinaryFormatter_Bytes s buf"

fun Read_cell :: "cell_type \<Rightarrow> RawBuffer \<Rightarrow> cell_value res" where
  "Read_cell TBoolean buf = res_bind (ReadBoolean buf 0) (\<lambda>(b, _). Inr (VBoolean b))"
| "Read_cell TByte buf = res_bind (IntegralBinaryParser_Bytes buf) (\<lambda>w. Inr (VByte w))"
| "Read_cell TShort buf = res_bind (IntegralBinaryParser_Bytes buf) (\<lambda>w. Inr (VShort w))"
| "Read_cell TInt buf = res_bind (IntegralBinaryParser_Bytes buf) (\<lambda>w. Inr (VInt w))"
| "Read_cell TBigInt buf = res_bind (IntegralBinaryParser_Bytes buf) (\<lambda>w. Inr (VBigInt w))"
| "Read_cell TString buf = res_bind (CommonStringBinaryParser_Bytes buf) (\<lambda>s. Inr (VString s))"

section \<open>Parameter holders\<close>

text \<open>
  \<open>QueryParameters\<close> views the cells of a holder: the model is the list of the cells. Writing all
  arguments writes argument \<open>i\<close> into cell \<open>i\<close>, left to right.
\<close>

type_synonym QueryParameters = "RawBuffer list"

fun Write_cells :: "cell_value list \<Rightarrow> RawBuffer list \<Rightarrow> RawBuffer list res" where
  "Write_cells [] cells = Inr cells"
| "Write_cells (a # as) [] = Inl (Throw (std_out_of_range ''vector::_M_range_check''))"
| "Write_cells (a # as) (c # cs) =
     res_bind (Write_cell a c) (\<lambda>c'. res_bind (Write_cells as cs) (\<lambda>cs'. Inr (c' # cs')))"

definition DynamicQueryParameters_Write :: "cell_value list \<Rightarrow> RawBuffer list \<Rightarrow> QueryParameters res" where
  "DynamicQueryParameters_Write args holder =
     (let n = length args in
      Write_cells args (take n holder @ replicate (n - length holder) []))"

definition StaticQueryParameters_Write :: "nat \<Rightarrow> cell_value list \<Rightarrow> QueryParameters res" where
  "StaticQueryParameters_Write ParamsCount args =
     (if length args \<noteq> ParamsCount
      then Inl (Throw (Error (''Invalid number of arguments: expected '' @ fmt_nat ParamsCount @ '', got '' @ fmt_nat (length args))))
      else Write_cells args (replicate ParamsCount []))"

section \<open>Batches\<close>

record BatchQuery =
  bq_query :: RawBuffer
  bq_params :: QueryParameters

definition mk_BatchQuery :: "RawBuffer \<Rightarrow> cell_value list \<Rightarrow> BatchQuery res" where
  "mk_BatchQuery query args =
     res_bind (DynamicQueryParameters_Write args []) (\<lambda>params. Inr \<lparr>bq_query = query, bq_params = params\<rparr>)"

datatype BatchKind = kString | kId

fun BatchKind_value :: "BatchKind \<Rightarrow> byte" where
  "BatchKind_value kString = 0"
| "BatchKind_value kId = 1"

datatype BatchText = LongStringText RawBuffer | ShortBytesId RawBuffer

record BatchStatement =
  bs_kind :: BatchKind
  bs_query :: BatchText
  bs_params :: QueryParameters

definition BatchStatement_of_string :: "RawBuffer \<Rightarrow> QueryParameters \<Rightarrow> BatchStatement" where
  "BatchStatement_of_string query params =
     \<lparr>bs_kind = kString, bs_query = LongStringText query, bs_params = params\<rparr>"

definition BatchStatement_of_id :: "RawBuffer \<Rightarrow> QueryParameters \<Rightarrow> BatchStatement" where
  "BatchStatement_of_id ident params =
     \<lparr>bs_kind = kId, bs_query = ShortBytesId ident, bs_params = params\<rparr>"

record BatchQueryStore =
  store_consistency :: Consistency
  store_queries :: "BatchQuery list"

definition mk_BatchQueryStore :: "Consistency \<Rightarrow> BatchQueryStore" where
  "mk_BatchQueryStore level = \<lparr>store_consistency = level, store_queries = []\<rparr>"

definition AddQuery :: "RawBuffer \<Rightarrow> cell_value list \<Rightarrow> BatchQueryStore \<Rightarrow> BatchQueryStore res" where
  "AddQuery query args store =
     res_bind (mk_BatchQuery query args) (\<lambda>bq.
       Inr (store\<lparr>store_queries := store_queries store @ [bq]\<rparr>))"

section \<open>The wire format of a cell\<close>

fun enc_cell :: "cell_value \<Rightarrow> RawBuffer" where
  "enc_cell (VBoolean b) = enc_int (if b then 1 else 0 :: 8 word)"
| "enc_cell (VByte w) = enc_int w"
| "enc_cell (VShort w) = enc_int w"
| "enc_cell (VInt w) = enc_int w"
| "enc_cell (VBigInt w) = enc_int w"
| "enc_cell (VString s) = s"

lemma Write_cell_fresh: "Write_cell v [] = Inr (enc_cell v)"
proof (cases v)
  case (VString s)
  then show ?thesis by (simp add: CommonStringBinaryFormatter_Bytes_def vec_resize_def)
qed (simp_all add: IntegralBinaryFormatter_Bytes_def WriteIntBE_def enc_int_def)

lemma Write_cells_fresh: "Write_cells args (replicate (length args) []) = Inr (map enc_cell args)"
  by (induction args) (simp_all add: Write_cell_fresh)

lemma DynamicQueryParameters_Write_fresh:
  "DynamicQueryParameters_Write args [] = Inr (map enc_cell args)"
  by (simp add: DynamicQueryParameters_Write_def Write_cells_fresh)

lemma IntegralBinaryParser_Bytes_enc:
  "8 dvd LENGTH('a) \<Longrightarrow> LENGTH('a) \<le> 64 \<Longrightarrow>
    IntegralBinaryParser_Bytes (enc_int (w :: 'a::len word) @ rest) = Inr w" if "length rest < 2 ^ 62"
proof -
  assume a: "8 dvd LENGTH('a)" "LENGTH('a) \<le> 64"
  have "size_of TYPE('a) \<le> 8" using a(2) by simp
  then have "buffer_ok ([] @ enc_int w @ rest)" using that by (simp add: buffer_ok_def)
  from codec.axioms(1) [OF codec_int [OF a(1)], THEN decoder.read_enc, OF TrueI this]
  show ?thesis by (simp add: IntegralBinaryParser_Bytes_def)
qed

lemma IntegralBinaryParser_Bytes_whole:
  "8 dvd LENGTH('a) \<Longrightarrow> LENGTH('a) \<le> 64 \<Longrightarrow>
    IntegralBinaryParser_Bytes (enc_int (w :: 'a::len word)) = Inr w"
  using IntegralBinaryParser_Bytes_enc [of "[]" w] by simp

lemma Read_cell_enc: "Read_cell (cell_type_of v) (enc_cell v) = Inr v"
proof (cases v)
  case (VBoolean b)
  have "ReadByte (enc_int w) 0 = Inr (w, 1)" for w :: byte
    using decodes_start [OF int_decodes(1), of w "[]"] by (simp add: buffer_ok_def)
  with VBoolean show ?thesis by (cases b) (simp_all add: ReadBoolean_def rbind_def)
next
  case (VString s)
  then show ?thesis by (simp add: CommonStringBinaryParser_Bytes_def)
qed (simp_all add: IntegralBinaryParser_Bytes_whole)

section \<open>Properties of parameters and batches\<close>

text \<open>Binding as many arguments as the statement has parameters fills one cell per argument, in
  order, and each cell reads back as its argument; binding another number of arguments throws.\<close>

theorem bound_parameters_roundtrip:
  "if length args = n
   then \<exists>cells. StaticQueryParameters_Write n args = Inr cells \<and>
     list_all2 (\<lambda>a c. Read_cell (cell_type_of a) c = Inr a) args cells
   else StaticQueryParameters_Write n args = 
     Inl (Throw (Error (''Invalid number of arguments: expected '' @ fmt_nat n @ '', got '' @ fmt_nat (length args))))"
  by (auto simp: StaticQueryParameters_Write_def Write_cells_fresh list_all2_conv_all_nth Read_cell_enc)

text \<open>Queries added to a batch keep the order of the calls, each with its own statement and its
  own bound arguments, and the consistency level of the store does not change.\<close>

theorem batch_store_order:
  "foldl (\<lambda>r (q, args). res_bind r (AddQuery q args)) (Inr (mk_BatchQueryStore level)) qs =
   Inr \<lparr>store_consistency = level,
        store_queries = map (\<lambda>(q, args). \<lparr>bq_query = q, bq_params = map enc_cell args\<rparr>) qs\<rparr>"
proof -
  have "foldl (\<lambda>r (q, args). res_bind r (AddQuery q args)) (Inr store) qs =
    Inr (store\<lparr>store_queries := store_queries store @
      map (\<lambda>(q, args). \<lparr>bq_query = q, bq_params = map enc_cell args\<rparr>) qs\<rparr>)" for store :: BatchQueryStore
    by (induction qs arbitrary: store)
       (auto simp: AddQuery_def mk_BatchQuery_def DynamicQueryParameters_Write_fresh)
  from this [of "mk_BatchQueryStore level"] show ?thesis by (simp add: mk_BatchQueryStore_def)
qed

end
