(* ===== verification/Cql_Request.thy ===== *)
theory Cql_Request
  imports Cql_Lz4 Cql_Query
begin

unbundle bit_operations_syntax

text \<open>
  Request messages (\<open>src/io/protocol/request_message.hpp\<close>). The classes derived from
  \<open>RequestMessage\<close> are the constructors of \<open>RequestBody\<close>; the header they share is kept beside the body.
  A null \<open>Compressor*\<close> is \<open>None\<close>, an \<open>Lz4Compressor\<close> is \<open>Some\<close> of the library it calls.
\<close>

section \<open>Messages\<close>

datatype RequestBody =
    OptionsMessage
  | StartupMessage "(RawBuffer \<times> RawBuffer) list"
  | QueryMessage Consistency RawBuffer QueryParameters
  | PrepareMessage RawBuffer
  | ExecuteMessage Consistency RawBuffer QueryParameters
  | BatchMessage "BatchStatement list" Consistency

record RequestMessage =
  req_header :: FrameHeader
  req_body :: RequestBody

fun RequestBody_opcode :: "RequestBody \<Rightarrow> Opcode" where
  "RequestBody_opcode OptionsMessage = kOptions"
| "RequestBody_opcode (StartupMessage _) = kStartup"
| "RequestBody_opcode (QueryMessage _ _ _) = kQuery"
| "RequestBody_opcode (PrepareMessage _) = kPrepare"
| "RequestBody_opcode (ExecuteMessage _ _ _) = kExecute"
| "RequestBody_opcode (BatchMessage _ _) = kBatch"

definition mk_RequestMessage :: "RequestBody \<Rightarrow> RequestMessage" where
  "mk_RequestMessage body = \<lparr>req_header = FrameHeader_init (RequestBody_opcode body), req_body = body\<rparr>"

text \<open>The options of a STARTUP message, in insertion order, without or with compression.\<close>

definition StartupMessage_options :: "RawBuffer option \<Rightarrow> (RawBuffer \<times> RawBuffer) list" where
  "StartupMessage_options compression =
     (str ''CQL_VERSION'', str ''3.0.0'') #
     (case compression of None \<Rightarrow> [] | Some c \<Rightarrow> [(str ''COMPRESSION'', c)])"

section \<open>Bodies\<close>

definition kSkipMetadata :: byte where "kSkipMetadata = 0x02"

definition query_flags :: "QueryParameters \<Rightarrow> byte" where
  "query_flags params = (if params \<noteq> [] then kSkipMetadata OR 0x01 else kSkipMetadata)"

text \<open>The parameter block shared by QUERY and EXECUTE: absent when there is no parameter.\<close>

definition Write_query_params :: "QueryParameters wr" where
  "Write_query_params params =
     writes (if params \<noteq> [] then WriteShort (word_of_nat (length params)) # map WriteBytes params else [])"

text \<open>One statement of a batch; \<open>std::get\<close> of the alternative the variant does not hold throws.\<close>

definition Write_batch_text :: "BatchStatement \<Rightarrow> RawBuffer \<Rightarrow> RawBuffer res" where
  "Write_batch_text s buffer =
     (case (bs_kind s, bs_query s) of
        (kString, LongStringText q) \<Rightarrow> WriteLongString q buffer
      | (kId, ShortBytesId i) \<Rightarrow> WriteShortBytes i buffer
      | _ \<Rightarrow> Inl (Throw std_bad_variant_access))"

definition Write_batch_statement :: "BatchStatement wr" where
  "Write_batch_statement s =
     writes ([WriteByte (BatchKind_value (bs_kind s)), Write_batch_text s,
              WriteShort (word_of_nat (length (bs_params s)))] @ map WriteBytes (bs_params s))"

fun SerializeBody :: "RequestBody wr" where
  "SerializeBody OptionsMessage buffer = Inr buffer"
| "SerializeBody (StartupMessage options) buffer = WriteStringMap options buffer"
| "SerializeBody (QueryMessage level query params) buffer =
     writes [WriteLongString query, WriteShort (Consistency_value level),
             WriteByte (query_flags params), Write_query_params params] buffer"
| "SerializeBody (PrepareMessage query) buffer = WriteLongString query buffer"
| "SerializeBody (ExecuteMessage level ident params) buffer =
     writes [WriteShortBytes ident, WriteShort (Consistency_value level),
             WriteByte (query_flags params), Write_query_params params] buffer"
| "SerializeBody (BatchMessage queries level) buffer =
     writes ([WriteByte 0, WriteShort (word_of_nat (length queries))]
             @ map Write_batch_statement queries
             @ [WriteShort (Consistency_value level), WriteByte 0]) buffer"

section \<open>Frames\<close>

text \<open>The end of \<open>RequestMessage::Serialize\<close>: the length field is set when the body is not empty.\<close>

definition Serialize_length :: "RawBuffer \<Rightarrow> RawBuffer res" where
  "Serialize_length buffer =
     (let body_length = word_of_int (int (length buffer) - int kHeaderSize) :: 32 word in
      if sint body_length > 0 then FrameHeader_UpdateLength body_length buffer else Inr buffer)"

definition RequestMessage_Serialize ::
    "lz4_lib option \<Rightarrow> RequestMessage \<Rightarrow> RawBuffer \<Rightarrow> (RequestMessage \<times> RawBuffer) res" where
  "RequestMessage_Serialize compressor m buffer =
     (case compressor of
        None \<Rightarrow>
          res_bind (FrameHeader_Serialize (req_header m) buffer) (\<lambda>buffer.
          res_bind (SerializeBody (req_body m) buffer) (\<lambda>buffer.
          res_bind (Serialize_length buffer) (\<lambda>buffer. Inr (m, buffer))))
      | Some L \<Rightarrow>
          let h = (req_header m)\<lparr>hdr_flags := hdr_flags (req_header m) OR kCompression\<rparr> in
          res_bind (FrameHeader_Serialize h buffer) (\<lambda>buffer.
          res_bind (SerializeBody (req_body m) []) (\<lambda>body_buffer.
          res_bind (Lz4Compressor_Compress L body_buffer buffer) (\<lambda>(_, buffer).
          res_bind (Serialize_length buffer) (\<lambda>buffer. Inr (m\<lparr>req_header := h\<rparr>, buffer))))))"

section \<open>The wire format of the bodies\<close>

definition enc_query_params :: "QueryParameters \<Rightarrow> RawBuffer" where
  "enc_query_params params = (if params \<noteq> [] then enc_list enc_short_len enc_bytes params else [])"

fun enc_batch_text :: "BatchText \<Rightarrow> RawBuffer" where
  "enc_batch_text (LongStringText q) = enc_long_string q"
| "enc_batch_text (ShortBytesId i) = enc_short_bytes i"

definition enc_batch_statement :: "BatchStatement \<Rightarrow> RawBuffer" where
  "enc_batch_statement s = enc_int (BatchKind_value (bs_kind s)) @ enc_batch_text (bs_query s)
     @ enc_list enc_short_len enc_bytes (bs_params s)"

fun enc_body :: "RequestBody \<Rightarrow> RawBuffer" where
  "enc_body OptionsMessage = []"
| "enc_body (StartupMessage options) = enc_string_map options"
| "enc_body (QueryMessage level query params) =
     enc_long_string query @ enc_int (Consistency_value level) @ enc_int (query_flags params)
     @ enc_query_params params"
| "enc_body (PrepareMessage query) = enc_long_string query"
| "enc_body (ExecuteMessage level ident params) =
     enc_short_bytes ident @ enc_int (Consistency_value level) @ enc_int (query_flags params)
     @ enc_query_params params"
| "enc_body (BatchMessage queries level) =
     enc_int (0 :: byte) @ enc_list enc_short_len enc_batch_statement queries
     @ enc_int (Consistency_value level) @ enc_int (0 :: byte)"

abbreviation wf_params :: "QueryParameters \<Rightarrow> bool" where
  "wf_params \<equiv> wf_list (2 ^ 16) wf_long_string"

definition wf_statement :: "BatchStatement \<Rightarrow> bool" where
  "wf_statement s \<longleftrightarrow> wf_params (bs_params s) \<and>
     (case (bs_kind s, bs_query s) of
        (kString, LongStringText q) \<Rightarrow> wf_long_string q
      | (kId, ShortBytesId i) \<Rightarrow> wf_string i
      | _ \<Rightarrow> False)"

fun wf_body :: "RequestBody \<Rightarrow> bool" where
  "wf_body OptionsMessage = True"
| "wf_body (StartupMessage options) = wf_string_map options"
| "wf_body (QueryMessage level query params) = (wf_long_string query \<and> wf_params params)"
| "wf_body (PrepareMessage query) = wf_long_string query"
| "wf_body (ExecuteMessage level ident params) = (wf_string ident \<and> wf_params params)"
| "wf_body (BatchMessage queries level) = wf_list (2 ^ 16) wf_statement queries"

lemma appends_counted:
  assumes "\<And>x. x \<in> set xs \<Longrightarrow> appends (w x) (e x)"
  shows "appends (writes (WriteShort (word_of_nat (length xs)) # map w xs)) (enc_list enc_short_len e xs)"
  unfolding enc_list_def by (intro appends_writes_Cons len_appends appends_writes_map assms)

lemma appends_query_params: "wf_params params \<Longrightarrow> appends (Write_query_params params) (enc_query_params params)"
  unfolding Write_query_params_def enc_query_params_def
  by (auto simp: wf_list_def appends_writes_Nil simp del: writes.simps
      intro!: appends_counted io_bytes.appends_enc)

lemma appends_batch_text:
  "wf_statement s \<Longrightarrow> appends (Write_batch_text s) (enc_batch_text (bs_query s))"
  unfolding Write_batch_text_def wf_statement_def
  by (cases "bs_kind s"; cases "bs_query s")
     (auto intro: io_long_string.appends_enc io_short_bytes.appends_enc)

lemma appends_batch_statement:
  assumes "wf_statement s"
  shows "appends (Write_batch_statement s) (enc_batch_statement s)"
proof -
  have "appends (writes (WriteShort (word_of_nat (length (bs_params s))) # map WriteBytes (bs_params s)))
      (enc_list enc_short_len enc_bytes (bs_params s))"
    using assms by (intro appends_counted io_bytes.appends_enc) (simp add: wf_statement_def wf_list_def)
  then show ?thesis
    unfolding Write_batch_statement_def enc_batch_statement_def append.simps
    by (intro appends_writes_Cons int_appends appends_batch_text assms)
qed

lemma appends_body:
  assumes "wf_body b"
  shows "appends (SerializeBody b) (enc_body b)"
proof (cases b)
  case OptionsMessage
  then show ?thesis by (simp add: appends_def)
next
  case (StartupMessage opts)
  with assms io_string_map.appends_enc show ?thesis by (simp add: appends_def)
next
  case (QueryMessage level q ps)
  have "appends (writes [WriteLongString q, WriteShort (Consistency_value level),
      WriteByte (query_flags ps), Write_query_params ps]) (enc_body b)"
    unfolding QueryMessage enc_body.simps
    using assms QueryMessage by (intro appends_intros int_appends io_long_string.appends_enc appends_query_params) simp_all
  then show ?thesis by (simp add: QueryMessage appends_def)
next
  case (PrepareMessage q)
  with assms io_long_string.appends_enc show ?thesis by (simp add: appends_def)
next
  case (ExecuteMessage level i ps)
  have "appends (writes [WriteShortBytes i, WriteShort (Consistency_value level),
      WriteByte (query_flags ps), Write_query_params ps]) (enc_body b)"
    unfolding ExecuteMessage enc_body.simps
    using assms ExecuteMessage by (intro appends_intros int_appends io_short_bytes.appends_enc appends_query_params) simp_all
  then show ?thesis by (simp add: ExecuteMessage appends_def)
next
  case (BatchMessage qs level)
  have "appends (writes (map Write_batch_statement qs @ [WriteShort (Consistency_value level), WriteByte 0]))
      (concat (map enc_batch_statement qs) @ enc_int (Consistency_value level) @ enc_int (0 :: byte))"
    using assms BatchMessage
    by (intro appends_writes_append appends_writes_map appends_batch_statement appends_intros int_appends)
       (simp add: wf_list_def)
  then have "appends (writes ([WriteByte 0, WriteShort (word_of_nat (length qs))]
      @ map Write_batch_statement qs @ [WriteShort (Consistency_value level), WriteByte 0])) (enc_body b)"
    unfolding BatchMessage enc_body.simps enc_list_def append.simps append_assoc
    by (intro appends_writes_Cons int_appends len_appends)
  then show ?thesis by (simp add: BatchMessage appends_def)
qed

section \<open>The server's view of a body\<close>

text \<open>
  A reader of request bodies as the protocol describes them: the inverse a server applies. It is
  written from the grammar of the protocol, not from the serializers above.
\<close>

definition Consistencies :: "Consistency list" where
  "Consistencies = [kAny, kOne, kTwo, kThree, kQuorum, kAll, kLocalQuorum, kEachQuorum, kSerial,
     kLocalSerial, kLocalOne]"

definition read_consistency :: "Consistency rd" where
  "read_consistency = rbind ReadShort (\<lambda>w.
     case find (\<lambda>c. Consistency_value c = w) Consistencies of
       None \<Rightarrow> rfail (Throw (std_runtime_error ''consistency''))
     | Some c \<Rightarrow> rret c)"

definition read_values :: "QueryParameters rd" where
  "read_values = rbind ReadShort (\<lambda>n. rrepeat (unat n) ReadBytes)"

definition read_query_params :: "(Consistency \<times> QueryParameters) rd" where
  "read_query_params = rbind read_consistency (\<lambda>level. rbind ReadByte (\<lambda>flags.
     if bit flags 0 then rbind read_values (\<lambda>vs. rret (level, vs)) else rret (level, [])))"

definition read_batch_statement :: "BatchStatement rd" where
  "read_batch_statement = rbind ReadByte (\<lambda>kind.
     if kind = 0 then rbind ReadLongString (\<lambda>q. rbind read_values (\<lambda>vs. rret (BatchStatement_of_string q vs)))
     else if kind = 1 then rbind ReadShortBytes (\<lambda>i. rbind read_values (\<lambda>vs. rret (BatchStatement_of_id i vs)))
     else rfail (Throw (std_runtime_error ''batch kind'')))"

definition read_request_body :: "Opcode \<Rightarrow> RequestBody rd" where
  "read_request_body op =
     (case op of
        kOptions \<Rightarrow> rret OptionsMessage
      | kStartup \<Rightarrow> rbind ReadStringMap (\<lambda>m. rret (StartupMessage m))
      | kQuery \<Rightarrow> rbind ReadLongString (\<lambda>q. rbind read_query_params (\<lambda>(level, vs). rret (QueryMessage level q vs)))
      | kPrepare \<Rightarrow> rbind ReadLongString (\<lambda>q. rret (PrepareMessage q))
      | kExecute \<Rightarrow> rbind ReadShortBytes (\<lambda>i. rbind read_query_params (\<lambda>(level, vs). rret (ExecuteMessage level i vs)))
      | kBatch \<Rightarrow> rbind ReadByte (\<lambda>type. rbind ReadShort (\<lambda>n. rbind (rrepeat (unat n) read_batch_statement) (\<lambda>qs.
          rbind read_consistency (\<lambda>level. rbind ReadByte (\<lambda>flags. rret (BatchMessage qs level))))))
      | _ \<Rightarrow> rfail (Throw (std_runtime_error ''opcode'')))"

lemma find_Consistency [simp]: "find (\<lambda>c. c = l) Consistencies = Some l"
  by (cases l) (simp_all add: Consistencies_def)

lemma decodes_consistency: "decodes read_consistency (enc_int (Consistency_value l)) l"
  unfolding read_consistency_def
  using decodes_rbind [OF int_decodes(2), of "\<lambda>w. case find (\<lambda>c. Consistency_value c = w) Consistencies of
       None \<Rightarrow> rfail (Throw (std_runtime_error ''consistency'')) | Some c \<Rightarrow> rret c" "Consistency_value l" "[]" l]
  by (simp add: decodes_rret del: rret_apply rfail_apply)

lemma decodes_values: "wf_params ps \<Longrightarrow> decodes read_values (enc_list enc_short_len enc_bytes ps) ps"
  unfolding read_values_def enc_list_def
  by (intro decodes_rbind [OF len_decodes(1)] decodes_counted io_bytes.decodes_enc) (auto simp: wf_list_def)

lemma query_flags_values: "bit (query_flags ps) 0 \<longleftrightarrow> ps \<noteq> []"
  by (simp add: query_flags_def kSkipMetadata_def)

lemma decodes_query_params:
  assumes "wf_params ps"
  shows "decodes read_query_params
    (enc_int (Consistency_value l) @ enc_int (query_flags ps) @ enc_query_params ps) (l, ps)"
  unfolding read_query_params_def
  by (intro decodes_rbind [OF decodes_consistency] decodes_rbind [OF int_decodes(1)])
     (auto simp: query_flags_values enc_query_params_def decodes_rret simp del: rret_apply
        intro: decodes_rbind_last [OF decodes_values [OF assms]])

lemma decodes_batch_statement:
  assumes "wf_statement s"
  shows "decodes read_batch_statement (enc_batch_statement s) s"
proof -
  obtain k q ps where s: "s = \<lparr>bs_kind = k, bs_query = q, bs_params = ps\<rparr>" by (cases s)
  have ps: "wf_params ps" using assms s by (simp add: wf_statement_def)
  consider t where "k = kString" "q = LongStringText t" "wf_long_string t"
    | i where "k = kId" "q = ShortBytesId i" "wf_string i"
    using assms s by (cases k; cases q) (auto simp: wf_statement_def)
  then show ?thesis
  proof cases
    case (1 t)
    have "decodes (rbind ReadLongString (\<lambda>q. rbind read_values (\<lambda>vs. rret (BatchStatement_of_string q vs))))
        (enc_long_string t @ enc_list enc_short_len enc_bytes ps) (BatchStatement_of_string t ps)"
      by (intro decodes_rbind [OF io_long_string.decodes_enc [OF 1(3)]] decodes_rbind_last decodes_values ps)
    then show ?thesis
      unfolding read_batch_statement_def enc_batch_statement_def s 1
      by (intro decodes_rbind [OF int_decodes(1)]) (simp add: BatchStatement_of_string_def del: rret_apply)
  next
    case (2 i)
    have "decodes (rbind ReadShortBytes (\<lambda>q. rbind read_values (\<lambda>vs. rret (BatchStatement_of_id q vs))))
        (enc_short_bytes i @ enc_list enc_short_len enc_bytes ps) (BatchStatement_of_id i ps)"
      by (intro decodes_rbind [OF io_short_bytes.decodes_enc [OF 2(3)]] decodes_rbind_last decodes_values ps)
    then show ?thesis
      unfolding read_batch_statement_def enc_batch_statement_def s 2
      by (intro decodes_rbind [OF int_decodes(1)]) (simp add: BatchStatement_of_id_def del: rret_apply)
  qed
qed

lemma decodes_body:
  assumes "wf_body b"
  shows "decodes (read_request_body (RequestBody_opcode b)) (enc_body b) b"
proof (cases b)
  case OptionsMessage
  then show ?thesis by (simp add: read_request_body_def decodes_rret del: rret_apply)
next
  case (StartupMessage opts)
  with assms show ?thesis
    by (simp add: read_request_body_def decodes_rbind_last io_string_map.decodes_enc del: rret_apply)
next
  case (QueryMessage level q ps)
  with assms show ?thesis
    using decodes_rbind_last [OF decodes_query_params, of ps "\<lambda>(level, vs). QueryMessage level q vs" level]
    by (auto simp: read_request_body_def case_prod_unfold simp del: rret_apply
        intro!: decodes_rbind [OF io_long_string.decodes_enc])
next
  case (PrepareMessage q)
  with assms show ?thesis
    by (simp add: read_request_body_def decodes_rbind_last io_long_string.decodes_enc del: rret_apply)
next
  case (ExecuteMessage level i ps)
  with assms show ?thesis
    using decodes_rbind_last [OF decodes_query_params, of ps "\<lambda>(level, vs). ExecuteMessage level i vs" level]
    by (auto simp: read_request_body_def case_prod_unfold simp del: rret_apply
        intro!: decodes_rbind [OF io_short_bytes.decodes_enc])
next
  case (BatchMessage qs level)
  have "decodes (rrepeat (unat (word_of_nat (length qs) :: 16 word)) read_batch_statement)
      (concat (map enc_batch_statement qs)) qs"
    using assms BatchMessage by (intro decodes_counted decodes_batch_statement) (simp_all add: wf_list_def)
  with BatchMessage show ?thesis
    by (auto simp: read_request_body_def enc_list_def simp del: rret_apply
        intro!: decodes_rbind [OF int_decodes(1)] decodes_rbind [OF len_decodes(1)] decodes_rbind
          decodes_consistency decodes_rbind_last)
qed

interpretation wire_body: decoder "read_request_body op" enc_body "\<lambda>b. wf_body b \<and> RequestBody_opcode b = op" for op
  by unfold_locales (use decodes_body in \<open>auto simp: decodes_def\<close>)

section \<open>Frames as the serializer builds them\<close>

lemma Serialize_length_enc:
  assumes "length body < 2 ^ 31" "hdr_length h = 0"
  shows "Serialize_length (enc_header h @ body)
    = Inr (enc_header (h\<lparr>hdr_length := word_of_nat (length body)\<rparr>) @ body)"
proof (cases "body = []")
  case True
  with assms(2) show ?thesis by (cases h) (simp add: Serialize_length_def)
next
  case False
  have "int (length (enc_header h @ body)) - int kHeaderSize = int (length body)" by simp
  with False assms(1) show ?thesis
    by (simp add: Serialize_length_def Let_def sint_int_of_nat FrameHeader_UpdateLength_enc)
qed

lemma Serialize_uncompressed:
  assumes "wf_body b" "length (enc_body b) < 2 ^ 31" "hdr_length h = 0"
  shows "RequestMessage_Serialize None \<lparr>req_header = h, req_body = b\<rparr> [] =
    Inr (\<lparr>req_header = h, req_body = b\<rparr>,
      enc_header (h\<lparr>hdr_length := word_of_nat (length (enc_body b))\<rparr>) @ enc_body b)"
proof -
  have "FrameHeader_Serialize h [] = Inr (enc_header h)"
    using appends_header [of h] by (simp add: appends_def buffer_ok_def)
  moreover have "SerializeBody b (enc_header h) = Inr (enc_header h @ enc_body b)"
    using appends_body [OF assms(1)] assms(2) by (simp add: appends_def buffer_ok_def)
  ultimately show ?thesis
    using Serialize_length_enc [OF assms(2,3)] by (simp add: RequestMessage_Serialize_def)
qed

lemma Serialize_compressed:
  assumes L: "lz4_contract L" and b: "wf_body b" "length (enc_body b) \<le> LZ4_MAX_INPUT_SIZE"
    and h: "hdr_length h = 0"
  obtains payload where
    "RequestMessage_Serialize (Some L) \<lparr>req_header = h, req_body = b\<rparr> [] =
      Inr (\<lparr>req_header = h\<lparr>hdr_flags := hdr_flags h OR kCompression\<rparr>, req_body = b\<rparr>,
        enc_header (h\<lparr>hdr_flags := hdr_flags h OR kCompression, hdr_length := word_of_nat (length payload)\<rparr>) @ payload)"
    "length payload < 2 ^ 31" "Lz4Compressor_Decompress L payload = Inr (enc_body b)"
proof -
  let ?h = "h\<lparr>hdr_flags := hdr_flags h OR kCompression\<rparr>" and ?n = "length (enc_body b)"
  from Compress_eq [OF L b(2), of "enc_header ?h"] obtain block where c:
    "Lz4Compressor_Compress L (enc_body b) (enc_header ?h) =
       Inr (word_of_nat ?n, enc_header ?h @ enc_int_len ?n @ block)"
    "length block \<le> ?n + ?n div 255 + 16"
    "LZ4_decompress_safe L block (int (length block)) (int ?n) = (int ?n, enc_body b)" by auto
  have len: "length block < 2 ^ 31 - 4" "?n < 2 ^ 31"
  proof -
    have "?n div 255 \<le> 8290000" using b(2) by simp
    with c(2) b(2) show "length block < 2 ^ 31 - 4" "?n < 2 ^ 31" by simp_all
  qed
  define payload where "payload = enc_int_len ?n @ block"
  have p: "length payload < 2 ^ 31" using len by (simp add: payload_def enc_int_len_def)
  have "FrameHeader_Serialize ?h [] = Inr (enc_header ?h)"
    using appends_header [of ?h] by (simp add: appends_def buffer_ok_def)
  moreover have "SerializeBody b [] = Inr (enc_body b)"
    using appends_body [OF b(1)] len by (simp add: appends_def buffer_ok_def)
  moreover have "Serialize_length (enc_header ?h @ payload) = Inr (enc_header (?h\<lparr>hdr_length := word_of_nat (length payload)\<rparr>) @ payload)"
    using Serialize_length_enc [OF p, of ?h] h by simp
  ultimately have "RequestMessage_Serialize (Some L) \<lparr>req_header = h, req_body = b\<rparr> [] =
      Inr (\<lparr>req_header = ?h, req_body = b\<rparr>, enc_header (?h\<lparr>hdr_length := word_of_nat (length payload)\<rparr>) @ payload)"
    using c(1) by (simp add: RequestMessage_Serialize_def Let_def payload_def)
  moreover have "Lz4Compressor_Decompress L payload = Inr (enc_body b)"
    unfolding payload_def using Decompress_eq [OF c(3)] len by simp
  ultimately show ?thesis using that p by simp
qed

section \<open>Properties of requests\<close>

text \<open>C1: An uncompressed request with any stream number is one frame that a server reads back: the
  header parses to the message's own header with the length field set to the size of the body, and
  the body of the frame, read as the protocol describes it for the opcode in the header, is the
  message that was serialized, with nothing left over.\<close>

theorem request_roundtrip:
  assumes "wf_body b" "length (enc_body b) < 2 ^ 31"
    and "h = Message_SetStreamId i (req_header (mk_RequestMessage b))"
  shows "\<exists>frame. RequestMessage_Serialize None ((mk_RequestMessage b)\<lparr>req_header := h\<rparr>) [] =
      Inr ((mk_RequestMessage b)\<lparr>req_header := h\<rparr>, frame) \<and>
    FrameHeader_Parse frame = Inr (h\<lparr>hdr_length := word_of_nat (length frame - kHeaderSize)\<rparr>) \<and>
    Opcode_of (hdr_opcode h) = Some (RequestBody_opcode b) \<and>
    read_request_body (RequestBody_opcode b) frame kHeaderSize = Inr (b, length frame)"
proof -
  let ?n = "word_of_nat (length (enc_body b)) :: 32 word"
  have h: "hdr_length h = 0" "hdr_opcode h = Opcode_value (RequestBody_opcode b)"
    using assms(3) by (simp_all add: Message_SetStreamId_def mk_RequestMessage_def FrameHeader_init_def)
  have "RequestMessage_Serialize None ((mk_RequestMessage b)\<lparr>req_header := h\<rparr>) [] =
      Inr ((mk_RequestMessage b)\<lparr>req_header := h\<rparr>, enc_header (h\<lparr>hdr_length := ?n\<rparr>) @ enc_body b)"
    using Serialize_uncompressed [OF assms(1,2) h(1)] by (simp add: mk_RequestMessage_def)
  moreover have "FrameHeader_Parse (enc_header (h\<lparr>hdr_length := ?n\<rparr>) @ enc_body b) = Inr (h\<lparr>hdr_length := ?n\<rparr>)"
    using assms(2) by (intro FrameHeader_Parse_enc) simp
  moreover have "read_request_body (RequestBody_opcode b) (enc_header (h\<lparr>hdr_length := ?n\<rparr>) @ enc_body b) kHeaderSize
      = Inr (b, length (enc_header (h\<lparr>hdr_length := ?n\<rparr>) @ enc_body b))"
    using wire_body.read_enc [of b "RequestBody_opcode b" "enc_header (h\<lparr>hdr_length := ?n\<rparr>)" "[]"] assms(1,2)
    by (simp add: buffer_ok_def)
  ultimately show ?thesis using h(2) by simp
qed

theorem request_roundtrip_witness:
  "\<exists>frame. RequestMessage_Serialize None ((mk_RequestMessage (QueryMessage kQuorum (str ''SELECT'') [[1], []]))
        \<lparr>req_header := Message_SetStreamId 5 (req_header (mk_RequestMessage (QueryMessage kQuorum (str ''SELECT'') [[1], []])))\<rparr>) [] =
      Inr ((mk_RequestMessage (QueryMessage kQuorum (str ''SELECT'') [[1], []]))
        \<lparr>req_header := Message_SetStreamId 5 (req_header (mk_RequestMessage (QueryMessage kQuorum (str ''SELECT'') [[1], []])))\<rparr>, frame) \<and>
    FrameHeader_Parse frame = Inr ((Message_SetStreamId 5 (req_header (mk_RequestMessage (QueryMessage kQuorum (str ''SELECT'') [[1], []]))))
      \<lparr>hdr_length := word_of_nat (length frame - kHeaderSize)\<rparr>) \<and>
    Opcode_of (hdr_opcode (Message_SetStreamId 5 (req_header (mk_RequestMessage (QueryMessage kQuorum (str ''SELECT'') [[1], []]))))) =
      Some (RequestBody_opcode (QueryMessage kQuorum (str ''SELECT'') [[1], []])) \<and>
    read_request_body (RequestBody_opcode (QueryMessage kQuorum (str ''SELECT'') [[1], []])) frame kHeaderSize =
      Inr (QueryMessage kQuorum (str ''SELECT'') [[1], []], length frame)"
  by (rule request_roundtrip [OF _ _ refl])
     (simp_all add: wf_list_def wf_long_string_def enc_query_params_def enc_list_def enc_long_string_def
       enc_short_len_def enc_int_len_def)

text \<open>C16: With a compressor, the frame of a request has the compression flag in its header and in the
  message, its length field is the size of the compressed payload, and decompressing the payload and
  reading it as the protocol describes gives the message back.\<close>

theorem compressed_request_roundtrip:
  assumes "lz4_contract L" "wf_body b" "length (enc_body b) \<le> LZ4_MAX_INPUT_SIZE"
  shows "\<exists>m frame body. RequestMessage_Serialize (Some L) (mk_RequestMessage b) [] = Inr (m, frame) \<and>
    hdr_flags (req_header m) AND kCompression = kCompression \<and>
    FrameHeader_Parse frame = Inr ((req_header m)\<lparr>hdr_length := word_of_nat (length frame - kHeaderSize)\<rparr>) \<and>
    Lz4Compressor_Decompress L (drop kHeaderSize frame) = Inr body \<and>
    read_request_body (RequestBody_opcode b) body 0 = Inr (b, length body)"
proof -
  let ?h = "FrameHeader_init (RequestBody_opcode b)"
  have "hdr_length ?h = 0" by (simp add: FrameHeader_init_def)
  from Serialize_compressed [OF assms this] obtain payload where p:
    "RequestMessage_Serialize (Some L) \<lparr>req_header = ?h, req_body = b\<rparr> [] =
      Inr (\<lparr>req_header = ?h\<lparr>hdr_flags := hdr_flags ?h OR kCompression\<rparr>, req_body = b\<rparr>,
        enc_header (?h\<lparr>hdr_flags := hdr_flags ?h OR kCompression, hdr_length := word_of_nat (length payload)\<rparr>) @ payload)"
    "length payload < 2 ^ 31" "Lz4Compressor_Decompress L payload = Inr (enc_body b)" .
  have "read_request_body (RequestBody_opcode b) (enc_body b) 0 = Inr (b, length (enc_body b))"
    using wire_body.read_enc [of b "RequestBody_opcode b" "[]" "[]"] assms(2,3) by (simp add: buffer_ok_def)
  then show ?thesis
    using p by (simp add: mk_RequestMessage_def FrameHeader_Parse_enc FrameHeader_init_def kCompression_def)
qed

theorem compressed_request_roundtrip_witness:
  "\<exists>m frame body. RequestMessage_Serialize (Some stored_lz4) (mk_RequestMessage (PrepareMessage (str ''SELECT''))) [] = Inr (m, frame) \<and>
    hdr_flags (req_header m) AND kCompression = kCompression \<and>
    FrameHeader_Parse frame = Inr ((req_header m)\<lparr>hdr_length := word_of_nat (length frame - kHeaderSize)\<rparr>) \<and>
    Lz4Compressor_Decompress stored_lz4 (drop kHeaderSize frame) = Inr body \<and>
    read_request_body (RequestBody_opcode (PrepareMessage (str ''SELECT''))) body 0 = Inr (PrepareMessage (str ''SELECT''), length body)"
  by (rule compressed_request_roundtrip [OF stored_lz4_contract])
     (simp_all add: wf_long_string_def enc_long_string_def enc_int_len_def)

end
