(* ===== verification/Cql_Column_Option.thy ===== *)
theory Cql_Column_Option
  imports Cql_Frame
begin

text \<open>
  Column types in result metadata (\<open>src/io/protocol/column_option.hpp\<close>, \<open>column_option.cpp\<close>) and
  schema change events (\<open>src/io/protocol/events/schema_change.hpp\<close>, \<open>schema_change.cpp\<close>).

  \<open>ColumnOption::Parse\<close> calls itself through the payload classes. The model spends one unit of fuel
  per nesting level; every level reads two bytes first, so the number of bytes left is enough fuel.
\<close>

section \<open>Column types\<close>

datatype ColumnType =
    kCustom | kAscii | kBigInt | kBlob | kBoolean | kCounter | kDecimal | kDouble | kFloat | kInt
  | kTimestamp | kUUID | kVarChar | kVarInt | kTimeUUID | kInet | kDate | kTime | kSmallInt
  | kTinyInt | kList | kMap | kSet | kUDT | kTuple

fun ColumnType_value :: "ColumnType \<Rightarrow> 16 word" where
  "ColumnType_value kCustom = 0x0000"
| "ColumnType_value kAscii = 0x0001"
| "ColumnType_value kBigInt = 0x0002"
| "ColumnType_value kBlob = 0x0003"
| "ColumnType_value kBoolean = 0x0004"
| "ColumnType_value kCounter = 0x0005"
| "ColumnType_value kDecimal = 0x0006"
| "ColumnType_value kDouble = 0x0007"
| "ColumnType_value kFloat = 0x0008"
| "ColumnType_value kInt = 0x0009"
| "ColumnType_value kTimestamp = 0x000B"
| "ColumnType_value kUUID = 0x000C"
| "ColumnType_value kVarChar = 0x000D"
| "ColumnType_value kVarInt = 0x000E"
| "ColumnType_value kTimeUUID = 0x000F"
| "ColumnType_value kInet = 0x0010"
| "ColumnType_value kDate = 0x0011"
| "ColumnType_value kTime = 0x0012"
| "ColumnType_value kSmallInt = 0x0013"
| "ColumnType_value kTinyInt = 0x0014"
| "ColumnType_value kList = 0x0020"
| "ColumnType_value kMap = 0x0021"
| "ColumnType_value kSet = 0x0022"
| "ColumnType_value kUDT = 0x0030"
| "ColumnType_value kTuple = 0x0031"

definition ColumnTypes :: "ColumnType list" where
  "ColumnTypes =
    [kCustom, kAscii, kBigInt, kBlob, kBoolean, kCounter, kDecimal, kDouble, kFloat, kInt,
     kTimestamp, kUUID, kVarChar, kVarInt, kTimeUUID, kInet, kDate, kTime, kSmallInt, kTinyInt,
     kList, kMap, kSet, kUDT, kTuple]"

definition ColumnType_of :: "16 word \<Rightarrow> ColumnType option" where
  "ColumnType_of w = find (\<lambda>c. ColumnType_value c = w) ColumnTypes"

text \<open>A column option keeps the type code and owns the payload, if the type has one.\<close>

datatype ColumnOption = ColumnOption (column_type: "16 word") (column_payload: "ColumnPayload option")
  and ColumnPayload =
    CustomPayload RawBuffer
  | ListPayload ColumnOption
  | SetPayload ColumnOption
  | MapPayload ColumnOption ColumnOption
  | TuplePayload "ColumnOption list"
  | UdtPayload RawBuffer RawBuffer "(RawBuffer \<times> ColumnOption) list"

section \<open>Parsing\<close>

text \<open>The \<open>Parse\<close> methods of the payload classes, given the one of \<open>ColumnOption\<close>.\<close>

definition CustomPayload_Parse :: "ColumnPayload rd" where
  "CustomPayload_Parse = rbind ReadString (\<lambda>value. rret (CustomPayload value))"

definition ListPayload_Parse :: "ColumnOption rd \<Rightarrow> ColumnPayload rd" where
  "ListPayload_Parse Parse = rbind Parse (\<lambda>element_type. rret (ListPayload element_type))"

definition SetPayload_Parse :: "ColumnOption rd \<Rightarrow> ColumnPayload rd" where
  "SetPayload_Parse Parse = rbind Parse (\<lambda>element_type. rret (SetPayload element_type))"

definition MapPayload_Parse :: "ColumnOption rd \<Rightarrow> ColumnPayload rd" where
  "MapPayload_Parse Parse =
     rbind Parse (\<lambda>key_type. rbind Parse (\<lambda>value_type. rret (MapPayload key_type value_type)))"

definition TuplePayload_Parse :: "ColumnOption rd \<Rightarrow> ColumnPayload rd" where
  "TuplePayload_Parse Parse =
     rbind ReadShort (\<lambda>count. rbind (rrepeat (unat count) Parse) (\<lambda>elements. rret (TuplePayload elements)))"

definition UdtField_Parse :: "ColumnOption rd \<Rightarrow> (RawBuffer \<times> ColumnOption) rd" where
  "UdtField_Parse Parse = rbind ReadString (\<lambda>name. rbind Parse (\<lambda>type. rret (name, type)))"

definition UdtPayload_Parse :: "ColumnOption rd \<Rightarrow> ColumnPayload rd" where
  "UdtPayload_Parse Parse =
     rbind ReadString (\<lambda>keyspace. rbind ReadString (\<lambda>udt_name. rbind ReadShort (\<lambda>count.
       rbind (rrepeat (unat count) (UdtField_Parse Parse)) (\<lambda>fields.
         rret (UdtPayload keyspace udt_name fields)))))"

definition ColumnPayload_Parse :: "ColumnOption rd \<Rightarrow> 16 word \<Rightarrow> ColumnPayload rd option" where
  "ColumnPayload_Parse Parse t =
     (case ColumnType_of t of
        Some kCustom \<Rightarrow> Some CustomPayload_Parse
      | Some kList \<Rightarrow> Some (ListPayload_Parse Parse)
      | Some kMap \<Rightarrow> Some (MapPayload_Parse Parse)
      | Some kSet \<Rightarrow> Some (SetPayload_Parse Parse)
      | Some kUDT \<Rightarrow> Some (UdtPayload_Parse Parse)
      | Some kTuple \<Rightarrow> Some (TuplePayload_Parse Parse)
      | _ \<Rightarrow> None)"

primrec ColumnOption_Parse_fuel :: "nat \<Rightarrow> ColumnOption rd" where
  "ColumnOption_Parse_fuel 0 = rfail OutOfFuel"
| "ColumnOption_Parse_fuel (Suc n) =
     rbind ReadShort (\<lambda>type.
       case ColumnPayload_Parse (ColumnOption_Parse_fuel n) type of
         None \<Rightarrow> rret (ColumnOption type None)
       | Some Parse \<Rightarrow> rbind Parse (\<lambda>value. rret (ColumnOption type (Some value))))"

definition ColumnOption_Parse :: "ColumnOption rd" where
  "ColumnOption_Parse data off = ColumnOption_Parse_fuel (Suc (length data - off)) data off"

section \<open>Schema change events\<close>

datatype TargetOptions =
    Keyspace RawBuffer
  | Table RawBuffer RawBuffer
  | Function RawBuffer RawBuffer "RawBuffer list"

record SchemaChange =
  change_type :: RawBuffer
  change_target :: RawBuffer
  target_options :: TargetOptions

definition SchemaChange_Parse :: "SchemaChange rd" where
  "SchemaChange_Parse =
     rbind ReadString (\<lambda>ctype. rbind ReadString (\<lambda>target.
       let change = \<lambda>opts. \<lparr>change_type = ctype, change_target = target, target_options = opts\<rparr> in
       if target = str ''KEYSPACE'' then
         rbind ReadString (\<lambda>value. rret (change (Keyspace value)))
       else if target = str ''TABLE'' \<or> target = str ''TYPE'' then
         rbind ReadString (\<lambda>keyspace. rbind ReadString (\<lambda>target_name.
           rret (change (Table keyspace target_name))))
       else if ctype = str ''FUNCTION'' \<or> target = str ''AGGREGATE'' then
         rbind ReadString (\<lambda>keyspace. rbind ReadString (\<lambda>function_name. rbind ReadStringList (\<lambda>args.
           rret (change (Function keyspace function_name args)))))
       else rret (change (Keyspace []))))"

section \<open>The wire format\<close>

fun enc_option :: "ColumnOption \<Rightarrow> RawBuffer"
  and enc_payload :: "ColumnPayload \<Rightarrow> RawBuffer" where
  "enc_option (ColumnOption t None) = enc_int t"
| "enc_option (ColumnOption t (Some p)) = enc_int t @ enc_payload p"
| "enc_payload (CustomPayload s) = enc_string s"
| "enc_payload (ListPayload e) = enc_option e"
| "enc_payload (SetPayload e) = enc_option e"
| "enc_payload (MapPayload k v) = enc_option k @ enc_option v"
| "enc_payload (TuplePayload es) = enc_short_len (length es) @ concat (map enc_option es)"
| "enc_payload (UdtPayload ks name fs) =
     enc_string ks @ enc_string name @ enc_short_len (length fs)
     @ concat (map (\<lambda>(f, t). enc_string f @ enc_option t) fs)"

definition payload_matches :: "16 word \<Rightarrow> ColumnPayload option \<Rightarrow> bool" where
  "payload_matches t p \<longleftrightarrow>
     (case (ColumnType_of t, p) of
        (Some kCustom, q) \<Rightarrow> (\<exists>s. q = Some (CustomPayload s))
      | (Some kList, q) \<Rightarrow> (\<exists>e. q = Some (ListPayload e))
      | (Some kMap, q) \<Rightarrow> (\<exists>k v. q = Some (MapPayload k v))
      | (Some kSet, q) \<Rightarrow> (\<exists>e. q = Some (SetPayload e))
      | (Some kUDT, q) \<Rightarrow> (\<exists>k n fs. q = Some (UdtPayload k n fs))
      | (Some kTuple, q) \<Rightarrow> (\<exists>es. q = Some (TuplePayload es))
      | (_, q) \<Rightarrow> q = None)"

fun wf_option :: "ColumnOption \<Rightarrow> bool"
  and wf_payload :: "ColumnPayload \<Rightarrow> bool" where
  "wf_option (ColumnOption t None) = payload_matches t None"
| "wf_option (ColumnOption t (Some p)) = (payload_matches t (Some p) \<and> wf_payload p)"
| "wf_payload (CustomPayload s) = wf_string s"
| "wf_payload (ListPayload e) = wf_option e"
| "wf_payload (SetPayload e) = wf_option e"
| "wf_payload (MapPayload k v) = (wf_option k \<and> wf_option v)"
| "wf_payload (TuplePayload es) = (length es < 2 ^ 16 \<and> (\<forall>e \<in> set es. wf_option e))"
| "wf_payload (UdtPayload ks name fs) =
     (wf_string ks \<and> wf_string name \<and> length fs < 2 ^ 16 \<and>
      (\<forall>(f, t) \<in> set fs. wf_string f \<and> wf_option t))"

section \<open>Fuel\<close>

text \<open>
  \<open>fuelled n p\<close>: with fewer than \<open>n\<close> bytes left, \<open>p\<close> does not run out of fuel. The property
  composes, and each nesting level loses two bytes before it spends a unit.
\<close>

definition fuelled :: "nat \<Rightarrow> 'a rd \<Rightarrow> bool" where
  "fuelled n p \<longleftrightarrow> (\<forall>data off. buffer_ok data \<longrightarrow> off \<le> length data \<longrightarrow> length data - off < n \<longrightarrow>
     p data off \<noteq> Inl OutOfFuel)"

lemma fuelled_rret: "fuelled n (rret x)"
  by (simp add: fuelled_def)

lemma fuelled_rbind:
  assumes "fuelled n p" "bounded_reader p" "\<And>x. fuelled n (f x)"
  shows "fuelled n (rbind p f)"
  unfolding fuelled_def
proof (intro allI impI)
  fix data :: RawBuffer and off
  assume *: "buffer_ok data" "off \<le> length data" "length data - off < n"
  show "rbind p f data off \<noteq> Inl OutOfFuel"
  proof (cases "p data off")
    case (Inl e)
    with assms(1) * show ?thesis by (auto simp: fuelled_def)
  next
    case (Inr r)
    obtain x off' where r: "r = (x, off')" by (cases r)
    from bounded_reader.bounded [OF assms(2) *(2,1)] Inr r
    have "off \<le> off'" "off' \<le> length data" by auto
    with * assms(3) [of x] Inr r show ?thesis by (simp add: fuelled_def)
  qed
qed

lemma fuelled_rrepeat: "fuelled n p \<Longrightarrow> bounded_reader p \<Longrightarrow> fuelled n (rrepeat k p)"
  by (induction k) (auto intro!: fuelled_rret fuelled_rbind bounded_rrepeat simp del: rret_apply)

lemma fuelled_readers:
  "fuelled n ReadShort" "fuelled n ReadString"
proof -
  show s: "fuelled n ReadShort"
    unfolding fuelled_def
  proof (intro allI impI)
    fix data :: RawBuffer and off
    assume "buffer_ok data" "off \<le> length data"
    then show "ReadShort data off \<noteq> Inl OutOfFuel"
      by (cases "off + 2 \<le> length data") (simp_all add: ReadIntBE_in_range ReadIntBE_underread)
  qed
  show "fuelled n ReadString"
    unfolding ReadString_def StringBinaryParser_def
    by (intro fuelled_rbind s int_bounded) (simp add: fuelled_def split: option.split)
qed

lemmas fuelled_intros = fuelled_rret fuelled_rbind fuelled_rrepeat fuelled_readers
lemmas payload_defs = CustomPayload_Parse_def ListPayload_Parse_def SetPayload_Parse_def
  MapPayload_Parse_def TuplePayload_Parse_def UdtField_Parse_def UdtPayload_Parse_def

lemma payload_parsers:
  assumes "ColumnPayload_Parse p t = Some q"
  shows "bounded_reader p \<Longrightarrow> bounded_reader q"
    and "fuelled n p \<Longrightarrow> bounded_reader p \<Longrightarrow> fuelled n q"
  using assms unfolding ColumnPayload_Parse_def payload_defs
  by (auto split: option.splits ColumnType.splits simp del: rret_apply
      intro!: bounded_intros int_bounded container_bounded fuelled_intros)

lemma bounded_option_fuel: "bounded_reader (ColumnOption_Parse_fuel n)"
proof (induction n)
  case 0
  show ?case by (simp add: bounded_rfail del: rfail_apply)
next
  case (Suc n)
  then show ?case
    by (auto intro!: bounded_intros int_bounded payload_parsers(1) split: option.split simp del: rret_apply)
qed

lemma fuelled_option_fuel: "fuelled n (ColumnOption_Parse_fuel n)"
proof (induction n)
  case 0
  show ?case by (simp add: fuelled_def)
next
  case (Suc n)
  let ?k = "\<lambda>type. case ColumnPayload_Parse (ColumnOption_Parse_fuel n) type of
         None \<Rightarrow> rret (ColumnOption type None)
       | Some Parse \<Rightarrow> rbind Parse (\<lambda>value. rret (ColumnOption type (Some value)))"
  have k: "fuelled n (?k t)" for t
    using Suc bounded_option_fuel
    by (auto split: option.split intro!: fuelled_intros payload_parsers simp del: rret_apply)
  show ?case
    unfolding fuelled_def
  proof (intro allI impI)
    fix data :: RawBuffer and off
    assume *: "buffer_ok data" "off \<le> length data" "length data - off < Suc n"
    show "ColumnOption_Parse_fuel (Suc n) data off \<noteq> Inl OutOfFuel"
    proof (cases "off + 2 \<le> length data")
      case True
      with * k show ?thesis by (simp add: rbind_def ReadIntBE_in_range fuelled_def)
    next
      case False
      with * show ?thesis by (simp add: rbind_def ReadIntBE_underread)
    qed
  qed
qed

lemma bounded_ColumnOption_Parse: "bounded_reader ColumnOption_Parse"
  using bounded_option_fuel by unfold_locales (metis ColumnOption_Parse_def bounded_reader.bounded)

section \<open>The parser inverts the wire format\<close>

text \<open>The parser that the type of a payload selects, and the options directly inside a payload.\<close>

fun payload_parser :: "ColumnOption rd \<Rightarrow> ColumnPayload \<Rightarrow> ColumnPayload rd" where
  "payload_parser p (CustomPayload s) = CustomPayload_Parse"
| "payload_parser p (ListPayload e) = ListPayload_Parse p"
| "payload_parser p (SetPayload e) = SetPayload_Parse p"
| "payload_parser p (MapPayload k v) = MapPayload_Parse p"
| "payload_parser p (TuplePayload es) = TuplePayload_Parse p"
| "payload_parser p (UdtPayload ks name fs) = UdtPayload_Parse p"

fun suboptions :: "ColumnPayload \<Rightarrow> ColumnOption list" where
  "suboptions (CustomPayload s) = []"
| "suboptions (ListPayload e) = [e]"
| "suboptions (SetPayload e) = [e]"
| "suboptions (MapPayload k v) = [k, v]"
| "suboptions (TuplePayload es) = es"
| "suboptions (UdtPayload ks name fs) = map snd fs"

lemma payload_parser_selected:
  "payload_matches t (Some q) \<Longrightarrow> ColumnPayload_Parse p t = Some (payload_parser p q)"
  by (auto simp: ColumnPayload_Parse_def payload_matches_def split: option.splits ColumnType.splits)

lemma payload_none: "payload_matches t None \<Longrightarrow> ColumnPayload_Parse p t = None"
  by (auto simp: ColumnPayload_Parse_def payload_matches_def split: option.splits ColumnType.splits)

lemma suboption_wf: "wf_payload q \<Longrightarrow> e \<in> set (suboptions q) \<Longrightarrow> wf_option e"
  by (cases q) auto

lemma suboption_length: "e \<in> set (suboptions q) \<Longrightarrow> length (enc_option e) \<le> length (enc_payload q)"
  by (cases q) (auto dest!: split_list)

lemma decodes_udt_field:
  assumes "wf_string f" "decodes p (enc_option t) t"
  shows "decodes (UdtField_Parse p) (enc_string f @ enc_option t) (f, t)"
  unfolding UdtField_Parse_def
  using assms by (intro decodes_rbind [where x = f] decodes_rbind_last io_string.decodes_enc)

lemma decodes_payload:
  assumes "wf_payload q" "\<And>e. e \<in> set (suboptions q) \<Longrightarrow> decodes p (enc_option e) e"
  shows "decodes (payload_parser p q) (enc_payload q) q"
proof (cases q)
  case (MapPayload k v)
  then show ?thesis
    using assms by (auto simp: MapPayload_Parse_def simp del: rret_apply
        intro!: decodes_rbind [where x = k] decodes_rbind_last)
next
  case (TuplePayload es)
  then show ?thesis
    using assms by (auto simp: TuplePayload_Parse_def simp del: rret_apply
        intro!: decodes_rbind [OF len_decodes(1)] decodes_rbind_last decodes_counted)
next
  case (UdtPayload ks nm fs)
  have fields: "decodes (UdtField_Parse p) (case x of (f, t) \<Rightarrow> enc_string f @ enc_option t) x"
    if "x \<in> set fs" for x
  proof (cases x)
    case (Pair f t)
    with that assms UdtPayload show ?thesis by (force intro!: decodes_udt_field)
  qed
  show ?thesis
    unfolding UdtPayload payload_parser.simps UdtPayload_Parse_def enc_payload.simps
    using assms UdtPayload fields
    by (intro decodes_rbind [where x = ks] decodes_rbind [where x = nm] decodes_rbind [OF len_decodes(1)]
        decodes_rbind_last decodes_counted io_string.decodes_enc) auto
qed (use assms in \<open>auto simp: payload_defs simp del: rret_apply
      intro!: decodes_rbind_last io_string.decodes_enc\<close>)

lemma decodes_option_fuel:
  "wf_option t \<Longrightarrow> length (enc_option t) < n \<Longrightarrow> decodes (ColumnOption_Parse_fuel n) (enc_option t) t"
proof (induction n arbitrary: t)
  case (Suc n)
  obtain c q where t: "t = ColumnOption c q" by (cases t)
  show ?case
  proof (cases q)
    case None
    with Suc.prems t show ?thesis
      by (simp add: payload_none del: rret_apply)
         (rule decodes_rbind [OF int_decodes(2), of _ _ "[]", simplified append_Nil2], simp add: payload_none decodes_rret del: rret_apply)
  next
    case (Some p)
    have "decodes (payload_parser (ColumnOption_Parse_fuel n) p) (enc_payload p) p"
    proof (rule decodes_payload)
      show "wf_payload p" using Suc.prems t Some by simp
      fix e
      assume "e \<in> set (suboptions p)"
      with Suc.prems t Some show "decodes (ColumnOption_Parse_fuel n) (enc_option e) e"
        by (intro Suc.IH) (auto dest: suboption_wf suboption_length)
    qed
    with Suc.prems t Some show ?thesis
      by (auto simp: payload_parser_selected simp del: rret_apply
          intro!: decodes_rbind [OF int_decodes(2)] decodes_rbind_last)
  qed
qed simp

lemma decodes_ColumnOption: "wf_option t \<Longrightarrow> decodes ColumnOption_Parse (enc_option t) t"
  unfolding decodes_def ColumnOption_Parse_def
  by (intro allI impI decodesD decodes_option_fuel) simp_all

section \<open>The wire format of schema changes\<close>

fun enc_target_options :: "TargetOptions \<Rightarrow> RawBuffer" where
  "enc_target_options (Keyspace v) = enc_string v"
| "enc_target_options (Table ks n) = enc_string ks @ enc_string n"
| "enc_target_options (Function ks n args) = enc_string ks @ enc_string n @ enc_string_list args"

definition enc_schema_change :: "SchemaChange \<Rightarrow> RawBuffer" where
  "enc_schema_change c = enc_string (change_type c) @ enc_string (change_target c)
     @ enc_target_options (target_options c)"

text \<open>The options the protocol sends for a target.\<close>

definition wf_schema_change :: "SchemaChange \<Rightarrow> bool" where
  "wf_schema_change c \<longleftrightarrow> wf_string (change_type c) \<and> wf_string (change_target c) \<and>
     (case target_options c of
        Keyspace v \<Rightarrow> change_target c = str ''KEYSPACE'' \<and> wf_string v
      | Table ks n \<Rightarrow> change_target c \<in> {str ''TABLE'', str ''TYPE''} \<and> wf_string ks \<and> wf_string n
      | Function ks n args \<Rightarrow> change_target c \<in> {str ''FUNCTION'', str ''AGGREGATE''} \<and>
          wf_string ks \<and> wf_string n \<and> wf_string_list args)"

lemma decodes_schema_change:
  assumes "wf_schema_change c" "change_target c \<noteq> str ''FUNCTION''"
  shows "decodes SchemaChange_Parse (enc_schema_change c) c"
proof -
  obtain ct tg opts where c: "c = \<lparr>change_type = ct, change_target = tg, target_options = opts\<rparr>"
    by (cases c)
  have w: "wf_string ct" "wf_string tg" using assms c by (auto simp: wf_schema_change_def)
  note one = decodes_rbind_last [OF io_string.decodes_enc]
  note two = decodes_rbind [OF io_string.decodes_enc one]
  note three = decodes_rbind [OF io_string.decodes_enc
      decodes_rbind [OF io_string.decodes_enc decodes_rbind_last [OF io_string_list.decodes_enc]]]
  show ?thesis
    unfolding SchemaChange_Parse_def enc_schema_change_def c SchemaChange.select_convs Let_def
    by (intro decodes_rbind [OF io_string.decodes_enc [OF w(1)]] decodes_rbind [OF io_string.decodes_enc [OF w(2)]],
        use assms c in \<open>cases opts\<close>)
       (auto simp: wf_schema_change_def simp del: rret_apply intro: one two three)
qed

section \<open>Properties of column types and schema changes\<close>

text \<open>C21: A column type of any nesting (lists, sets, maps, tuples and user types of each other) that
  the protocol can express is parsed back from its wire format, and the reader stops at its end.\<close>

theorem column_option_roundtrip:
  assumes "wf_option t" "length pre + length (enc_option t) + length post < 2 ^ 63"
  shows "ColumnOption_Parse (pre @ enc_option t @ post) (length pre) = Inr (t, length pre + length (enc_option t))"
  using decodesD [OF decodes_ColumnOption [OF assms(1)], of pre post] assms(2) by (simp add: buffer_ok_def)

theorem column_option_roundtrip_witness:
  "ColumnOption_Parse ([7] @ enc_option (ColumnOption 0x21 (Some (MapPayload (ColumnOption 0x0D None)
      (ColumnOption 0x20 (Some (ListPayload (ColumnOption 9 None)))))) ) @ [8]) (length [7 :: byte]) =
   Inr (ColumnOption 0x21 (Some (MapPayload (ColumnOption 0x0D None)
      (ColumnOption 0x20 (Some (ListPayload (ColumnOption 9 None)))))),
      length [7 :: byte] + length (enc_option (ColumnOption 0x21 (Some (MapPayload (ColumnOption 0x0D None)
        (ColumnOption 0x20 (Some (ListPayload (ColumnOption 9 None)))))))))"
  by (rule column_option_roundtrip) (simp_all add: payload_matches_def ColumnType_of_def ColumnTypes_def)

text \<open>C22: The recursive parser of column types returns on every input: its nesting depth is bounded by
  the bytes left, so it never runs out of fuel, and a successful parse moves the offset forwards
  within the buffer.\<close>

theorem column_option_terminates:
  assumes "length data < 2 ^ 63" "off \<le> length data"
  shows "ColumnOption_Parse data off \<noteq> Inl OutOfFuel \<and>
    (\<forall>t off'. ColumnOption_Parse data off = Inr (t, off') \<longrightarrow> off < off' \<and> off' \<le> length data)"
proof -
  have ok: "buffer_ok data" using assms(1) by (simp add: buffer_ok_def)
  have "ColumnOption_Parse data off \<noteq> Inl OutOfFuel"
    using fuelled_option_fuel [of "Suc (length data - off)"] ok assms(2)
    unfolding fuelled_def ColumnOption_Parse_def by simp
  moreover have "off < off' \<and> off' \<le> length data" if p: "ColumnOption_Parse data off = Inr (t, off')" for t off'
  proof -
    let ?k = "\<lambda>type. case ColumnPayload_Parse (ColumnOption_Parse_fuel (length data - off)) type of
         None \<Rightarrow> rret (ColumnOption type None)
       | Some Parse \<Rightarrow> rbind Parse (\<lambda>value. rret (ColumnOption type (Some value)))"
    from p obtain c o1 where 1: "ReadShort data off = Inr (c, o1)" and 2: "?k c data o1 = Inr (t, off')"
      by (auto simp: ColumnOption_Parse_def rbind_eq_Inr)
    have o1: "o1 = off + 2" "o1 \<le> length data"
      using 1 ok assms(2) by (cases "off + 2 \<le> length data"; simp add: ReadIntBE_in_range ReadIntBE_underread)+
    have "bounded_reader (?k c)"
      by (auto split: option.split simp del: rret_apply
          intro!: bounded_intros payload_parsers(1) bounded_option_fuel)
    from bounded_reader.bounded [OF this o1(2) ok 2] o1(1) show ?thesis by simp
  qed
  ultimately show ?thesis by blast
qed

theorem column_option_terminates_witness:
  "ColumnOption_Parse [0, 0x20, 0, 9] 0 \<noteq> Inl OutOfFuel \<and>
    \<not> (\<exists>t off'. ColumnOption_Parse [0, 0x20, 0, 9] 0 = Inr (t, off') \<and> \<not> (0 < off' \<and> off' \<le> length [0, 0x20, 0, 9 :: byte]))"
  using column_option_terminates [of "[0, 0x20, 0, 9]" 0] by auto

text \<open>A schema change of a keyspace, a table, a type or an aggregate is parsed back from its wire
  format with all its options.\<close>

theorem schema_change_roundtrip:
  assumes "wf_schema_change c" "change_target c \<noteq> str ''FUNCTION''"
    "length pre + length (enc_schema_change c) + length post < 2 ^ 63"
  shows "SchemaChange_Parse (pre @ enc_schema_change c @ post) (length pre)
    = Inr (c, length pre + length (enc_schema_change c))"
  using decodesD [OF decodes_schema_change [OF assms(1,2)], of pre post] assms(3) by (simp add: buffer_ok_def)

definition example_aggregate :: SchemaChange where
  "example_aggregate = \<lparr>change_type = str ''CREATED'', change_target = str ''AGGREGATE'',
     target_options = Function (str ''ks'') (str ''avg'') [str ''int'']\<rparr>"

theorem schema_change_roundtrip_witness:
  "SchemaChange_Parse ([] @ enc_schema_change example_aggregate @ [1]) (length ([] :: byte list))
    = Inr (example_aggregate, length ([] :: byte list) + length (enc_schema_change example_aggregate))"
  by (rule schema_change_roundtrip)
     (simp_all add: example_aggregate_def wf_schema_change_def wf_string_def wf_list_def
        enc_schema_change_def enc_string_def enc_list_def)

text \<open>A schema change of a function is not parsed: the test for it looks at the change type instead
  of the target, so for a change type other than "FUNCTION" the options come back as an empty
  keyspace and the keyspace, name and arguments stay unread.\<close>

theorem schema_change_function_lost:
  assumes "wf_string ct" "ct \<noteq> str ''FUNCTION''" "length ct + length rest < 2 ^ 62"
  shows "SchemaChange_Parse (enc_string ct @ enc_string (str ''FUNCTION'') @ rest) 0
    = Inr (\<lparr>change_type = ct, change_target = str ''FUNCTION'', target_options = Keyspace []\<rparr>,
        length (enc_string ct @ enc_string (str ''FUNCTION'')))"
proof -
  have "decodes SchemaChange_Parse (enc_string ct @ enc_string (str ''FUNCTION'') @ [])
      \<lparr>change_type = ct, change_target = str ''FUNCTION'', target_options = Keyspace []\<rparr>"
    unfolding SchemaChange_Parse_def
    by (intro decodes_rbind [where x = ct] decodes_rbind [where x = "str ''FUNCTION''"] io_string.decodes_enc)
       (use assms in \<open>auto simp: wf_string_def Let_def decodes_rret simp del: rret_apply\<close>)
  from decodesD [OF this, of "[]" rest] show ?thesis
    using assms by (simp add: buffer_ok_def enc_string_def)
qed

theorem schema_change_function_lost_witness:
  "SchemaChange_Parse (enc_string (str ''CREATED'') @ enc_string (str ''FUNCTION'') @ enc_string (str ''ks'')) 0
    = Inr (\<lparr>change_type = str ''CREATED'', change_target = str ''FUNCTION'', target_options = Keyspace []\<rparr>,
        length (enc_string (str ''CREATED'') @ enc_string (str ''FUNCTION'')))"
  by (rule schema_change_function_lost) (simp_all add: wf_string_def enc_string_def)

end
