(* ===== verification/Cql_Result_Set.thy ===== *)
theory Cql_Result_Set
  imports Cql_Query
begin

text \<open>
  Rows and result sets (\<open>include/cassandra/detail/result_wrapper.hpp\<close>, \<open>row.hpp\<close>,
  \<open>result_set.hpp\<close>). The C++ target type of an extraction is the list of the types of its fields:
  \<open>boost::pfr\<close> turns a struct into the tuple of its members. A row refers to the cells of the result;
  rows are used while the result lives, so the model keeps the cells themselves.
\<close>

section \<open>Rows\<close>

record Row =
  row_content :: "RawBuffer list"
  row_columns_count :: "32 word"

definition Row_Size :: "Row \<Rightarrow> nat" where
  "Row_Size row = Int_to_size_t (row_columns_count row)"

text \<open>\<open>Row::To(val, FieldTag)\<close>: \<open>front()\<close> of an empty span is undefined.\<close>

definition Row_As_Field :: "cell_type \<Rightarrow> Row \<Rightarrow> cell_value res" where
  "Row_As_Field t row =
     (case row_content row of
        [] \<Rightarrow> Inl (UB EmptyFront)
      | cell # _ \<Rightarrow> Read_cell t cell)"

text \<open>\<open>ExtractTuple\<close> reads column after column; \<open>operator[]\<close> of a span does not check the index.\<close>

fun ExtractTuple :: "RawBuffer list \<Rightarrow> nat \<Rightarrow> cell_type list \<Rightarrow> cell_value list res" where
  "ExtractTuple buffer_view column_index [] = Inr []"
| "ExtractTuple buffer_view column_index (t # ts) =
     (if column_index < length buffer_view
      then res_bind (Read_cell t (buffer_view ! column_index)) (\<lambda>v.
           res_bind (ExtractTuple buffer_view (Suc column_index) ts) (\<lambda>vs. Inr (v # vs)))
      else Inl (UB OutOfBounds))"

definition Row_As_Row :: "cell_type list \<Rightarrow> Row \<Rightarrow> cell_value list res" where
  "Row_As_Row ts row =
     (if length ts > Row_Size row
      then Inl (Throw (Error (''Row size ('' @ fmt_nat (Row_Size row) @ '') is less than the number of data members in C++ user datatype ('' @
         fmt_nat (length ts) @ '')'')))
      else ExtractTuple (row_content row) 0 ts)"

section \<open>Result sets\<close>

record ResultWrapper =
  rows_content :: "RawBuffer list list"
  columns_count :: "32 word"
  rows_count :: "32 word"

text \<open>A result set shares its wrapper; a result that is not made of rows has none.\<close>

type_synonym ResultSet = "ResultWrapper option"

definition ResultWrapper_Empty :: "ResultWrapper \<Rightarrow> bool" where
  "ResultWrapper_Empty w \<longleftrightarrow> rows_content w = []"

definition ResultSet_Empty :: "ResultSet \<Rightarrow> bool" where
  "ResultSet_Empty rs \<longleftrightarrow> (case rs of None \<Rightarrow> True | Some w \<Rightarrow> ResultWrapper_Empty w)"

definition RowsAffected :: "ResultSet \<Rightarrow> 32 word res" where
  "RowsAffected rs = (case rs of None \<Rightarrow> Inl (UB NullDeref) | Some w \<Rightarrow> Inr (rows_count w))"

definition ColumnsAffected :: "ResultSet \<Rightarrow> 32 word res" where
  "ColumnsAffected rs = (case rs of None \<Rightarrow> Inl (UB NullDeref) | Some w \<Rightarrow> Inr (columns_count w))"

definition ResultSet_Front :: "ResultSet \<Rightarrow> Row res" where
  "ResultSet_Front rs =
     (case rs of
        None \<Rightarrow> Inl (UB NullDeref)
      | Some w \<Rightarrow>
          (case rows_content w of
             [] \<Rightarrow> Inl (UB EmptyFront)
           | row # _ \<Rightarrow> Inr \<lparr>row_content = row, row_columns_count = columns_count w\<rparr>))"

definition AsSingleRow_Field :: "cell_type \<Rightarrow> ResultSet \<Rightarrow> cell_value res" where
  "AsSingleRow_Field t rs = res_bind (ResultSet_Front rs) (Row_As_Field t)"

definition AsSingleRow_Row :: "cell_type list \<Rightarrow> ResultSet \<Rightarrow> cell_value list res" where
  "AsSingleRow_Row ts rs = res_bind (ResultSet_Front rs) (Row_As_Row ts)"

fun AsContainer_loop :: "cell_type list \<Rightarrow> 32 word \<Rightarrow> RawBuffer list list \<Rightarrow> cell_value list list res" where
  "AsContainer_loop ts n [] = Inr []"
| "AsContainer_loop ts n (row # rows) =
     res_bind (Row_As_Row ts \<lparr>row_content = row, row_columns_count = n\<rparr>) (\<lambda>r.
     res_bind (AsContainer_loop ts n rows) (\<lambda>rs. Inr (r # rs)))"

definition AsContainer :: "cell_type list \<Rightarrow> ResultSet \<Rightarrow> cell_value list list res" where
  "AsContainer ts rs =
     (case rs of
        None \<Rightarrow> Inl (UB NullDeref)
      | Some w \<Rightarrow> AsContainer_loop ts (columns_count w) (rows_content w))"

section \<open>Extraction cell by cell\<close>

text \<open>The reference: read each cell at its type and collect the values, or the first fault.\<close>

primrec res_all :: "'a res list \<Rightarrow> 'a list res" where
  "res_all [] = Inr []"
| "res_all (r # rs) = res_bind r (\<lambda>x. res_bind (res_all rs) (\<lambda>xs. Inr (x # xs)))"

lemma res_all_Inr: "res_all (map Inr xs) = Inr xs"
  by (induction xs) simp_all

lemma ExtractTuple_res_all:
  "i + length ts \<le> length cells \<Longrightarrow>
    ExtractTuple cells i ts = res_all (map2 Read_cell ts (drop i cells))"
proof (induction ts arbitrary: i)
  case (Cons t ts)
  then have "drop i cells = cells ! i # drop (Suc i) cells" by (simp add: Cons_nth_drop_Suc)
  with Cons show ?case by simp
qed simp

lemma Row_Size_nat: "n < 2 ^ 31 \<Longrightarrow> Row_Size \<lparr>row_content = cells, row_columns_count = word_of_nat n\<rparr> = n"
  by (simp add: Row_Size_def Int_to_size_t_nat)

lemma Row_As_Row_eq:
  assumes "length cells < 2 ^ 31"
  shows "Row_As_Row ts \<lparr>row_content = cells, row_columns_count = word_of_nat (length cells)\<rparr> =
    (if length cells < length ts
     then Inl (Throw (Error (''Row size ('' @ fmt_nat (length cells) @ '') is less than the number of data members in C++ user datatype ('' @
         fmt_nat (length ts) @ '')'')))
     else res_all (map2 Read_cell ts cells))"
  using assms ExtractTuple_res_all [of 0 ts cells] by (simp add: Row_As_Row_def Row_Size_nat)

lemma map2_Read_cell_enc:
  "map2 Read_cell (map cell_type_of vs) (map enc_cell vs @ rest) = map Inr vs"
  by (induction vs) (simp_all add: Read_cell_enc)

lemma Row_As_Row_values:
  assumes "length vs + length extra < 2 ^ 31"
  shows "Row_As_Row (map cell_type_of vs)
      \<lparr>row_content = map enc_cell vs @ extra, row_columns_count = word_of_nat (length vs + length extra)\<rparr> = Inr vs"
  using assms Row_As_Row_eq [of "map enc_cell vs @ extra" "map cell_type_of vs"]
  by (simp add: map2_Read_cell_enc res_all_Inr)

section \<open>Properties of rows and result sets\<close>

text \<open>Extracting a row as a struct, for a row that has as many cells as its column count says,
  throws when the struct has more members than the row has columns; otherwise it reads member \<open>i\<close> from
  column \<open>i\<close>, ignores further columns and never indexes outside the row.\<close>

theorem row_extraction_exact:
  assumes "length cells < 2 ^ 31"
  shows "Row_As_Row ts \<lparr>row_content = cells, row_columns_count = word_of_nat (length cells)\<rparr> =
    (if length cells < length ts
     then Inl (Throw (Error (''Row size ('' @ fmt_nat (length cells) @ '') is less than the number of data members in C++ user datatype ('' @
         fmt_nat (length ts) @ '')'')))
     else res_all (map2 Read_cell ts cells))"
  using assms by (rule Row_As_Row_eq)

theorem row_extraction_exact_witness:
  "Row_As_Row [TInt] \<lparr>row_content = [enc_int (7 :: 32 word), [1]], row_columns_count = word_of_nat 2\<rparr> = Inr [VInt 7] \<and>
   Row_As_Row [TInt, TInt] \<lparr>row_content = [[1]], row_columns_count = word_of_nat 1\<rparr> =
     Inl (Throw (Error (''Row size ('' @ fmt_nat 1 @ '') is less than the number of data members in C++ user datatype ('' @
         fmt_nat 2 @ '')'')))"
  using row_extraction_exact [of "[enc_int (7 :: 32 word), [1]]" "[TInt]"]
    row_extraction_exact [of "[[1]]" "[TInt, TInt]"]
  by (simp add: IntegralBinaryParser_Bytes_whole fmt_nat.simps)

lemma AsContainer_values:
  assumes "\<forall>vs \<in> set rows. map cell_type_of vs = ts \<and> length (extra vs) = k" "length ts + k < 2 ^ 31"
  shows "AsContainer ts (Some \<lparr>rows_content = map (\<lambda>vs. map enc_cell vs @ extra vs) rows,
       columns_count = word_of_nat (length ts + k), rows_count = word_of_nat (length rows)\<rparr>) = Inr rows \<and>
    (rows \<noteq> [] \<longrightarrow> AsSingleRow_Row ts (Some \<lparr>rows_content = map (\<lambda>vs. map enc_cell vs @ extra vs) rows,
       columns_count = word_of_nat (length ts + k), rows_count = word_of_nat (length rows)\<rparr>) = Inr (hd rows))"
proof -
  have row: "Row_As_Row ts \<lparr>row_content = map enc_cell vs @ extra vs,
      row_columns_count = word_of_nat (length ts + k)\<rparr> = Inr vs" if "vs \<in> set rows" for vs
    using Row_As_Row_values [of vs "extra vs"] assms that by (metis length_map)
  then have "AsContainer_loop ts (word_of_nat (length ts + k)) (map (\<lambda>vs. map enc_cell vs @ extra vs) rows) = Inr rows"
    by (induction rows) simp_all
  with row show ?thesis
    by (cases rows) (simp_all add: AsContainer_def AsSingleRow_Row_def ResultSet_Front_def)
qed



text \<open>The emptiness test is the guard the accessors need: on a result set that is not empty the
  first row is returned; on an empty one every access to the first row is undefined behaviour, and
  on a result without a wrapper so are the row count, the column count and the container.\<close>

theorem empty_guards_access:
  "(if ResultSet_Empty rs
    then (\<exists>u. ResultSet_Front rs = Inl (UB u)) \<and> is_UB (projl (AsSingleRow_Row ts rs)) \<and>
      is_UB (projl (AsSingleRow_Field t rs))
    else \<exists>w. rs = Some w \<and>
      ResultSet_Front rs = Inr \<lparr>row_content = hd (rows_content w), row_columns_count = columns_count w\<rparr>) \<and>
   (rs = None \<longleftrightarrow> RowsAffected rs = Inl (UB NullDeref) \<and> ColumnsAffected rs = Inl (UB NullDeref)) \<and>
   AsContainer ts None = Inl (UB NullDeref)"
  by (auto simp: ResultSet_Empty_def ResultWrapper_Empty_def ResultSet_Front_def AsSingleRow_Row_def
      AsSingleRow_Field_def RowsAffected_def ColumnsAffected_def AsContainer_def neq_Nil_conv
      split: option.splits list.splits)

end
