(* ===== verification/Cql_Response.thy ===== *)
theory Cql_Response
  imports Cql_Column_Option Cql_Lz4 Cql_Result_Set
begin

unbundle bit_operations_syntax

text \<open>
  Response messages (\<open>src/io/protocol/response_message.hpp\<close>), the choice of their class from a frame
  header and the translation of error responses into exceptions (\<open>GetResponseMessageFromHeader\<close> and
  \<open>CheckError\<close> of \<open>src/detail/connection_impl.cpp\<close>).

  A message object is created from its header and filled by \<open>ParseBody\<close>. The model keeps the class of
  the object (\<open>ResponseClass\<close>) until the body is parsed, then its members (\<open>ResponseBody\<close>).
\<close>

section \<open>Result messages\<close>

datatype ResultKind = kVoid | kRows | kSetKeyspace | kPrepared | kSchemaChange

fun ResultKind_value :: "ResultKind \<Rightarrow> 32 word" where
  "ResultKind_value kVoid = 0x0001"
| "ResultKind_value kRows = 0x0002"
| "ResultKind_value kSetKeyspace = 0x0003"
| "ResultKind_value kPrepared = 0x0004"
| "ResultKind_value kSchemaChange = 0x0005"

definition kGlobalTableSpec :: "32 word" where "kGlobalTableSpec = 0x0001"
definition kHasMorePages :: "32 word" where "kHasMorePages = 0x0002"
definition kNoMetadata :: "32 word" where "kNoMetadata = 0x0004"

abbreviation has_flag :: "32 word \<Rightarrow> 32 word \<Rightarrow> bool" where
  "has_flag flags f \<equiv> flags AND f \<noteq> 0"

record ResultColumn =
  col_key_space :: RawBuffer
  col_table :: RawBuffer
  col_name :: RawBuffer
  col_type :: ColumnOption

record RowKind =
  rk_flags :: "32 word"
  rk_columns_count :: "32 word"
  rk_paging_state :: RawBuffer
  rk_global_key_space :: RawBuffer
  rk_global_table :: RawBuffer
  rk_columns :: "ResultColumn list"
  rk_rows_count :: "32 word"
  rk_rows_content :: "RawBuffer list list"

record PreparedKind =
  pk_id :: RawBuffer
  pk_flags :: "32 word"
  pk_column_count :: "32 word"
  pk_partition_key_count :: "32 word"
  pk_partition_key_indexes :: "16 word list"
  pk_global_key_space :: RawBuffer
  pk_global_table :: RawBuffer
  pk_columns :: "ResultColumn list"

datatype ResultPayload =
    VoidPayload
  | RowPayload RowKind
  | SetKeyspacePayload RawBuffer
  | PreparedPayload PreparedKind
  | SchemaChangePayload SchemaChange

definition ResultColumn_Parse :: "bool \<Rightarrow> ResultColumn rd" where
  "ResultColumn_Parse global_table_spec_enabled =
     rbind (if global_table_spec_enabled then rret ([], [])
            else rbind ReadString (\<lambda>key_space. rbind ReadString (\<lambda>table. rret (key_space, table))))
       (\<lambda>(key_space, table). rbind ReadString (\<lambda>name. rbind ColumnOption_Parse (\<lambda>type.
          rret \<lparr>col_key_space = key_space, col_table = table, col_name = name, col_type = type\<rparr>)))"

text \<open>The two strings of a global table specification, read when the flag is set.\<close>

definition ReadGlobalSpec :: "32 word \<Rightarrow> (RawBuffer \<times> RawBuffer) rd" where
  "ReadGlobalSpec flags =
     (if has_flag flags kGlobalTableSpec
      then rbind ReadString (\<lambda>key_space. rbind ReadString (\<lambda>table. rret (key_space, table)))
      else rret ([], []))"

text \<open>\<open>vector::reserve\<close> of an \<open>Int\<close>: a negative count becomes a size no vector can have.\<close>

definition vec_reserve :: "32 word \<Rightarrow> unit rd" where
  "vec_reserve count = (if Int_to_size_t count > max_size then rfail (Throw std_length_error) else rret ())"

text \<open>The number of rounds of a loop over a signed counter.\<close>

abbreviation loop_count :: "32 word \<Rightarrow> nat" where
  "loop_count w \<equiv> nat (sint w)"

definition ParseRows :: "RowKind rd" where
  "ParseRows =
     rbind ReadInt (\<lambda>flags.
     rbind ReadInt (\<lambda>columns.
     rbind (if has_flag flags kHasMorePages then ReadBytes else rret []) (\<lambda>paging_state.
     rbind (if \<not> has_flag flags kNoMetadata
            then rbind (ReadGlobalSpec flags) (\<lambda>(key_space, table).
                 rbind (vec_reserve columns) (\<lambda>_.
                 rbind (rrepeat (loop_count columns) (ResultColumn_Parse (has_flag flags kGlobalTableSpec)))
                   (\<lambda>cols. rret (key_space, table, cols))))
            else rret ([], [], [])) (\<lambda>(key_space, table, cols).
     rbind ReadInt (\<lambda>rows.
     rbind (vec_reserve rows) (\<lambda>_.
     rbind (rrepeat (loop_count rows) (rrepeat (loop_count columns) ReadBytes)) (\<lambda>content.
       rret \<lparr>rk_flags = flags, rk_columns_count = columns, rk_paging_state = paging_state,
             rk_global_key_space = key_space, rk_global_table = table, rk_columns = cols,
             rk_rows_count = rows, rk_rows_content = content\<rparr>)))))))"

definition PreparedKind_Parse :: "PreparedKind rd" where
  "PreparedKind_Parse =
     rbind ReadShortBytes (\<lambda>id.
     rbind ReadInt (\<lambda>flags.
     rbind ReadInt (\<lambda>columns.
     rbind ReadShortVector (\<lambda>indexes.
     rbind (ReadGlobalSpec flags) (\<lambda>(key_space, table).
     rbind (rrepeat (loop_count columns) (ResultColumn_Parse (has_flag flags kGlobalTableSpec))) (\<lambda>cols.
       rret \<lparr>pk_id = id, pk_flags = flags, pk_column_count = columns,
             pk_partition_key_count = word_of_nat (length indexes), pk_partition_key_indexes = indexes,
             pk_global_key_space = key_space, pk_global_table = table, pk_columns = cols\<rparr>))))))"

definition ParseSetKeyspace :: "RawBuffer rd" where
  "ParseSetKeyspace = ReadString"

text \<open>
  \<open>ResultMessage::DoParseBody\<close>: the kind is the number on the wire; a number that is no enumerator
  leaves the payload as constructed, which is the void alternative.
\<close>

definition ResultMessage_read :: "(32 word \<times> ResultPayload) rd" where
  "ResultMessage_read =
     rbind ReadInt (\<lambda>kind.
       if kind = ResultKind_value kRows then rbind ParseRows (\<lambda>r. rret (kind, RowPayload r))
       else if kind = ResultKind_value kSetKeyspace then rbind ParseSetKeyspace (\<lambda>k. rret (kind, SetKeyspacePayload k))
       else if kind = ResultKind_value kPrepared then rbind PreparedKind_Parse (\<lambda>p. rret (kind, PreparedPayload p))
       else if kind = ResultKind_value kSchemaChange then rbind SchemaChange_Parse (\<lambda>s. rret (kind, SchemaChangePayload s))
       else rret (kind, VoidPayload))"

text \<open>\<open>std::get\<close> of an alternative the variant does not hold throws.\<close>

definition GetResultSet :: "32 word \<times> ResultPayload \<Rightarrow> ResultSet res" where
  "GetResultSet m =
     (if fst m \<noteq> ResultKind_value kRows then Inr None
      else case snd m of
             RowPayload r \<Rightarrow> Inr (Some \<lparr>rows_content = rk_rows_content r, columns_count = rk_columns_count r,
                                      rows_count = rk_rows_count r\<rparr>)
           | _ \<Rightarrow> Inl (Throw std_bad_variant_access))"

definition GetPreparedStatementId :: "32 word \<times> ResultPayload \<Rightarrow> RawBuffer res" where
  "GetPreparedStatementId m =
     (if fst m \<noteq> ResultKind_value kPrepared then Inr []
      else case snd m of PreparedPayload p \<Rightarrow> Inr (pk_id p) | _ \<Rightarrow> Inl (Throw std_bad_variant_access))"

section \<open>Responses\<close>

datatype ResponseClass = ErrorClass | ReadyClass | AuthentificateClass | SupportClass | ResultClass

datatype ResponseBody =
    ErrorMessage "32 word" RawBuffer
  | ReadyMessage
  | AuthentificateMessage RawBuffer
  | SupportMessage "(RawBuffer \<times> RawBuffer list) list"
  | ResultMessage "32 word" ResultPayload

record ResponseMessage =
  rsp_header :: FrameHeader
  rsp_body :: ResponseBody

fun DoParseBody :: "ResponseClass \<Rightarrow> RawBuffer \<Rightarrow> ResponseBody res" where
  "DoParseBody ErrorClass buffer =
     res_bind (rbind ReadInt (\<lambda>code. rbind ReadString (\<lambda>message. rret (ErrorMessage code message))) buffer 0)
       (\<lambda>(m, _). Inr m)"
| "DoParseBody ReadyClass buffer = Inr ReadyMessage"
| "DoParseBody AuthentificateClass buffer =
     res_bind (ReadString buffer 0) (\<lambda>(c, _). Inr (AuthentificateMessage c))"
| "DoParseBody SupportClass buffer =
     res_bind (ReadStringMultiMap buffer 0) (\<lambda>(m, _). Inr (SupportMessage m))"
| "DoParseBody ResultClass buffer =
     res_bind (ResultMessage_read buffer 0) (\<lambda>((kind, payload), _). Inr (ResultMessage kind payload))"

definition ParseBody :: "lz4_lib option \<Rightarrow> ResponseClass \<Rightarrow> RawBuffer \<Rightarrow> ResponseBody res" where
  "ParseBody compressor c buffer =
     (case compressor of
        None \<Rightarrow> DoParseBody c buffer
      | Some L \<Rightarrow> res_bind (Lz4Compressor_Decompress L buffer) (DoParseBody c))"

definition GetResponseMessageFromHeader :: "FrameHeader \<Rightarrow> ResponseClass res" where
  "GetResponseMessageFromHeader h =
     (if hdr_version h \<noteq> MessageDirection_value kResponse
      then Inl (Throw (std_runtime_error ''Unexpected message direction''))
      else case Opcode_of (hdr_opcode h) of
             Some kSupported \<Rightarrow> Inr SupportClass
           | Some kReady \<Rightarrow> Inr ReadyClass
           | Some kAuthenticate \<Rightarrow> Inr AuthentificateClass
           | Some kError \<Rightarrow> Inr ErrorClass
           | Some kResult \<Rightarrow> Inr ResultClass
           | _ \<Rightarrow> Inl (Throw (std_runtime_error ''Unexpected opcode'')))"

section \<open>Errors\<close>

fun error_exception :: "ErrorCode \<Rightarrow> frame_exception" where
  "error_exception kServerError = ServerError"
| "error_exception kProtocolError = ProtocolError"
| "error_exception kAuthenticationError = AuthenticationError"
| "error_exception kUnavailable = Unavailable"
| "error_exception kOverloaded = Overloaded"
| "error_exception kIsBootstrapping = IsBootstrapping"
| "error_exception kTruncateError = TruncateError"
| "error_exception kWriteTimeout = WriteTimeout"
| "error_exception kReadTimeout = ReadTimeout"
| "error_exception kReadFailure = ReadFailure"
| "error_exception kFunctionFailure = FunctionFailure"
| "error_exception kWriteFailure = WriteFailure"
| "error_exception kSyntaxError = SyntaxError"
| "error_exception kUnauthorized = Unauthorized"
| "error_exception kInvalid = Invalid"
| "error_exception kConfigError = ConfigError"
| "error_exception kAlreadyExists = AlreadyExists"
| "error_exception kUnprepared = Unprepared"

text \<open>
  \<open>CheckError\<close> tests the opcode of the header, casts the object to \<open>ErrorMessage\<close> (a null pointer when
  it is of another class) and throws by code; a code without a case falls through the switch.
\<close>

definition CheckError :: "ResponseMessage \<Rightarrow> unit res" where
  "CheckError m =
     (if hdr_opcode (rsp_header m) = Opcode_value kError
      then case rsp_body m of
             ErrorMessage code message \<Rightarrow>
               (case ErrorCode_of code of
                  Some c \<Rightarrow> Inl (Throw (FrameError (error_exception c) message))
                | None \<Rightarrow> Inr ())
           | _ \<Rightarrow> Inl (UB NullDeref)
      else Inr ())"

section \<open>The wire format of results\<close>

definition enc_column :: "bool \<Rightarrow> ResultColumn \<Rightarrow> RawBuffer" where
  "enc_column g c = (if g then [] else enc_string (col_key_space c) @ enc_string (col_table c))
     @ enc_string (col_name c) @ enc_option (col_type c)"

definition wf_column :: "bool \<Rightarrow> ResultColumn \<Rightarrow> bool" where
  "wf_column g c \<longleftrightarrow>
     (if g then col_key_space c = [] \<and> col_table c = [] else wf_string (col_key_space c) \<and> wf_string (col_table c))
     \<and> wf_string (col_name c) \<and> wf_option (col_type c)"

text \<open>A table name and a keyspace name that are present exactly when the flag says so.\<close>

definition enc_spec :: "32 word \<Rightarrow> RawBuffer \<Rightarrow> RawBuffer \<Rightarrow> RawBuffer" where
  "enc_spec flags ks tab = (if has_flag flags kGlobalTableSpec then enc_string ks @ enc_string tab else [])"

definition wf_spec :: "32 word \<Rightarrow> RawBuffer \<Rightarrow> RawBuffer \<Rightarrow> bool" where
  "wf_spec flags ks tab \<longleftrightarrow>
     (if has_flag flags kGlobalTableSpec then wf_string ks \<and> wf_string tab else ks = [] \<and> tab = [])"

definition enc_rows :: "RowKind \<Rightarrow> RawBuffer" where
  "enc_rows r = enc_int (rk_flags r) @ enc_int (rk_columns_count r)
     @ (if has_flag (rk_flags r) kHasMorePages then enc_bytes (rk_paging_state r) else [])
     @ (if has_flag (rk_flags r) kNoMetadata then []
        else enc_spec (rk_flags r) (rk_global_key_space r) (rk_global_table r)
          @ concat (map (enc_column (has_flag (rk_flags r) kGlobalTableSpec)) (rk_columns r)))
     @ enc_int (rk_rows_count r) @ concat (map (\<lambda>row. concat (map enc_bytes row)) (rk_rows_content r))"

definition wf_rows :: "RowKind \<Rightarrow> bool" where
  "wf_rows r \<longleftrightarrow>
     0 \<le> sint (rk_columns_count r) \<and> 0 \<le> sint (rk_rows_count r) \<and>
     length (rk_rows_content r) = loop_count (rk_rows_count r) \<and>
     (\<forall>row \<in> set (rk_rows_content r). length row = loop_count (rk_columns_count r) \<and> (\<forall>c \<in> set row. wf_long_string c)) \<and>
     (if has_flag (rk_flags r) kHasMorePages then wf_long_string (rk_paging_state r) else rk_paging_state r = []) \<and>
     (if has_flag (rk_flags r) kNoMetadata
      then rk_global_key_space r = [] \<and> rk_global_table r = [] \<and> rk_columns r = []
      else wf_spec (rk_flags r) (rk_global_key_space r) (rk_global_table r) \<and>
        length (rk_columns r) = loop_count (rk_columns_count r) \<and>
        (\<forall>c \<in> set (rk_columns r). wf_column (has_flag (rk_flags r) kGlobalTableSpec) c))"

definition enc_prepared :: "PreparedKind \<Rightarrow> RawBuffer" where
  "enc_prepared p = enc_short_bytes (pk_id p) @ enc_int (pk_flags p) @ enc_int (pk_column_count p)
     @ enc_short_vector (pk_partition_key_indexes p)
     @ enc_spec (pk_flags p) (pk_global_key_space p) (pk_global_table p)
     @ concat (map (enc_column (has_flag (pk_flags p) kGlobalTableSpec)) (pk_columns p))"

definition wf_prepared :: "PreparedKind \<Rightarrow> bool" where
  "wf_prepared p \<longleftrightarrow> wf_string (pk_id p) \<and> wf_short_vector (pk_partition_key_indexes p) \<and>
     pk_partition_key_count p = word_of_nat (length (pk_partition_key_indexes p)) \<and>
     wf_spec (pk_flags p) (pk_global_key_space p) (pk_global_table p) \<and>
     length (pk_columns p) = loop_count (pk_column_count p) \<and>
     (\<forall>c \<in> set (pk_columns p). wf_column (has_flag (pk_flags p) kGlobalTableSpec) c)"

fun payload_kind :: "ResultPayload \<Rightarrow> ResultKind" where
  "payload_kind VoidPayload = kVoid"
| "payload_kind (RowPayload _) = kRows"
| "payload_kind (SetKeyspacePayload _) = kSetKeyspace"
| "payload_kind (PreparedPayload _) = kPrepared"
| "payload_kind (SchemaChangePayload _) = kSchemaChange"

fun enc_result_payload :: "ResultPayload \<Rightarrow> RawBuffer" where
  "enc_result_payload VoidPayload = []"
| "enc_result_payload (RowPayload r) = enc_rows r"
| "enc_result_payload (SetKeyspacePayload k) = enc_string k"
| "enc_result_payload (PreparedPayload p) = enc_prepared p"
| "enc_result_payload (SchemaChangePayload c) = enc_schema_change c"

fun wf_result_payload :: "ResultPayload \<Rightarrow> bool" where
  "wf_result_payload VoidPayload = True"
| "wf_result_payload (RowPayload r) = wf_rows r"
| "wf_result_payload (SetKeyspacePayload k) = wf_string k"
| "wf_result_payload (PreparedPayload p) = wf_prepared p"
| "wf_result_payload (SchemaChangePayload c) = (wf_schema_change c \<and> change_target c \<noteq> str ''FUNCTION'')"

definition enc_result :: "ResultPayload \<Rightarrow> RawBuffer" where
  "enc_result p = enc_int (ResultKind_value (payload_kind p)) @ enc_result_payload p"

section \<open>The parsers invert the wire format\<close>

lemma decodes_strings2: "wf_string a \<Longrightarrow> wf_string b \<Longrightarrow>
    decodes (rbind ReadString (\<lambda>a. rbind ReadString (\<lambda>b. rret (a, b)))) (enc_string a @ enc_string b) (a, b)"
  by (intro decodes_rbind [OF io_string.decodes_enc] decodes_rbind_last io_string.decodes_enc)

lemma decodes_spec: "wf_spec flags ks tab \<Longrightarrow> decodes (ReadGlobalSpec flags) (enc_spec flags ks tab) (ks, tab)"
  by (auto simp: ReadGlobalSpec_def enc_spec_def wf_spec_def decodes_rret decodes_strings2 simp del: rret_apply)

lemma decodes_column:
  assumes "wf_column g c"
  shows "decodes (ResultColumn_Parse g) (enc_column g c) c"
proof -
  obtain ks tab nm ty where c: "c = \<lparr>col_key_space = ks, col_table = tab, col_name = nm, col_type = ty\<rparr>"
    by (cases c)
  have "decodes (if g then rret ([], []) else rbind ReadString (\<lambda>a. rbind ReadString (\<lambda>b. rret (a, b))))
      (if g then [] else enc_string ks @ enc_string tab) (ks, tab)"
    using assms c by (auto simp: wf_column_def decodes_rret decodes_strings2 simp del: rret_apply)
  with assms c show ?thesis
    unfolding ResultColumn_Parse_def enc_column_def
    by (intro decodes_rbind [where x = "(ks, tab)"])
       (auto simp: wf_column_def simp del: rret_apply
         intro!: decodes_rbind [OF io_string.decodes_enc] decodes_rbind_last decodes_ColumnOption io_string.decodes_enc)
qed

lemma vec_reserve_nonneg: "0 \<le> sint w \<Longrightarrow> vec_reserve w = rret ()"
proof -
  assume "0 \<le> sint w"
  with sint_int_bounds(2) [of w] have "Int_to_size_t w \<le> max_size"
    by (simp add: Int_to_size_t_def nat_le_iff)
  then show ?thesis by (simp add: vec_reserve_def)
qed

lemma decodes_nothing: "decodes (f x) bs y \<Longrightarrow> decodes (rbind (rret x) f) bs y"
  by (simp add: decodes_def)

lemma decodes_repeat_count:
  "length xs = n \<Longrightarrow> (\<And>x. x \<in> set xs \<Longrightarrow> decodes p (e x) x) \<Longrightarrow> decodes (rrepeat n p) (concat (map e xs)) xs"
  using decodes_rrepeat by blast

lemma decodes_row_content:
  assumes "wf_rows r"
  shows "decodes (rrepeat (loop_count (rk_rows_count r)) (rrepeat (loop_count (rk_columns_count r)) ReadBytes))
    (concat (map (\<lambda>row. concat (map enc_bytes row)) (rk_rows_content r))) (rk_rows_content r)"
  using assms by (intro decodes_repeat_count io_bytes.decodes_enc) (auto simp: wf_rows_def)

lemma decodes_row_metadata:
  assumes "wf_rows r"
  shows "decodes (if \<not> has_flag (rk_flags r) kNoMetadata
      then rbind (ReadGlobalSpec (rk_flags r)) (\<lambda>(key_space, table).
           rbind (vec_reserve (rk_columns_count r)) (\<lambda>_.
           rbind (rrepeat (loop_count (rk_columns_count r)) (ResultColumn_Parse (has_flag (rk_flags r) kGlobalTableSpec)))
             (\<lambda>cols. rret (key_space, table, cols))))
      else rret ([], [], []))
    (if has_flag (rk_flags r) kNoMetadata then []
     else enc_spec (rk_flags r) (rk_global_key_space r) (rk_global_table r)
       @ concat (map (enc_column (has_flag (rk_flags r) kGlobalTableSpec)) (rk_columns r)))
    (rk_global_key_space r, rk_global_table r, rk_columns r)"
proof (cases "has_flag (rk_flags r) kNoMetadata")
  case True
  with assms show ?thesis by (simp add: wf_rows_def decodes_rret del: rret_apply)
next
  case False
  let ?g = "has_flag (rk_flags r) kGlobalTableSpec"
  have "decodes (rbind (vec_reserve (rk_columns_count r)) (\<lambda>_.
      rbind (rrepeat (loop_count (rk_columns_count r)) (ResultColumn_Parse ?g))
        (\<lambda>cols. rret (rk_global_key_space r, rk_global_table r, cols))))
      (concat (map (enc_column ?g) (rk_columns r))) (rk_global_key_space r, rk_global_table r, rk_columns r)"
    using assms False
    by (auto simp: wf_rows_def vec_reserve_nonneg simp del: rret_apply
        intro!: decodes_nothing decodes_rbind_last decodes_repeat_count decodes_column)
  moreover have "wf_spec (rk_flags r) (rk_global_key_space r) (rk_global_table r)"
    using assms False by (simp add: wf_rows_def)
  ultimately show ?thesis
    using False by (simp add: decodes_rbind [OF decodes_spec] del: rret_apply)
qed

lemma decodes_rows:
  assumes "wf_rows r"
  shows "decodes ParseRows (enc_rows r) r"
proof -
  let ?paging = "if has_flag (rk_flags r) kHasMorePages then enc_bytes (rk_paging_state r) else []"
  have paging: "decodes (if has_flag (rk_flags r) kHasMorePages then ReadBytes else rret []) ?paging (rk_paging_state r)"
    using assms by (auto simp: wf_rows_def decodes_rret io_bytes.decodes_enc simp del: rret_apply)
  have rows: "vec_reserve (rk_rows_count r) = rret ()"
    using assms by (simp add: wf_rows_def vec_reserve_nonneg)
  show ?thesis
    unfolding ParseRows_def enc_rows_def
    by (intro decodes_rbind [OF int_decodes(3)] decodes_rbind [OF paging]
         decodes_rbind [OF decodes_row_metadata [OF assms]], unfold prod.case,
        rule decodes_rbind [OF int_decodes(3)], unfold rows, rule decodes_nothing,
        rule decodes_rbind_eq [OF decodes_row_content [OF assms]], simp)
qed

lemma decodes_prepared:
  assumes "wf_prepared p"
  shows "decodes PreparedKind_Parse (enc_prepared p) p"
proof -
  let ?g = "has_flag (pk_flags p) kGlobalTableSpec"
  have cols: "decodes (rrepeat (loop_count (pk_column_count p)) (ResultColumn_Parse ?g))
      (concat (map (enc_column ?g) (pk_columns p))) (pk_columns p)"
    using assms by (intro decodes_repeat_count decodes_column) (auto simp: wf_prepared_def)
  have w: "wf_string (pk_id p)" "wf_short_vector (pk_partition_key_indexes p)"
      "wf_spec (pk_flags p) (pk_global_key_space p) (pk_global_table p)"
      "pk_partition_key_count p = word_of_nat (length (pk_partition_key_indexes p))"
    using assms by (simp_all add: wf_prepared_def)
  show ?thesis
    unfolding PreparedKind_Parse_def enc_prepared_def
    by (intro decodes_rbind [OF io_short_bytes.decodes_enc [OF w(1)]] decodes_rbind [OF int_decodes(3)]
         decodes_rbind [OF io_short_vector.decodes_enc [OF w(2)]] decodes_rbind [OF decodes_spec [OF w(3)]],
        unfold prod.case, rule decodes_rbind_eq [OF cols], simp add: w(4) [symmetric])
qed

lemma ResultKind_value_inject [simp]: "ResultKind_value a = ResultKind_value b \<longleftrightarrow> a = b"
  by (cases a; cases b) simp_all

lemma decodes_result:
  assumes "wf_result_payload p"
  shows "decodes ResultMessage_read (enc_result p) (ResultKind_value (payload_kind p), p)"
  unfolding ResultMessage_read_def enc_result_def
  by (rule decodes_rbind [OF int_decodes(3)], use assms in \<open>cases p\<close>)
     (auto simp: ParseSetKeyspace_def decodes_rret simp del: rret_apply ResultKind_value.simps
       intro!: decodes_rbind_last decodes_rows io_string.decodes_enc decodes_prepared decodes_schema_change)

lemma parse_result:
  assumes "wf_result_payload p" "length (enc_result p @ post) < 2 ^ 63"
  shows "DoParseBody ResultClass (enc_result p @ post) = Inr (ResultMessage (ResultKind_value (payload_kind p)) p)"
  using decodes_start [OF decodes_result [OF assms(1)], of post] assms(2) by (simp add: buffer_ok_def)

section \<open>The parsers return\<close>

lemma fuelled_ints: "fuelled n ReadInt"
  unfolding fuelled_def
proof (intro allI impI)
  fix data :: RawBuffer and off
  assume "buffer_ok data" "off \<le> length data"
  then show "ReadInt data off \<noteq> Inl OutOfFuel"
    by (cases "off + 4 \<le> length data") (simp_all add: ReadIntBE_in_range ReadIntBE_underread)
qed

lemma fuelled_containers: "fuelled n ReadBytes" "fuelled n ReadShortBytes" "fuelled n ReadShortVector"
    "fuelled n ReadStringList" "fuelled n ReadStringMultiMap"
proof -
  show "fuelled n ReadBytes" "fuelled n ReadShortBytes"
    unfolding ReadBytes_def ReadShortBytes_def BytesBinaryParser_def
    by (intro fuelled_rbind fuelled_ints fuelled_readers int_bounded; simp add: fuelled_def split: option.split)+
  show "fuelled n ReadShortVector" and l: "fuelled n ReadStringList"
    unfolding ReadShortVector_def ReadStringList_def ListBinaryParser_def
    by (intro fuelled_intros fuelled_ints int_bounded container_bounded)+
  have "fuelled n (MapBinaryParser_loop ReadString ReadStringList k m)" for k m
    by (induction k arbitrary: m) (auto intro!: fuelled_intros l container_bounded simp del: rret_apply)
  then show "fuelled n ReadStringMultiMap"
    unfolding ReadStringMultiMap_def MapBinaryParser_def by (intro fuelled_intros int_bounded)
qed

lemma fuelled_ColumnOption: "fuelled n ColumnOption_Parse"
proof -
  have "ColumnOption_Parse_fuel (Suc (length data - off)) data off \<noteq> Inl OutOfFuel"
    if "buffer_ok data" "off \<le> length data" for data off
    using fuelled_option_fuel [of "Suc (length data - off)"] that
    unfolding fuelled_def by (blast intro: lessI)
  then show ?thesis by (simp add: fuelled_def ColumnOption_Parse_def del: ColumnOption_Parse_fuel.simps)
qed

lemma vec_reserve_safe: "fuelled n (vec_reserve w)" "bounded_reader (vec_reserve w)"
  by (auto simp: vec_reserve_def fuelled_def intro!: bounded_intros simp del: rret_apply rfail_apply) simp_all

lemma column_safe: "fuelled n (ResultColumn_Parse g)" "bounded_reader (ResultColumn_Parse g)"
  unfolding ResultColumn_Parse_def
  by (auto split: prod.split simp del: rret_apply
      intro!: fuelled_intros bounded_intros container_bounded fuelled_ColumnOption bounded_ColumnOption_Parse)

lemma spec_safe: "fuelled n (ReadGlobalSpec flags)" "bounded_reader (ReadGlobalSpec flags)"
  unfolding ReadGlobalSpec_def
  by (auto simp del: rret_apply intro!: fuelled_intros bounded_intros container_bounded)

lemmas result_safe = fuelled_intros bounded_intros int_bounded container_bounded fuelled_ints fuelled_containers
  vec_reserve_safe column_safe spec_safe

lemma ParseRows_safe: "fuelled n ParseRows" "bounded_reader ParseRows"
  unfolding ParseRows_def
  by (intro result_safe; (auto split: prod.split simp del: rret_apply intro!: result_safe)?)+

lemma PreparedKind_safe: "fuelled n PreparedKind_Parse" "bounded_reader PreparedKind_Parse"
  unfolding PreparedKind_Parse_def by (auto split: prod.split simp del: rret_apply intro!: result_safe)

lemma SchemaChange_safe: "fuelled n SchemaChange_Parse" "bounded_reader SchemaChange_Parse"
  unfolding SchemaChange_Parse_def Let_def by (auto simp del: rret_apply intro!: result_safe)

lemma result_message_safe: "fuelled n ResultMessage_read" "bounded_reader ResultMessage_read"
  unfolding ResultMessage_read_def ParseSetKeyspace_def
  by (auto simp del: rret_apply intro!: result_safe ParseRows_safe PreparedKind_safe SchemaChange_safe)

section \<open>The shape of parsed rows\<close>

lemma rrepeat_all:
  assumes "rrepeat n p data off = Inr (xs, off')" "\<And>off x off'. p data off = Inr (x, off') \<Longrightarrow> P x"
  shows "\<forall>x \<in> set xs. P x"
  using assms by (induction n arbitrary: off xs off') (auto simp: rbind_eq_Inr)

lemma ReadBytes_length: "ReadBytes data off = Inr (x, off') \<Longrightarrow> length x < 2 ^ 31"
  using sint_int_bounds(2)
  by (auto simp: ReadBytes_def BytesBinaryParser_def rbind_eq_Inr memcpy_from_def nat_less_iff
      split: if_splits option.splits)

lemma vec_reserve_Inr: "vec_reserve w data off = Inr r \<Longrightarrow> 0 \<le> sint w"
  using Int_to_size_t_negative(2) [of w] by (fastforce simp: vec_reserve_def split: if_splits)

definition rectangular :: "32 word \<Rightarrow> RawBuffer list list \<Rightarrow> bool" where
  "rectangular columns rows \<longleftrightarrow>
     (\<forall>row \<in> set rows. length row = loop_count columns \<and> (\<forall>c \<in> set row. length c < 2 ^ 31))"

lemma ParseRows_shape:
  assumes "ParseRows data off = Inr (r, off')"
  shows "0 \<le> sint (rk_rows_count r) \<and> length (rk_rows_content r) = loop_count (rk_rows_count r) \<and>
    rectangular (rk_columns_count r) (rk_rows_content r)"
proof -
  from assms obtain columns rows content o1 o2 o3 where p:
    "vec_reserve rows data o1 = Inr ((), o2)"
    "rrepeat (loop_count rows) (rrepeat (loop_count columns) ReadBytes) data o2 = Inr (content, o3)"
    "rk_rows_count r = rows" "rk_columns_count r = columns" "rk_rows_content r = content"
    unfolding ParseRows_def rbind_eq_Inr by (auto simp: rbind_eq_Inr split: prod.splits)
  have "\<forall>row \<in> set content. length row = loop_count columns \<and> (\<forall>c \<in> set row. length c < 2 ^ 31)"
  proof (rule rrepeat_all [OF p(2)])
    fix o4 row o5
    assume row: "rrepeat (loop_count columns) ReadBytes data o4 = Inr (row, o5)"
    then have "\<forall>c \<in> set row. length c < 2 ^ 31" by (rule rrepeat_all) (rule ReadBytes_length)
    with rrepeat_length [OF row] show "length row = loop_count columns \<and> (\<forall>c \<in> set row. length c < 2 ^ 31)" by simp
  qed
  with p vec_reserve_Inr [OF p(1)] rrepeat_length [OF p(2)] show ?thesis by (simp add: rectangular_def)
qed

lemma ResultMessage_accessors:
  assumes "ResultMessage_read data off = Inr ((kind, payload), off')"
  obtains (rows) r where "kind = ResultKind_value kRows" "payload = RowPayload r" "0 \<le> sint (rk_rows_count r)"
      "length (rk_rows_content r) = loop_count (rk_rows_count r)" "rectangular (rk_columns_count r) (rk_rows_content r)"
  | (prepared) p where "kind = ResultKind_value kPrepared" "payload = PreparedPayload p"
  | (other) "kind \<noteq> ResultKind_value kRows" "kind \<noteq> ResultKind_value kPrepared"
proof (cases "kind = ResultKind_value kRows")
  case True
  with assms obtain r o1 where p: "payload = RowPayload r" and r: "ParseRows data o1 = Inr (r, off')"
    by (auto simp: ResultMessage_read_def rbind_eq_Inr simp del: ResultKind_value.simps split: if_splits)
  from ParseRows_shape [OF r] show ?thesis by (intro rows [OF True p]) blast+
next
  case False
  with assms show ?thesis
    by (cases "kind = ResultKind_value kPrepared")
       (auto simp: ResultMessage_read_def rbind_eq_Inr simp del: ResultKind_value.simps split: if_splits
         intro: prepared other)
qed

text \<open>Reading a cell of ordinary size never leaves the cell.\<close>

lemma Read_cell_safe: "length c < 2 ^ 31 \<Longrightarrow> Read_cell t c = Inl (UB u) \<Longrightarrow> u = InvalidBool"
proof -
  assume "length c < 2 ^ 31"
  then have ok: "buffer_ok c" by (simp add: buffer_ok_def)
  have int: "ReadByte c 0 \<noteq> Inl (UB v)" "ReadShort c 0 \<noteq> Inl (UB v)" "ReadInt c 0 \<noteq> Inl (UB v)"
    "ReadBigInt c 0 \<noteq> Inl (UB v)" for v
    using chk_byte.checked [of 0 c "UB v"] chk_short.checked [of 0 c "UB v"] chk_int.checked [of 0 c "UB v"]
      chk_bigint.checked [of 0 c "UB v"] ok by auto
  assume "Read_cell t c = Inl (UB u)"
  with int show "u = InvalidBool"
    by (cases t) (auto simp: IntegralBinaryParser_Bytes_def CommonStringBinaryParser_Bytes_def ReadBoolean_def
        res_bind_eq_Inl rbind_eq_Inl split: if_splits)
qed

lemma res_all_safe:
  "\<forall>r \<in> set rs. \<forall>u. r = Inl (UB u) \<longrightarrow> u = v \<Longrightarrow> res_all rs = Inl (UB u) \<Longrightarrow> u = v"
  by (induction rs) (auto simp: res_bind_eq_Inl)

lemma AsContainer_loop_safe:
  assumes "0 \<le> sint n" "rectangular n rows" "AsContainer_loop ts n rows = Inl (UB u)"
  shows "u = InvalidBool"
  using assms(2,3)
proof (induction rows)
  case (Cons row rows)
  have len: "length row = loop_count n" using Cons.prems by (simp add: rectangular_def)
  with assms(1) sint_int_bounds(2) [of n] have n: "n = word_of_nat (length row)" "length row < 2 ^ 31"
    by (simp_all add: nat_less_iff)
  have cells: "\<forall>c \<in> set row. length c < 2 ^ 31" using Cons.prems by (simp add: rectangular_def)
  have "\<forall>r \<in> set (map2 Read_cell ts row). \<forall>u. r = Inl (UB u) \<longrightarrow> u = InvalidBool"
    using Read_cell_safe cells by (auto dest!: set_zip_rightD)
  then have row: "v = InvalidBool" if "Row_As_Row ts \<lparr>row_content = row, row_columns_count = n\<rparr> = Inl (UB v)" for v
    using that Row_As_Row_eq [OF n(2), of ts] n(1) res_all_safe [of "map2 Read_cell ts row" InvalidBool v]
    by (simp split: if_splits)
  from Cons.prems(1) have "rectangular n rows" by (simp add: rectangular_def)
  with Cons.IH Cons.prems(2) row show ?case by (auto simp: res_bind_eq_Inl)
qed simp

section \<open>Properties of responses\<close>

text \<open>C2: The body of a RESULT of kind ROWS, with or without metadata, paging state and global table
  specification, is parsed back completely, and the result set made from it has the server's rows,
  cell by cell, with the announced counts; bytes after it are ignored.\<close>

theorem rows_response_roundtrip:
  assumes "wf_rows r" "length (enc_result (RowPayload r) @ post) < 2 ^ 63"
  shows "\<exists>kind payload. DoParseBody ResultClass (enc_result (RowPayload r) @ post) = Inr (ResultMessage kind payload) \<and>
    payload = RowPayload r \<and>
    GetResultSet (kind, payload) = Inr (Some \<lparr>rows_content = rk_rows_content r,
      columns_count = rk_columns_count r, rows_count = rk_rows_count r\<rparr>)"
  using parse_result [of "RowPayload r" post] assms by (simp add: GetResultSet_def)

definition example_rows :: RowKind where
  "example_rows = \<lparr>rk_flags = 5, rk_columns_count = 2, rk_paging_state = [], rk_global_key_space = [],
     rk_global_table = [], rk_columns = [], rk_rows_count = 1, rk_rows_content = [[[0, 0, 0, 7], str ''x'']]\<rparr>"

theorem rows_response_roundtrip_witness:
  "\<exists>kind payload. DoParseBody ResultClass (enc_result (RowPayload example_rows) @ [1]) = Inr (ResultMessage kind payload) \<and>
    payload = RowPayload example_rows \<and>
    GetResultSet (kind, payload) = Inr (Some \<lparr>rows_content = rk_rows_content example_rows,
      columns_count = rk_columns_count example_rows, rows_count = rk_rows_count example_rows\<rparr>)"
  by (rule rows_response_roundtrip)
     (simp_all add: example_rows_def wf_rows_def wf_long_string_def kNoMetadata_def kHasMorePages_def
       enc_result_def enc_rows_def enc_long_string_def enc_int_len_def)

text \<open>The body of a RESULT of kind PREPARED gives the statement identifier back, together with the
  flags, the partition key indexes and the bound columns; the result metadata the server sends
  after them is left unread.\<close>

theorem prepared_response_roundtrip:
  assumes "wf_prepared p" "length (enc_result (PreparedPayload p) @ result_metadata) < 2 ^ 63"
  shows "\<exists>kind payload. DoParseBody ResultClass (enc_result (PreparedPayload p) @ result_metadata) =
      Inr (ResultMessage kind payload) \<and>
    payload = PreparedPayload p \<and> GetPreparedStatementId (kind, payload) = Inr (pk_id p)"
  using parse_result [of "PreparedPayload p" result_metadata] assms by (simp add: GetPreparedStatementId_def)

definition example_prepared :: PreparedKind where
  "example_prepared = \<lparr>pk_id = [1, 2, 3], pk_flags = 1, pk_column_count = 1, pk_partition_key_count = 1,
     pk_partition_key_indexes = [0], pk_global_key_space = str ''ks'', pk_global_table = str ''t'',
     pk_columns = [\<lparr>col_key_space = [], col_table = [], col_name = str ''id'', col_type = ColumnOption 9 None\<rparr>]\<rparr>"

theorem prepared_response_roundtrip_witness:
  "\<exists>kind payload. DoParseBody ResultClass (enc_result (PreparedPayload example_prepared) @ [0, 0, 0, 4]) =
      Inr (ResultMessage kind payload) \<and>
    payload = PreparedPayload example_prepared \<and> GetPreparedStatementId (kind, payload) = Inr (pk_id example_prepared)"
  by (rule prepared_response_roundtrip)
     (simp_all add: example_prepared_def wf_prepared_def wf_spec_def wf_column_def wf_string_def wf_list_def
       kGlobalTableSpec_def payload_matches_def ColumnType_of_def ColumnTypes_def
       enc_result_def enc_prepared_def enc_spec_def enc_column_def enc_string_def enc_list_def enc_int_len_def enc_short_len_def)

text \<open>C23: Whatever bytes a server sends, a parsed RESULT answers its accessors without an exception;
  a result set made from it has exactly the announced number of rows, each with the announced number
  of cells, so extracting its rows into structs of any shape never reads outside a row or a cell.
  The only undefined behaviour left is a boolean cell that is neither 0 nor 1.\<close>

theorem parsed_rows_safe:
  assumes "DoParseBody ResultClass buffer = Inr (ResultMessage kind payload)"
  shows "\<exists>rs id. GetResultSet (kind, payload) = Inr rs \<and> GetPreparedStatementId (kind, payload) = Inr id \<and>
    (\<forall>w. rs = Some w \<longrightarrow>
       int (length (rows_content w)) = sint (rows_count w) \<and>
       (\<forall>row \<in> set (rows_content w). length row = nat (sint (columns_count w))) \<and>
       (0 \<le> sint (columns_count w) \<longrightarrow> (\<forall>ts u. AsContainer ts rs = Inl (UB u) \<longrightarrow> u = InvalidBool)))"
proof -
  from assms obtain off' where "ResultMessage_read buffer 0 = Inr ((kind, payload), off')"
    by (auto simp: res_bind_eq_Inr split: prod.splits)
  then show ?thesis
  proof (cases rule: ResultMessage_accessors)
    case (rows r)
    have "u = InvalidBool" if "0 \<le> sint (rk_columns_count r)"
      "AsContainer_loop ts (rk_columns_count r) (rk_rows_content r) = Inl (UB u)" for ts u
      by (rule AsContainer_loop_safe [OF that(1) rows(5) that(2)])
    with rows show ?thesis
      by (auto simp: GetResultSet_def GetPreparedStatementId_def AsContainer_def rectangular_def)
  next
    case (prepared p)
    then show ?thesis by (simp add: GetResultSet_def GetPreparedStatementId_def)
  next
    case other
    then show ?thesis by (simp add: GetResultSet_def GetPreparedStatementId_def)
  qed
qed

theorem parsed_rows_safe_witness:
  "\<exists>rs id. GetResultSet (1, VoidPayload) = Inr rs \<and> GetPreparedStatementId (1, VoidPayload) = Inr id \<and>
    (\<forall>w. rs = Some w \<longrightarrow>
       int (length (rows_content w)) = sint (rows_count w) \<and>
       (\<forall>row \<in> set (rows_content w). length row = nat (sint (columns_count w))) \<and>
       (0 \<le> sint (columns_count w) \<longrightarrow> (\<forall>ts u. AsContainer ts rs = Inl (UB u) \<longrightarrow> u = InvalidBool)))"
  by (rule parsed_rows_safe [where buffer = "enc_result VoidPayload"])
     (use parse_result [of VoidPayload "[]"] in \<open>simp add: enc_result_def\<close>)

text \<open>Parsing a response body returns for every class of response, every compressor and all bytes:
  it ends in a value, an exception or an access fault, and never exhausts the fuel of the recursive
  parser of column types.\<close>

theorem parse_body_returns:
  assumes "length buffer < 2 ^ 63"
  shows "ParseBody compressor c buffer \<noteq> Inl OutOfFuel"
proof -
  have read: "p data 0 \<noteq> Inl OutOfFuel" if "length data < 2 ^ 63" "\<And>n. fuelled n p" for p :: "'a rd" and data
    using that(1) that(2) [of "Suc (length data)"] unfolding fuelled_def buffer_ok_def by simp
  have parse: "DoParseBody c data \<noteq> Inl OutOfFuel" if "length data < 2 ^ 63" for data
  proof (cases c)
    case ErrorClass
    have "fuelled n (rbind ReadInt (\<lambda>code. rbind ReadString (\<lambda>message. rret (ErrorMessage code message))))" for n
      by (auto intro!: result_safe simp del: rret_apply)
    with read [OF that] ErrorClass show ?thesis by (auto simp: res_bind_eq_Inl split: prod.splits simp del: rret_apply)
  next
    case ReadyClass
    then show ?thesis by simp
  next
    case AuthentificateClass
    with read [OF that fuelled_readers(2)] show ?thesis by (auto simp: res_bind_eq_Inl split: prod.splits)
  next
    case SupportClass
    with read [OF that fuelled_containers(5)] show ?thesis by (auto simp: res_bind_eq_Inl split: prod.splits)
  next
    case ResultClass
    with read [OF that result_message_safe(1)] show ?thesis by (auto simp: res_bind_eq_Inl split: prod.splits)
  qed
  show ?thesis
  proof (cases compressor)
    case None
    with parse [OF assms] show ?thesis by (simp add: ParseBody_def)
  next
    case (Some L)
    have "length out < 2 ^ 63" if d: "Lz4Compressor_Decompress L buffer = Inr out" for out
    proof -
      from d obtain n off o1 where "memcpy_to (replicate n 0) off o1 = Some out" "n \<le> max_size"
        by (auto simp: Lz4Compressor_Decompress_def res_bind_eq_Inr Let_def split: prod.splits if_splits option.splits)
      then show ?thesis by (auto dest: memcpy_to_length)
    qed
    moreover have "Lz4Compressor_Decompress L buffer \<noteq> Inl OutOfFuel"
      using read [OF assms fuelled_ints]
      by (auto simp: Lz4Compressor_Decompress_def res_bind_eq_Inl Let_def split: prod.splits if_splits option.splits)
    ultimately show ?thesis using Some parse by (auto simp: ParseBody_def res_bind_eq_Inl)
  qed
qed

theorem parse_body_returns_witness: "ParseBody (Some stored_lz4) ResultClass [0, 0, 0, 1, 0, 7] \<noteq> Inl OutOfFuel"
  by (rule parse_body_returns) simp

text \<open>C25: An ERROR frame the server sends is turned into the exception whose class carries exactly the
  code on the wire, with the server's message; for a code the driver does not list no exception is
  thrown. Frames of other opcodes pass the check.\<close>

theorem error_frame_exception:
  assumes "wf_string msg" "GetResponseMessageFromHeader h = Inr c" "hdr_opcode h = Opcode_value kError"
  shows "\<exists>body. ParseBody None c (enc_int code @ enc_string msg) = Inr body \<and>
    CheckError \<lparr>rsp_header = h, rsp_body = body\<rparr> =
      (case ErrorCode_of code of
         None \<Rightarrow> Inr ()
       | Some e \<Rightarrow> Inl (Throw (FrameError (error_exception e) msg))) \<and>
    (\<forall>e. ErrorCode_of code = Some e \<longrightarrow> ErrorCode_value (frame_exception_code (error_exception e)) = code)"
proof -
  have c: "c = ErrorClass"
    using assms(2,3) by (simp add: GetResponseMessageFromHeader_def Opcode_of_value split: if_splits del: Opcode_value.simps)
  have "decodes (rbind ReadInt (\<lambda>code. rbind ReadString (\<lambda>message. rret (ErrorMessage code message))))
      (enc_int code @ enc_string msg) (ErrorMessage code msg)"
    by (intro decodes_rbind [OF int_decodes(3)] decodes_rbind_last io_string.decodes_enc assms(1))
  from decodes_start [OF this, of "[]"] have "ParseBody None c (enc_int code @ enc_string msg) = Inr (ErrorMessage code msg)"
    using assms(1) c by (simp add: ParseBody_def buffer_ok_def enc_string_def wf_string_def enc_short_len_def)
  moreover have "ErrorCode_value (frame_exception_code (error_exception e)) = code" if "ErrorCode_of code = Some e" for e
    using ErrorCode_of_Some [OF that] by (cases e) simp_all
  ultimately show ?thesis using assms(3) by (simp add: CheckError_def split: option.split)
qed

theorem error_frame_exception_witness:
  "\<exists>body. ParseBody None ErrorClass (enc_int (0x2500 :: 32 word) @ enc_string (str ''no'')) = Inr body \<and>
    CheckError \<lparr>rsp_header = (FrameHeader_init kError)\<lparr>hdr_version := 0x84\<rparr>, rsp_body = body\<rparr> =
      Inl (Throw (FrameError Unprepared (str ''no'')))"
  using error_frame_exception [of "str ''no''" "(FrameHeader_init kError)\<lparr>hdr_version := 0x84\<rparr>" ErrorClass "0x2500"]
  by (simp add: wf_string_def GetResponseMessageFromHeader_def FrameHeader_init_def ErrorCode_of_def ErrorCodes_def
      Opcode_of_def Opcodes_def)



end
