(* ===== verification/Cql_Stream_Pool.thy ===== *)
theory Cql_Stream_Pool
  imports Cql_Exceptions "HOL-Library.Multiset"
begin

text \<open>
  The pool of stream numbers of a connection (\<open>src/detail/stream_pool.hpp\<close>, \<open>stream_pool.cpp\<close>). The
  queue of free numbers is userver's \<open>NonFifoMpmcQueue<int>\<close>, a parameter of the model; what the pool
  relies on is \<open>queue_contract\<close>. The requests of a connection share the pool: \<open>stream_step\<close> interleaves
  the constructor and the destructor of \<open>StreamGuard\<close> in any order.
\<close>

section \<open>The queue\<close>

record 'q queue_lib =
  queue_Create :: "nat \<Rightarrow> 'q"
  queue_PushNoblock :: "int \<Rightarrow> 'q \<Rightarrow> bool \<times> 'q"
  queue_Pop :: "'q \<Rightarrow> (int \<times> 'q) option"
  queue_GetSizeApproximate :: "'q \<Rightarrow> nat"

text \<open>
  The documented behaviour, with the content and the capacity of a queue as ghost functions: a push
  succeeds exactly when there is room; a pop takes out some element, in no particular order, and fails
  at its deadline when there is none; the size is that of the content.
\<close>

definition queue_contract :: "'q queue_lib \<Rightarrow> ('q \<Rightarrow> int multiset) \<Rightarrow> ('q \<Rightarrow> nat) \<Rightarrow> bool" where
  "queue_contract Q content capacity \<longleftrightarrow>
     (\<forall>n. content (queue_Create Q n) = {#} \<and> capacity (queue_Create Q n) = n) \<and>
     (\<forall>x q. case queue_PushNoblock Q x q of (ok, q') \<Rightarrow>
        capacity q' = capacity q \<and> ok = (size (content q) < capacity q) \<and>
        content q' = (if ok then add_mset x (content q) else content q)) \<and>
     (\<forall>q. case queue_Pop Q q of
        None \<Rightarrow> content q = {#}
      | Some (x, q') \<Rightarrow> content q = add_mset x (content q') \<and> capacity q' = capacity q) \<and>
     (\<forall>q. queue_GetSizeApproximate Q q = size (content q))"

section \<open>The pool\<close>

abbreviation kMaxStreams :: nat where
  "kMaxStreams \<equiv> 1024"

text \<open>The constructor pushes the numbers from 0 upwards, ignoring the results.\<close>

fun StreamPool_fill :: "'q queue_lib \<Rightarrow> int list \<Rightarrow> 'q \<Rightarrow> 'q" where
  "StreamPool_fill Q [] q = q"
| "StreamPool_fill Q (i # is) q = StreamPool_fill Q is (snd (queue_PushNoblock Q i q))"

definition StreamPool :: "'q queue_lib \<Rightarrow> 'q" where
  "StreamPool Q = StreamPool_fill Q (map int [0..<kMaxStreams]) (queue_Create Q kMaxStreams)"

text \<open>The popped \<open>int\<close> is returned as an \<open>int16_t\<close>.\<close>

definition StreamPool_Acquire :: "'q queue_lib \<Rightarrow> 'q \<Rightarrow> (int \<times> 'q) res" where
  "StreamPool_Acquire Q q =
     (case queue_Pop Q q of
        None \<Rightarrow> Inl (Throw (ConnectionError ''StreamPool exhausted''))
      | Some (i, q') \<Rightarrow> Inr (sint (word_of_int i :: 16 word), q'))"

text \<open>A failed push is only logged: the model returns whether it succeeded beside the new queue.\<close>

definition StreamPool_Release :: "'q queue_lib \<Rightarrow> int \<Rightarrow> 'q \<Rightarrow> bool \<times> 'q" where
  "StreamPool_Release Q i q = queue_PushNoblock Q i q"

definition GetRemainingStreams :: "'q queue_lib \<Rightarrow> 'q \<Rightarrow> nat" where
  "GetRemainingStreams Q q = queue_GetSizeApproximate Q q"

definition GetUsedStreams :: "'q queue_lib \<Rightarrow> 'q \<Rightarrow> nat" where
  "GetUsedStreams Q q = nat ((int kMaxStreams - int (GetRemainingStreams Q q)) mod 2 ^ 64)"

section \<open>Interleaved requests\<close>

text \<open>
  A state is the queue and the stream numbers of the guards that are alive. A guard takes a number when
  it is constructed and gives it back when it is destroyed; a constructor that throws leaves no guard.
\<close>

type_synonym 'q stream_state = "'q \<times> int list"

inductive stream_step :: "'q queue_lib \<Rightarrow> 'q stream_state \<Rightarrow> 'q stream_state \<Rightarrow> bool" for Q where
  acquire: "StreamPool_Acquire Q q = Inr (i, q') \<Longrightarrow> stream_step Q (q, held) (q', i # held)"
| exhausted: "StreamPool_Acquire Q q = Inl f \<Longrightarrow> stream_step Q (q, held) (q, held)"
| release: "i \<in> set held \<Longrightarrow> StreamPool_Release Q i q = (ok, q') \<Longrightarrow>
    stream_step Q (q, held) (q', remove1 i held)"

inductive_cases stream_stepE: "stream_step Q (q, held) s'"

inductive stream_reachable :: "'q queue_lib \<Rightarrow> 'q stream_state \<Rightarrow> bool" for Q where
  init: "stream_reachable Q (StreamPool Q, [])"
| step: "stream_reachable Q s \<Longrightarrow> stream_step Q s s' \<Longrightarrow> stream_reachable Q s'"

section \<open>Every number is free or held by one guard\<close>

abbreviation all_streams :: "int multiset" where
  "all_streams \<equiv> mset (map int [0..<kMaxStreams])"

definition stream_inv :: "('q \<Rightarrow> int multiset) \<Rightarrow> ('q \<Rightarrow> nat) \<Rightarrow> 'q stream_state \<Rightarrow> bool" where
  "stream_inv content capacity s \<longleftrightarrow>
     content (fst s) + mset (snd s) = all_streams \<and> capacity (fst s) = kMaxStreams"

lemma queue_contractD:
  assumes "queue_contract Q content capacity"
  shows "content (queue_Create Q n) = {#}" "capacity (queue_Create Q n) = n"
    "queue_PushNoblock Q x q = (ok, q') \<Longrightarrow> capacity q' = capacity q \<and> ok = (size (content q) < capacity q) \<and>
       content q' = (if ok then add_mset x (content q) else content q)"
    "queue_Pop Q q = Some (x, q') \<Longrightarrow> content q = add_mset x (content q') \<and> capacity q' = capacity q"
    "queue_Pop Q q = None \<Longrightarrow> content q = {#}"
    "queue_GetSizeApproximate Q q = size (content q)"
  using assms unfolding queue_contract_def by (force split: prod.splits option.splits)+

lemma StreamPool_fill_content:
  assumes Q: "queue_contract Q content capacity"
  shows "size (content q) + length is \<le> capacity q \<Longrightarrow>
    content (StreamPool_fill Q is q) = content q + mset is \<and> capacity (StreamPool_fill Q is q) = capacity q"
proof (induction "is" arbitrary: q)
  case (Cons i "is")
  obtain ok q' where p: "queue_PushNoblock Q i q = (ok, q')" by fastforce
  from queue_contractD(3) [OF Q p] Cons.prems
  have "content q' = add_mset i (content q)" "capacity q' = capacity q" by auto
  with Cons.IH [of q'] Cons.prems p show ?case by simp
qed simp

lemma stream_inv_init: "queue_contract Q content capacity \<Longrightarrow> stream_inv content capacity (StreamPool Q, [])"
  using StreamPool_fill_content [of Q content capacity "queue_Create Q kMaxStreams" "map int [0..<kMaxStreams]"]
  by (simp add: stream_inv_def StreamPool_def queue_contractD(1,2) del: mset_map)

lemma in_all_streams: "i \<in># all_streams \<Longrightarrow> 0 \<le> i \<and> i < int kMaxStreams"
  by (auto simp del: upt_rec_numeral upt_Suc)

lemma stream_word: "i \<in># all_streams \<Longrightarrow> sint (word_of_int i :: 16 word) = i"
  using in_all_streams [of i] by (simp add: signed_of_int signed_take_bit_int_eq_self)

lemma stream_inv_step:
  assumes Q: "queue_contract Q content capacity" and inv: "stream_inv content capacity s"
    and step: "stream_step Q s s'"
  shows "stream_inv content capacity s'"
  using step inv
proof cases
  case (acquire q i q' held)
  then obtain j where j: "queue_Pop Q q = Some (j, q')" "i = sint (word_of_int j :: 16 word)"
    by (auto simp: StreamPool_Acquire_def split: option.splits)
  have c: "content q = add_mset j (content q')" "capacity q' = capacity q"
    using queue_contractD(4) [OF Q j(1)] by auto
  have all: "content q + mset held = all_streams" using inv acquire by (simp add: stream_inv_def del: mset_map)
  then have "j \<in># all_streams" using c by (metis add_mset_add_single union_iff union_single_eq_member)
  with j have "i = j" using stream_word by blast
  with c all inv acquire show ?thesis by (simp add: stream_inv_def del: mset_map)
next
  case (exhausted q f held)
  with inv show ?thesis by simp
next
  case (release i held q ok q')
  have all: "content q + mset held = all_streams" "capacity q = kMaxStreams"
    using inv release by (simp_all add: stream_inv_def del: mset_map)
  have "mset held = add_mset i (mset (remove1 i held))" using release by simp
  moreover have "size (content q) + length held = kMaxStreams"
    using arg_cong [OF all(1), of size] by simp
  moreover have "0 < length held" using release by (auto intro: length_pos_if_in_set)
  ultimately have "size (content q) < kMaxStreams" "mset held = add_mset i (mset (remove1 i held))" by linarith+
  then show ?thesis
    using queue_contractD(3) [OF Q, of i q ok q'] all release
    by (simp add: stream_inv_def StreamPool_Release_def del: mset_map mset_remove1)
qed

lemma stream_inv_reachable:
  assumes "queue_contract Q content capacity" "stream_reachable Q s"
  shows "stream_inv content capacity s"
  using assms(2) by induction (auto intro: stream_inv_init stream_inv_step assms(1))

lemma stream_inv_held:
  assumes "stream_inv content capacity (q, held)"
  shows "distinct held" "\<forall>i \<in> set held. 0 \<le> i \<and> i < 1024" "size (content q) + length held = 1024"
proof -
  have all: "content q + mset held = all_streams" using assms by (simp add: stream_inv_def del: mset_map)
  have "mset held \<subseteq># all_streams" by (metis all mset_subset_eq_add_right)
  then obtain rest where "all_streams = mset (held @ rest)"
    by (metis ex_mset mset_append subset_mset.le_iff_add)
  moreover have "distinct (map int [0..<kMaxStreams])" by (simp add: distinct_map del: upt_rec_numeral)
  ultimately show "distinct held" by (metis distinct_append mset_eq_imp_distinct_iff)
  show "\<forall>i \<in> set held. 0 \<le> i \<and> i < 1024"
    using in_all_streams all by (metis of_nat_numeral set_mset_mset union_iff)
  show "size (content q) + length held = 1024" using arg_cong [OF all, of size] by simp
qed

lemma queue_Pop_None: "queue_contract Q content capacity \<Longrightarrow> queue_Pop Q q = None \<longleftrightarrow> size (content q) = 0"
  using queue_contractD(4,5) [of Q content capacity q] by (cases "queue_Pop Q q") auto

section \<open>Properties of the pool\<close>

text \<open>A queue that keeps its content in a list meets the contract.\<close>

definition list_queue :: "(int list \<times> nat) queue_lib" where
  "list_queue = \<lparr>queue_Create = (\<lambda>n. ([], n)),
     queue_PushNoblock = (\<lambda>x (xs, n). if length xs < n then (True, (xs @ [x], n)) else (False, (xs, n))),
     queue_Pop = (\<lambda>(xs, n). case xs of [] \<Rightarrow> None | x # ys \<Rightarrow> Some (x, (ys, n))),
     queue_GetSizeApproximate = (\<lambda>(xs, n). length xs)\<rparr>"

lemma list_queue_contract: "queue_contract list_queue (\<lambda>(xs, n). mset xs) snd"
  by (auto simp: queue_contract_def list_queue_def split: list.splits prod.splits)

lemma list_queue_fill:
  "length xs + length is \<le> n \<Longrightarrow> StreamPool_fill list_queue is (xs, n) = (xs @ is, n)"
  by (induction "is" arbitrary: xs) (simp_all add: list_queue_def)

lemma list_queue_one_request: "stream_reachable list_queue ((map int [1..<kMaxStreams], kMaxStreams), [0])"
proof (rule stream_reachable.step [OF stream_reachable.init], rule stream_step.acquire)
  have "map int [0..<kMaxStreams] = 0 # map int [1..<kMaxStreams]"
    by (subst upt_rec) (simp del: upt_rec_numeral)
  moreover have "queue_Create list_queue kMaxStreams = ([], kMaxStreams)" by (simp add: list_queue_def)
  ultimately have "StreamPool list_queue = (0 # map int [1..<kMaxStreams], kMaxStreams)"
    using list_queue_fill [of "[]" "map int [0..<kMaxStreams]" kMaxStreams]
    by (simp add: StreamPool_def del: upt_rec_numeral StreamPool_fill.simps)
  then show "StreamPool_Acquire list_queue (StreamPool list_queue) = Inr (0, map int [1..<kMaxStreams], kMaxStreams)"
    by (simp add: StreamPool_Acquire_def list_queue_def del: upt_rec_numeral)
qed

lemma GetUsedStreams_held:
  assumes "queue_contract Q content capacity" "stream_reachable Q (q, held)"
  shows "GetUsedStreams Q q = length held"
  using stream_inv_held(3) [OF stream_inv_reachable [OF assms]] queue_contractD(6) [OF assms(1), of q]
  by (simp add: GetUsedStreams_def GetRemainingStreams_def)

text \<open>C9: In every interleaving of requests on a connection, no two live requests hold the same stream
  number, every held number is between 0 and 1023, and the number of used streams the pool reports is
  the number of live requests, so a connection is idle exactly when none is alive.\<close>

theorem stream_ids_unique:
  assumes "queue_contract Q content capacity" "stream_reachable Q (q, held)"
  shows "distinct held \<and> (\<forall>i \<in> set held. 0 \<le> i \<and> i < 1024) \<and> GetUsedStreams Q q = length held"
  using stream_inv_held [OF stream_inv_reachable [OF assms]] GetUsedStreams_held [OF assms] by blast

theorem stream_ids_unique_witness:
  "stream_reachable list_queue ((map int [1..<kMaxStreams], kMaxStreams), [0]) \<and> distinct [0 :: int] \<and>
    GetUsedStreams list_queue (map int [1..<kMaxStreams], kMaxStreams) = length [0 :: int]"
  using stream_ids_unique [OF list_queue_contract list_queue_one_request] list_queue_one_request by blast

text \<open>A request gets a stream number exactly when fewer than 1024 are alive, and otherwise the
  exception "StreamPool exhausted"; giving a held number back never fails.\<close>

theorem stream_pool_progress:
  assumes "queue_contract Q content capacity" "stream_reachable Q (q, held)"
  shows "(if length held < 1024 then \<exists>i q'. StreamPool_Acquire Q q = Inr (i, q')
     else StreamPool_Acquire Q q = Inl (Throw (ConnectionError ''StreamPool exhausted''))) \<and>
    (\<forall>i \<in> set held. fst (StreamPool_Release Q i q))"
proof -
  have inv: "stream_inv content capacity (q, held)" by (rule stream_inv_reachable [OF assms])
  have n: "size (content q) + length held = 1024" by (rule stream_inv_held(3) [OF inv])
  have "fst (StreamPool_Release Q i q)" if "i \<in> set held" for i
  proof -
    obtain ok q' where p: "queue_PushNoblock Q i q = (ok, q')" by fastforce
    have "0 < length held" using that by auto
    with queue_contractD(3) [OF assms(1) p] n inv p show ?thesis
      by (simp add: StreamPool_Release_def stream_inv_def del: mset_map)
  qed
  moreover have "queue_Pop Q q = None \<longleftrightarrow> \<not> length held < 1024"
    unfolding queue_Pop_None [OF assms(1)] using n by linarith
  ultimately show ?thesis
    by (cases "queue_Pop Q q") (auto simp: StreamPool_Acquire_def)
qed

theorem stream_pool_progress_witness:
  "(if length [0 :: int] < 1024
     then \<exists>i q'. StreamPool_Acquire list_queue (map int [1..<kMaxStreams], kMaxStreams) = Inr (i, q')
     else StreamPool_Acquire list_queue (map int [1..<kMaxStreams], kMaxStreams) =
       Inl (Throw (ConnectionError ''StreamPool exhausted''))) \<and>
    fst (StreamPool_Release list_queue 0 (map int [1..<kMaxStreams], kMaxStreams))"
proof -
  note p = stream_pool_progress [OF list_queue_contract list_queue_one_request]
  from conjunct2 [OF p] have "fst (StreamPool_Release list_queue 0 (map int [1..<kMaxStreams], kMaxStreams))"
    by (rule bspec) simp
  with conjunct1 [OF p] show ?thesis by (rule conjI)
qed

end
