(* ===== verification/Cql_Connection.thy ===== *)
theory Cql_Connection
  imports Cql_Request Cql_Response Cql_Stream_Pool
begin

unbundle bit_operations_syntax

text \<open>
  One connection to a node (\<open>src/detail/connection_impl.hpp\<close>, \<open>connection_impl.cpp\<close>; the class
  \<open>Connection\<close> of \<open>connection.cpp\<close> forwards to it).

  The members of \<open>ConnectionImpl\<close> that the code changes are a record; everything behind userver (the
  socket, the per-stream queues of received messages, the cancellation flag, and whatever other tasks do
  meanwhile) is a world of an arbitrary type that the operations of \<open>userver\<close> transform. An operation
  returns its result and the state it leaves, also when it throws.
\<close>

section \<open>State and errors\<close>

type_synonym ('s, 'a) io = "'s \<Rightarrow> 'a res \<times> 's"

definition io_ret :: "'a \<Rightarrow> ('s, 'a) io" where
  "io_ret x = (\<lambda>s. (Inr x, s))"

definition io_throw :: "exn \<Rightarrow> ('s, 'a) io" where
  "io_throw e = (\<lambda>s. (Inl (Throw e), s))"

definition io_lift :: "'a res \<Rightarrow> ('s, 'a) io" where
  "io_lift r = (\<lambda>s. (r, s))"

definition io_bind :: "('s, 'a) io \<Rightarrow> ('a \<Rightarrow> ('s, 'b) io) \<Rightarrow> ('s, 'b) io" where
  "io_bind m f = (\<lambda>s. case m s of (Inl e, s') \<Rightarrow> (Inl e, s') | (Inr x, s') \<Rightarrow> f x s')"

lemma io_simps [io_simps]:
  "io_ret x s = (Inr x, s)"
  "io_throw e s = (Inl (Throw e), s)"
  "io_lift r s = (r, s)"
  by (simp_all add: io_ret_def io_throw_def io_lift_def)

lemma io_bind_simps [io_simps]:
  "m s = (Inl e, s') \<Longrightarrow> io_bind m f s = (Inl e, s')"
  "m s = (Inr x, s') \<Longrightarrow> io_bind m f s = f x s'"
  by (simp_all add: io_bind_def)

section \<open>The runtime\<close>

text \<open>A deadline is a number of milliseconds from now; \<open>Deadline{}\<close> is never reached.\<close>

type_synonym deadline = "int option"

text \<open>
  \<open>RecvAll\<close> returns the bytes received, fewer than asked for when the peer has closed; it throws
  \<open>IoException\<close> on errors. \<open>Push\<close> and \<open>Pop\<close> on the queue of a stream fail at their deadline. The
  receiver task is started once and stopped (cancelled and waited for) when there is one; the socket
  gives up its descriptor when it has one.
\<close>

record ('addr, 'w) userver =
  socket_Connect :: "'addr \<Rightarrow> deadline \<Rightarrow> 'w \<Rightarrow> unit res \<times> 'w"
  socket_RecvAll :: "nat \<Rightarrow> deadline \<Rightarrow> 'w \<Rightarrow> RawBuffer res \<times> 'w"
  socket_SendAll :: "RawBuffer \<Rightarrow> deadline \<Rightarrow> 'w \<Rightarrow> nat res \<times> 'w"
  message_Push :: "nat \<Rightarrow> ResponseMessage \<Rightarrow> deadline \<Rightarrow> 'w \<Rightarrow> bool \<times> 'w"
  message_Pop :: "nat \<Rightarrow> deadline \<Rightarrow> 'w \<Rightarrow> ResponseMessage option \<times> 'w"
  task_ShouldCancel :: "'w \<Rightarrow> bool \<times> 'w"
  receiver_Start :: "'w \<Rightarrow> 'w"
  receiver_Stop :: "'w \<Rightarrow> 'w"
  socket_Release :: "'w \<Rightarrow> 'w"

record 'q ConnectionImpl =
  conn_broken :: bool
  conn_compressor :: "lz4_lib option"
  conn_stream_pool :: 'q
  conn_expires_at :: "int option"

type_synonym ('q, 'w) conn_state = "'q ConnectionImpl \<times> 'w"

definition mk_ConnectionImpl :: "'q queue_lib \<Rightarrow> 'q ConnectionImpl" where
  "mk_ConnectionImpl Q = \<lparr>conn_broken = False, conn_compressor = None, conn_stream_pool = StreamPool Q,
     conn_expires_at = None\<rparr>"

definition on_world :: "('w \<Rightarrow> 'a \<times> 'w) \<Rightarrow> ('q, 'w) conn_state \<Rightarrow> 'a \<times> ('q, 'w) conn_state" where
  "on_world f s = (case f (snd s) of (r, w) \<Rightarrow> (r, (fst s, w)))"

definition MarkBroken :: "('q, 'w) conn_state \<Rightarrow> ('q, 'w) conn_state" where
  "MarkBroken s = ((fst s)\<lparr>conn_broken := True\<rparr>, snd s)"

definition IsBroken :: "'q ConnectionImpl \<Rightarrow> bool" where
  "IsBroken c \<longleftrightarrow> conn_broken c"

definition IsExpired :: "int \<Rightarrow> 'q ConnectionImpl \<Rightarrow> bool" where
  "IsExpired now c \<longleftrightarrow> (case conn_expires_at c of None \<Rightarrow> False | Some t \<Rightarrow> now > t)"

definition IsIdle :: "'q queue_lib \<Rightarrow> 'q ConnectionImpl \<Rightarrow> bool" where
  "IsIdle Q c \<longleftrightarrow> GetUsedStreams Q (conn_stream_pool c) = 0"

section \<open>Frames on the socket\<close>

text \<open>A short write is only logged.\<close>

definition SendMessage :: "('addr, 'w) userver \<Rightarrow> lz4_lib option \<Rightarrow> RequestMessage \<Rightarrow> deadline \<Rightarrow>
    (('q, 'w) conn_state, unit) io" where
  "SendMessage E compressor message deadline =
     io_bind (io_lift (RequestMessage_Serialize compressor message [])) (\<lambda>(_, buffer).
     io_bind (on_world (socket_SendAll E buffer deadline)) (\<lambda>returned_len. io_ret ()))"

text \<open>
  The header buffer has nine zero bytes before the read, and only a read of no bytes is an error; the
  body must arrive completely.
\<close>

definition ReadFrame :: "('addr, 'w) userver \<Rightarrow> deadline \<Rightarrow> lz4_lib option \<Rightarrow>
    (('q, 'w) conn_state, ResponseMessage) io" where
  "ReadFrame E deadline compressor =
     io_bind (on_world (socket_RecvAll E kHeaderSize deadline)) (\<lambda>bytes.
     if length bytes \<le> 0 then io_throw (std_runtime_error ''Socket read failed'') else
     io_bind (io_lift (FrameHeader_Parse (vec_resize kHeaderSize bytes))) (\<lambda>header.
     io_bind (io_lift (GetResponseMessageFromHeader header)) (\<lambda>message.
     let body_length = Int_to_size_t (hdr_length header) in
     if body_length > max_size then io_throw std_length_error else
     io_bind (on_world (socket_RecvAll E body_length deadline)) (\<lambda>body_bytes.
     if length body_bytes < body_length then io_throw (std_runtime_error ''Socket read failed'') else
     io_bind (io_lift (ParseBody compressor message (take body_length body_bytes))) (\<lambda>body.
     io_ret \<lparr>rsp_header = header, rsp_body = body\<rparr>)))))"

definition ExecuteMessage_sync :: "('addr, 'w) userver \<Rightarrow> RequestMessage \<Rightarrow> deadline \<Rightarrow>
    (('q, 'w) conn_state, ResponseMessage) io" where
  "ExecuteMessage_sync E message deadline =
     io_bind (SendMessage E None message deadline) (\<lambda>_.
     io_bind (ReadFrame E deadline None) (\<lambda>response.
     io_bind (io_lift (CheckError response)) (\<lambda>_. io_ret response)))"

section \<open>Connecting\<close>

text \<open>The first address that connects is used; only \<open>IoException\<close> passes on to the next one.\<close>

fun TcpConnect :: "('addr, 'w) userver \<Rightarrow> 'addr list \<Rightarrow> deadline \<Rightarrow> (('q, 'w) conn_state, unit) io" where
  "TcpConnect E [] deadline s = io_throw (std_runtime_error ''Socket not ready'') s"
| "TcpConnect E (addr # addresses) deadline s =
     (case on_world (socket_Connect E addr deadline) s of
        (Inr _, s') \<Rightarrow> (Inr (), s')
      | (Inl (Throw IoException), s') \<Rightarrow> TcpConnect E addresses deadline s'
      | (Inl f, s') \<Rightarrow> (Inl f, s'))"

text \<open>
  The result of the cast to \<open>SupportMessage*\<close> is used unchecked; \<open>at\<close> throws when the key is missing.
  \<open>L\<close> is the LZ4 library a new \<open>Lz4Compressor\<close> calls.
\<close>

definition CqlHandshake :: "('addr, 'w) userver \<Rightarrow> lz4_lib \<Rightarrow> bool \<Rightarrow> (('q, 'w) conn_state, unit) io" where
  "CqlHandshake E L use_compression =
     io_bind (ExecuteMessage_sync E (mk_RequestMessage OptionsMessage) (Some 1000)) (\<lambda>support_message.
     io_bind (io_lift (case rsp_body support_message of
                         SupportMessage options \<Rightarrow> Inr options
                       | _ \<Rightarrow> Inl (UB NullDeref))) (\<lambda>options.
     io_bind (io_lift (case map_of options (str ''COMPRESSION'') of
                         Some v \<Rightarrow> Inr v
                       | None \<Rightarrow> Inl (Throw (std_out_of_range ''_Map_base::at'')))) (\<lambda>compression_options.
     io_bind (if use_compression \<and> str ''lz4'' \<in> set compression_options
              then io_bind (ExecuteMessage_sync E
                       (mk_RequestMessage (StartupMessage (StartupMessage_options (Some (str ''lz4''))))) (Some 10000))
                     (\<lambda>message s. (Inr message, ((fst s)\<lparr>conn_compressor := Some L\<rparr>, snd s)))
              else ExecuteMessage_sync E
                     (mk_RequestMessage (StartupMessage (StartupMessage_options None))) (Some 10000)) (\<lambda>message s.
     if hdr_opcode (rsp_header message) \<noteq> Opcode_value kReady
     then (Inl (Throw (std_runtime_error ''Unexpected message received'')), MarkBroken s)
     else (Inr (), s)))))"

definition StartReceiverLoop :: "('addr, 'w) userver \<Rightarrow> (('q, 'w) conn_state, unit) io" where
  "StartReceiverLoop E = on_world (\<lambda>w. (Inr (), receiver_Start E w))"

definition AsyncConnect :: "('addr, 'w) userver \<Rightarrow> lz4_lib \<Rightarrow> 'addr list \<Rightarrow> bool \<Rightarrow> deadline \<Rightarrow>
    (('q, 'w) conn_state, unit) io" where
  "AsyncConnect E L addresses use_compression deadline =
     io_bind (TcpConnect E addresses deadline) (\<lambda>_.
     io_bind (CqlHandshake E L use_compression) (\<lambda>_. StartReceiverLoop E))"

text \<open>\<open>Close\<close> and the wait for its task: the receiver is stopped first, then the descriptor is given up.\<close>

definition Close :: "('addr, 'w) userver \<Rightarrow> (('q, 'w) conn_state, unit) io" where
  "Close E = on_world (\<lambda>w. (Inr (), socket_Release E (receiver_Stop E w)))"

section \<open>The receiver task\<close>

text \<open>
  One round of \<open>ReceiverLoop\<close>: \<open>True\<close> means that the loop goes on. Every exception of \<open>ReadFrame\<close> is a
  \<open>std::exception\<close>, and both handlers mark the connection broken and leave the loop.
\<close>

definition ReceiverLoop_round :: "('addr, 'w) userver \<Rightarrow> (('q, 'w) conn_state, bool) io" where
  "ReceiverLoop_round E s =
     (case on_world (task_ShouldCancel E) s of
        (True, s) \<Rightarrow> (Inr False, s)
      | (False, s) \<Rightarrow>
          (case ReadFrame E None (conn_compressor (fst s)) s of
             (Inl (Throw e), s) \<Rightarrow> (Inr False, MarkBroken s)
           | (Inl f, s) \<Rightarrow> (Inl f, s)
           | (Inr frame, s) \<Rightarrow>
               let stream_id = Message_GetStreamId (rsp_header frame) in
               if stream_id < 0 then (Inr True, s)
               else if nat stream_id \<ge> kMaxStreams then (Inr False, s)
               else on_world (\<lambda>w. case message_Push E (nat stream_id) frame (Some 30000) w of (ok, w') \<Rightarrow> (Inr ok, w')) s))"

text \<open>The loop, cut off after a number of rounds: \<open>None\<close> when it is still running then.\<close>

fun ReceiverLoop :: "nat \<Rightarrow> ('addr, 'w) userver \<Rightarrow> ('q, 'w) conn_state \<Rightarrow> (unit res \<times> ('q, 'w) conn_state) option" where
  "ReceiverLoop 0 E s = None"
| "ReceiverLoop (Suc n) E s =
     (case ReceiverLoop_round E s of
        (Inl f, s') \<Rightarrow> Some (Inl f, s')
      | (Inr True, s') \<Rightarrow> ReceiverLoop n E s'
      | (Inr False, s') \<Rightarrow> Some (Inr (), s'))"

section \<open>Requests\<close>

text \<open>
  \<open>ExecuteMessageAsync\<close>: the guard takes a stream and gives it back on every way out. The sending task
  is only waited for, so an exception in it is lost; then no answer comes and the wait times out.
\<close>

definition wait_response :: "('addr, 'w) userver \<Rightarrow> int \<Rightarrow> deadline \<Rightarrow> (('q, 'w) conn_state, ResponseMessage) io" where
  "wait_response E stream_id deadline s =
     (if stream_id < 0 \<or> nat stream_id > kMaxStreams then (Inl (UB OutOfBounds), s) else
      case on_world (message_Pop E (nat stream_id) deadline) s of
        (None, s') \<Rightarrow> (Inl (Throw (ConnectionError ''Timeout'')), MarkBroken s')
      | (Some result, s') \<Rightarrow> io_bind (io_lift (CheckError result)) (\<lambda>_. io_ret result) s')"

definition StreamGuard_release :: "'q queue_lib \<Rightarrow> int \<Rightarrow> ('q, 'w) conn_state \<Rightarrow> ('q, 'w) conn_state" where
  "StreamGuard_release Q stream_id s =
     ((fst s)\<lparr>conn_stream_pool := snd (StreamPool_Release Q stream_id (conn_stream_pool (fst s)))\<rparr>, snd s)"

definition ExecuteMessageAsync :: "('addr, 'w) userver \<Rightarrow> 'q queue_lib \<Rightarrow> RequestMessage \<Rightarrow> deadline \<Rightarrow>
    (('q, 'w) conn_state, ResponseMessage) io" where
  "ExecuteMessageAsync E Q message deadline s =
     (case StreamPool_Acquire Q (conn_stream_pool (fst s)) of
        Inl f \<Rightarrow> (Inl f, s)
      | Inr (stream_id, q) \<Rightarrow>
          let s = ((fst s)\<lparr>conn_stream_pool := q\<rparr>, snd s);
              request = message\<lparr>req_header := Message_SetStreamId stream_id (req_header message)\<rparr>
          in case SendMessage E (conn_compressor (fst s)) request deadline s of
               (Inl (UB u), s) \<Rightarrow> (Inl (UB u), s)
             | (_, s) \<Rightarrow>
                 (case wait_response E stream_id deadline s of
                    (r, s) \<Rightarrow> (r, StreamGuard_release Q stream_id s)))"

text \<open>The answer to a statement must be a \<open>ResultMessage\<close>.\<close>

definition expect_result :: "(32 word \<times> ResultPayload \<Rightarrow> 'a res) \<Rightarrow> ResponseMessage \<Rightarrow> 'a res" where
  "expect_result get response =
     (case rsp_body response of
        ResultMessage kind payload \<Rightarrow> get (kind, payload)
      | _ \<Rightarrow> Inl (Throw (std_runtime_error ''Unexpected response type'')))"

definition network_deadline :: "CommandControl option \<Rightarrow> deadline" where
  "network_deadline cmd_ctl =
     Some (network_timeout_ms (case cmd_ctl of None \<Rightarrow> default_CommandControl | Some c \<Rightarrow> c))"

definition Connection_Execute :: "('addr, 'w) userver \<Rightarrow> 'q queue_lib \<Rightarrow> Consistency \<Rightarrow> RawBuffer \<Rightarrow>
    QueryParameters \<Rightarrow> CommandControl option \<Rightarrow> (('q, 'w) conn_state, ResultSet) io" where
  "Connection_Execute E Q level query params cmd_ctl =
     io_bind (ExecuteMessageAsync E Q (mk_RequestMessage (QueryMessage level query params)) (network_deadline cmd_ctl))
       (\<lambda>response. io_lift (expect_result GetResultSet response))"

definition Connection_ExecutePrepared :: "('addr, 'w) userver \<Rightarrow> 'q queue_lib \<Rightarrow> Consistency \<Rightarrow> RawBuffer \<Rightarrow>
    QueryParameters \<Rightarrow> CommandControl option \<Rightarrow> (('q, 'w) conn_state, ResultSet) io" where
  "Connection_ExecutePrepared E Q level statement_id params cmd_ctl =
     io_bind (ExecuteMessageAsync E Q (mk_RequestMessage (ExecuteMessage level statement_id params)) (network_deadline cmd_ctl))
       (\<lambda>response. io_lift (expect_result GetResultSet response))"

definition Connection_Prepare :: "('addr, 'w) userver \<Rightarrow> 'q queue_lib \<Rightarrow> RawBuffer \<Rightarrow>
    (('q, 'w) conn_state, RawBuffer) io" where
  "Connection_Prepare E Q query_name =
     io_bind (ExecuteMessageAsync E Q (mk_RequestMessage (PrepareMessage query_name)) (Some 3000))
       (\<lambda>response. io_lift (expect_result GetPreparedStatementId response))"

definition Connection_BatchExecute :: "('addr, 'w) userver \<Rightarrow> 'q queue_lib \<Rightarrow> Consistency \<Rightarrow>
    BatchStatement list \<Rightarrow> CommandControl option \<Rightarrow> (('q, 'w) conn_state, ResultSet) io" where
  "Connection_BatchExecute E Q level store cmd_ctl =
     io_bind (ExecuteMessageAsync E Q (mk_RequestMessage (BatchMessage store level)) (network_deadline cmd_ctl))
       (\<lambda>response. io_lift (expect_result GetResultSet response))"

section \<open>What the operations keep of the connection\<close>

text \<open>
  \<open>keeps R m\<close>: whatever \<open>m\<close> ends in, the connection before and after are related by \<open>R\<close>. The relation
  composes along \<open>io_bind\<close> when \<open>R\<close> is transitive, so it is enough to look at the assignments.
\<close>

definition keeps :: "('q ConnectionImpl \<Rightarrow> 'q ConnectionImpl \<Rightarrow> bool) \<Rightarrow> (('q, 'w) conn_state, 'a) io \<Rightarrow> bool" where
  "keeps R m \<longleftrightarrow> (\<forall>s. R (fst s) (fst (snd (m s))))"

lemma keepsI: "(\<And>s r s'. m s = (r, s') \<Longrightarrow> R (fst s) (fst s')) \<Longrightarrow> keeps R m"
  unfolding keeps_def by (metis prod.collapse)

lemma keepsD: "keeps R m \<Longrightarrow> m s = (r, s') \<Longrightarrow> R (fst s) (fst s')"
  unfolding keeps_def by (metis snd_conv)

lemma keeps_mono: "keeps R m \<Longrightarrow> (\<And>c c'. R c c' \<Longrightarrow> R' c c') \<Longrightarrow> keeps R' m"
  unfolding keeps_def by blast

lemma keeps_bind:
  assumes "transp R" "keeps R m" "\<And>x. keeps R (f x)"
  shows "keeps R (io_bind m f)"
proof (rule keepsI)
  fix s r s'
  assume b: "io_bind m f s = (r, s')"
  obtain r1 s1 where m: "m s = (r1, s1)" by (rule prod.exhaust [of "m s"])
  with b consider "s1 = s'" | x where "f x s1 = (r, s')"
    by (cases r1) (auto simp: io_bind_def)
  then show "R (fst s) (fst s')"
  proof cases
    case 1
    with keepsD [OF assms(2) m] show ?thesis by simp
  next
    case (2 x)
    with keepsD [OF assms(2) m] keepsD [OF assms(3)] assms(1) show ?thesis by (blast dest: transpD)
  qed
qed

lemma keeps_pure:
  assumes "reflp R"
  shows "keeps R (io_ret x)" "keeps R (io_throw e)" "keeps R (io_lift v)" "keeps R (on_world f)"
  using assms by (auto simp: keeps_def reflpD on_world_def io_simps split: prod.splits)

text \<open>Sending, receiving and connecting change the world only.\<close>

lemma keeps_eq_intros:
  "keeps (=) (io_ret x)" "keeps (=) (io_throw e)" "keeps (=) (io_lift v)" "keeps (=) (on_world f)"
  by (intro keeps_pure reflpI refl)+

lemma keeps_eq_bind: "keeps (=) m \<Longrightarrow> (\<And>x. keeps (=) (f x)) \<Longrightarrow> keeps (=) (io_bind m f)"
  by (rule keeps_bind) (auto simp: transp_def)

lemma keeps_SendMessage: "keeps (=) (SendMessage E compressor message deadline)"
  unfolding SendMessage_def by (auto intro!: keeps_eq_bind keeps_eq_intros split: prod.split)

lemma keeps_ReadFrame: "keeps (=) (ReadFrame E deadline compressor)"
  unfolding ReadFrame_def Let_def by (auto intro!: keeps_eq_bind keeps_eq_intros)

lemma keeps_ExecuteMessage_sync: "keeps (=) (ExecuteMessage_sync E message deadline)"
  unfolding ExecuteMessage_sync_def
  by (auto intro!: keeps_eq_bind keeps_eq_intros keeps_SendMessage keeps_ReadFrame)

lemma keeps_TcpConnect:
  fixes E :: "('addr, 'w) userver"
  shows "keeps (=) (TcpConnect E addresses deadline :: (('q, 'w) conn_state, unit) io)"
proof (induction addresses)
  case Nil
  show ?case by (simp add: keeps_def io_simps)
next
  case (Cons addr addresses)
  show ?case
  proof (rule keepsI)
    fix s :: "('q, 'w) conn_state" and r s'
    assume t: "TcpConnect E (addr # addresses) deadline s = (r, s')"
    obtain v s1 where s1: "on_world (socket_Connect E addr deadline) s = (v, s1)"
      by (rule prod.exhaust [of "on_world (socket_Connect E addr deadline) s"])
    then have "fst s1 = fst s" by (auto simp: on_world_def split: prod.splits)
    moreover have "s' = s1 \<or> TcpConnect E addresses deadline s1 = (r, s')"
      using t s1 by (auto split: sum.splits fault.splits exn.splits)
    ultimately show "fst s = fst s'" using keepsD [OF Cons.IH] by metis
  qed
qed

text \<open>Connecting and receiving never leave the broken state, set an expiry time or take a stream.\<close>

definition conn_life :: "'q ConnectionImpl \<Rightarrow> 'q ConnectionImpl \<Rightarrow> bool" where
  "conn_life c c' \<longleftrightarrow> (conn_broken c \<longrightarrow> conn_broken c') \<and> conn_expires_at c' = conn_expires_at c \<and>
     conn_stream_pool c' = conn_stream_pool c"

lemma transp_conn_life: "transp conn_life" and reflp_conn_life: "reflp conn_life"
  by (auto simp: transp_def reflp_def conn_life_def)

lemma conn_life_eq: "keeps (=) m \<Longrightarrow> keeps conn_life m"
  by (erule keeps_mono) (simp add: conn_life_def)

lemmas life_pure = keeps_pure [OF reflp_conn_life]
lemmas life_bind = keeps_bind [OF transp_conn_life]

lemma life_CqlHandshake: "keeps conn_life (CqlHandshake E L use_compression)"
proof -
  have finish: "keeps conn_life (\<lambda>s. if P then (Inl f, MarkBroken s) else (Inr (), s))" for P f
    by (simp add: keeps_def MarkBroken_def conn_life_def)
  have compress: "keeps conn_life (\<lambda>s. (Inr m, ((fst s)\<lparr>conn_compressor := Some L\<rparr>, snd s)))" for m :: ResponseMessage
    by (simp add: keeps_def conn_life_def)
  show ?thesis
    unfolding CqlHandshake_def
    by (intro life_bind life_pure conn_life_eq [OF keeps_ExecuteMessage_sync] finish)
       (auto intro!: life_bind compress conn_life_eq [OF keeps_ExecuteMessage_sync])
qed

lemma life_world:
  "keeps conn_life (StartReceiverLoop E)"
  "keeps conn_life (Close E)"
  unfolding StartReceiverLoop_def Close_def by (intro conn_life_eq keeps_eq_intros)+

lemma life_AsyncConnect: "keeps conn_life (AsyncConnect E L addresses use_compression deadline)"
  unfolding AsyncConnect_def by (intro life_bind life_CqlHandshake life_world conn_life_eq keeps_TcpConnect)

lemma life_ReceiverLoop_round: "keeps conn_life (ReceiverLoop_round E)"
proof (rule keepsI)
  fix s r s'
  assume a: "ReceiverLoop_round E s = (r, s')"
  obtain b s1 where s1: "on_world (task_ShouldCancel E) s = (b, s1)"
    by (rule prod.exhaust [of "on_world (task_ShouldCancel E) s"])
  obtain v s2 where s2: "ReadFrame E None (conn_compressor (fst s1)) s1 = (v, s2)"
    by (rule prod.exhaust [of "ReadFrame E None (conn_compressor (fst s1)) s1"])
  have "fst s1 = fst s" "fst s2 = fst s1"
    using s1 keepsD [OF keeps_ReadFrame s2] by (auto simp: on_world_def split: prod.splits)
  then show "conn_life (fst s) (fst s')"
    using a s1 s2
    by (auto simp: ReceiverLoop_round_def conn_life_def MarkBroken_def on_world_def Let_def
        split: bool.splits sum.splits fault.splits if_splits prod.splits)
qed

lemma wait_response_conn:
  assumes "wait_response E i deadline s = (r, s')"
  shows "fst s' = fst s \<or> fst s' = (fst s)\<lparr>conn_broken := True\<rparr>"
  using assms
  by (auto simp: wait_response_def on_world_def MarkBroken_def io_bind_def io_simps
      split: if_splits prod.splits option.splits sum.splits)

lemma ExecuteMessageAsync_acquired:
  assumes "StreamPool_Acquire Q (conn_stream_pool (fst s)) = Inr (i, q)"
    and "SendMessage E (conn_compressor (fst s)) (message\<lparr>req_header := Message_SetStreamId i (req_header message)\<rparr>)
      deadline ((fst s)\<lparr>conn_stream_pool := q\<rparr>, snd s) = (v, s1)"
    and "\<forall>u. v \<noteq> Inl (UB u)" and "wait_response E i deadline s1 = (r, s2)"
  shows "ExecuteMessageAsync E Q message deadline s = (r, StreamGuard_release Q i s2)"
  using assms by (cases v) (auto simp: ExecuteMessageAsync_def Let_def split: fault.splits)

text \<open>What a request leaves of the connection: the pool with the stream back in it, and maybe the mark.\<close>

lemma ExecuteMessageAsync_conn:
  assumes "ExecuteMessageAsync E Q message deadline s = (r, s')" "\<forall>u. r \<noteq> Inl (UB u)"
  shows "(fst s' = fst s \<and> (\<exists>f. r = Inl f)) \<or>
    (\<exists>i q b. StreamPool_Acquire Q (conn_stream_pool (fst s)) = Inr (i, q) \<and>
       (b = conn_broken (fst s) \<or> b = True) \<and>
       fst s' = (fst s)\<lparr>conn_broken := b, conn_stream_pool := snd (StreamPool_Release Q i q)\<rparr>)"
proof (cases "StreamPool_Acquire Q (conn_stream_pool (fst s))")
  case (Inl f)
  with assms(1) show ?thesis by (auto simp: ExecuteMessageAsync_def)
next
  case (Inr iq)
  obtain i q where iq: "iq = (i, q)" by (cases iq)
  define s0 where "s0 = ((fst s)\<lparr>conn_stream_pool := q\<rparr>, snd s)"
  let ?send = "SendMessage E (conn_compressor (fst s)) (message\<lparr>req_header := Message_SetStreamId i (req_header message)\<rparr>)
    deadline s0"
  obtain v s1 where s1: "?send = (v, s1)" by (rule prod.exhaust [of ?send])
  obtain w s2 where s2: "wait_response E i deadline s1 = (w, s2)"
    by (rule prod.exhaust [of "wait_response E i deadline s1"])
  have "\<forall>u. v \<noteq> Inl (UB u)"
    using assms Inr iq s1 by (auto simp: ExecuteMessageAsync_def Let_def s0_def)
  with ExecuteMessageAsync_acquired [OF _ s1 [unfolded s0_def] _ s2] Inr iq assms(1)
  have "s' = StreamGuard_release Q i s2" by auto
  moreover have "fst s1 = fst s0" using keepsD [OF keeps_SendMessage s1] by simp
  moreover have "fst s2 = fst s1 \<or> fst s2 = (fst s1)\<lparr>conn_broken := True\<rparr>" by (rule wait_response_conn [OF s2])
  ultimately have "fst s' = (fst s)\<lparr>conn_broken := conn_broken (fst s2), conn_stream_pool := snd (StreamPool_Release Q i q)\<rparr>
      \<and> (conn_broken (fst s2) = conn_broken (fst s) \<or> conn_broken (fst s2))"
    by (auto simp: s0_def StreamGuard_release_def)
  with Inr iq show ?thesis by blast
qed

section \<open>The life of a connection\<close>

text \<open>
  The operations of a connection one after the other, in any order, with any change of the world between
  them. A step that ends in undefined behaviour has no successor.
\<close>

inductive conn_step :: "('addr, 'w) userver \<Rightarrow> 'q queue_lib \<Rightarrow> lz4_lib \<Rightarrow>
    ('q, 'w) conn_state \<Rightarrow> ('q, 'w) conn_state \<Rightarrow> bool" for E Q L where
  connect: "AsyncConnect E L addresses use_compression deadline s = (r, s') \<Longrightarrow> conn_step E Q L s s'"
| receive: "ReceiverLoop_round E s = (r, s') \<Longrightarrow> conn_step E Q L s s'"
| execute: "Connection_Execute E Q level query params ctl s = (r, s') \<Longrightarrow> \<forall>u. r \<noteq> Inl (UB u) \<Longrightarrow> conn_step E Q L s s'"
| execute_prepared: "Connection_ExecutePrepared E Q level ident params ctl s = (r, s') \<Longrightarrow> \<forall>u. r \<noteq> Inl (UB u) \<Longrightarrow>
    conn_step E Q L s s'"
| prepare: "Connection_Prepare E Q query s = (r', s') \<Longrightarrow> \<forall>u. r' \<noteq> Inl (UB u) \<Longrightarrow> conn_step E Q L s s'"
| batch: "Connection_BatchExecute E Q level stmts ctl s = (r, s') \<Longrightarrow> \<forall>u. r \<noteq> Inl (UB u) \<Longrightarrow> conn_step E Q L s s'"
| close: "Close E s = (done, s') \<Longrightarrow> conn_step E Q L s s'"
| environment: "conn_step E Q L (c, w) (c, w')"

inductive conn_reachable :: "('addr, 'w) userver \<Rightarrow> 'q queue_lib \<Rightarrow> lz4_lib \<Rightarrow> ('q, 'w) conn_state \<Rightarrow> bool" for E Q L where
  init: "conn_reachable E Q L (mk_ConnectionImpl Q, w)"
| step: "conn_reachable E Q L s \<Longrightarrow> conn_step E Q L s s' \<Longrightarrow> conn_reachable E Q L s'"

text \<open>All statements are requests followed by a look at the answer.\<close>

lemma io_bind_lift:
  assumes "io_bind m (\<lambda>x. io_lift (f x)) s = (r, s')" "\<forall>u. r \<noteq> Inl (UB u)"
  shows "\<exists>r0. m s = (r0, s') \<and> (\<forall>u. r0 \<noteq> Inl (UB u))"
proof -
  obtain r0 s0 where m: "m s = (r0, s0)" by (rule prod.exhaust [of "m s"])
  with assms show ?thesis by (cases r0) (auto simp: io_bind_def io_simps)
qed

lemma conn_step_cases:
  assumes "conn_step E Q L s s'"
  shows "conn_life (fst s) (fst s') \<or>
    (\<exists>message deadline r. ExecuteMessageAsync E Q message deadline s = (r, s') \<and> (\<forall>u. r \<noteq> Inl (UB u)))"
  using assms
proof cases
  case connect
  then show ?thesis using keepsD [OF life_AsyncConnect] by blast
next
  case receive
  then show ?thesis using keepsD [OF life_ReceiverLoop_round] by blast
next
  case close
  then show ?thesis using keepsD [OF life_world(2)] by blast
next
  case environment
  then show ?thesis by (simp add: conn_life_def)
next
  case execute
  from io_bind_lift [OF execute(1) [unfolded Connection_Execute_def] execute(2)] show ?thesis by (intro disjI2) blast
next
  case execute_prepared
  from io_bind_lift [OF execute_prepared(1) [unfolded Connection_ExecutePrepared_def] execute_prepared(2)] show ?thesis by (intro disjI2) blast
next
  case prepare
  from io_bind_lift [OF prepare(1) [unfolded Connection_Prepare_def] prepare(2)] show ?thesis by (intro disjI2) blast
next
  case batch
  from io_bind_lift [OF batch(1) [unfolded Connection_BatchExecute_def] batch(2)] show ?thesis by (intro disjI2) blast
qed

text \<open>A stream that is taken from a pool with all its streams and given back leaves all of them there.\<close>

lemma acquire_release:
  assumes Q: "queue_contract Q content capacity" and inv: "stream_inv content capacity (q, [])"
    and a: "StreamPool_Acquire Q q = Inr (i, q')"
  shows "stream_inv content capacity (snd (StreamPool_Release Q i q'), [])" "0 \<le> i" "i < int kMaxStreams"
proof -
  have inv': "stream_inv content capacity (q', [i])"
    using stream_inv_step [OF Q inv stream_step.acquire [OF a]] by simp
  obtain ok q'' where r: "StreamPool_Release Q i q' = (ok, q'')" by fastforce
  have "stream_inv content capacity (q'', remove1 i [i])"
    by (rule stream_inv_step [OF Q inv' stream_step.release [OF _ r]]) simp
  with r show "stream_inv content capacity (snd (StreamPool_Release Q i q'), [])" by simp
  have "i \<in># all_streams"
    using inv' unfolding stream_inv_def by (metis add_mset_add_single mset.simps(1,2) snd_conv union_single_eq_member)
  then show "0 \<le> i" "i < int kMaxStreams" using in_all_streams by blast+
qed

lemma conn_reachable_inv:
  assumes Q: "queue_contract Q content capacity" and "conn_reachable E Q L s"
  shows "stream_inv content capacity (conn_stream_pool (fst s), []) \<and> conn_expires_at (fst s) = None"
  using assms(2)
proof induction
  case (init w)
  show ?case using stream_inv_init [OF Q] by (simp add: mk_ConnectionImpl_def)
next
  case (step s s')
  from conn_step_cases [OF step.hyps(2)] show ?case
  proof (elim disjE exE conjE)
    assume "conn_life (fst s) (fst s')"
    with step.IH show ?thesis by (simp add: conn_life_def)
  next
    fix message deadline r
    assume "ExecuteMessageAsync E Q message deadline s = (r, s')" "\<forall>u. r \<noteq> Inl (UB u)"
    from ExecuteMessageAsync_conn [OF this] step.IH acquire_release(1) [OF Q] show ?thesis by auto
  qed
qed

section \<open>Frames over a working socket\<close>

text \<open>
  A working socket, described by the bytes the peer has sent and that were not yet received, and the
  bytes sent to the peer: receiving takes the next bytes as long as there are enough, sending appends.
\<close>

definition socket_contract :: "('addr, 'w) userver \<Rightarrow> ('w \<Rightarrow> RawBuffer) \<Rightarrow> ('w \<Rightarrow> RawBuffer) \<Rightarrow> bool" where
  "socket_contract E rx tx \<longleftrightarrow>
     (\<forall>n deadline w. n \<le> length (rx w) \<longrightarrow>
        (\<exists>w'. socket_RecvAll E n deadline w = (Inr (take n (rx w)), w') \<and> rx w' = drop n (rx w) \<and> tx w' = tx w)) \<and>
     (\<forall>b deadline w. \<exists>w'. socket_SendAll E b deadline w = (Inr (length b), w') \<and> rx w' = rx w \<and> tx w' = tx w @ b)"

lemma socket_recv:
  assumes "socket_contract E rx tx" "rx w = bs @ rest" "length bs = n"
  obtains w' where "socket_RecvAll E n deadline w = (Inr bs, w')" "rx w' = rest" "tx w' = tx w"
proof -
  have "n \<le> length (rx w)" using assms(2,3) by simp
  with assms(1) obtain w' where "socket_RecvAll E n deadline w = (Inr (take n (rx w)), w')" "rx w' = drop n (rx w)" "tx w' = tx w"
    unfolding socket_contract_def by blast
  then show ?thesis using that assms(2,3) by simp
qed

lemma socket_send:
  assumes "socket_contract E rx tx"
  obtains w' where "socket_SendAll E b deadline w = (Inr (length b), w')" "rx w' = rx w" "tx w' = tx w @ b"
  using assms unfolding socket_contract_def by blast

lemma ReadFrame_wire:
  assumes S: "socket_contract E rx tx" and rx: "rx w = enc_header h @ payload @ rest"
    and len: "hdr_length h = word_of_nat (length payload)" "length payload < 2 ^ 31"
    and cl: "GetResponseMessageFromHeader h = Inr cl"
  obtains w' where "ReadFrame E deadline compressor (c, w) =
      (res_bind (ParseBody compressor cl payload) (\<lambda>body. Inr \<lparr>rsp_header = h, rsp_body = body\<rparr>), (c, w'))"
    "rx w' = rest" "tx w' = tx w"
proof -
  obtain w1 where w1: "socket_RecvAll E kHeaderSize deadline w = (Inr (enc_header h), w1)" "rx w1 = payload @ rest" "tx w1 = tx w"
    using socket_recv [OF S rx enc_header_length] by blast
  obtain w2 where w2: "socket_RecvAll E (length payload) deadline w1 = (Inr payload, w2)" "rx w2 = rest" "tx w2 = tx w1"
    using socket_recv [OF S w1(2) refl] by blast
  have hdr: "vec_resize kHeaderSize (enc_header h) = enc_header h"
    using enc_header_length [of h] by (simp add: vec_resize_def)
  have parse: "FrameHeader_Parse (enc_header h) = Inr h"
    using FrameHeader_Parse_enc [of "[]" h] by simp
  have size: "Int_to_size_t (hdr_length h) = length payload" using len by (simp add: Int_to_size_t_nat)
  have ne: "enc_header h \<noteq> []" using enc_header_length [of h] by (metis list.size(3) zero_neq_numeral)
  have "ReadFrame E deadline compressor (c, w) =
      (res_bind (ParseBody compressor cl payload) (\<lambda>body. Inr \<lparr>rsp_header = h, rsp_body = body\<rparr>), (c, w2))"
    using len(2) ne
    by (simp add: ReadFrame_def io_bind_def on_world_def io_simps w1(1) w2(1) hdr parse cl size Let_def res_bind_def split: sum.split)
  with w1 w2 show ?thesis by (intro that [of w2]) simp_all
qed

text \<open>The frame of a request that the handshake sends.\<close>

definition enc_frame :: "RequestBody \<Rightarrow> RawBuffer" where
  "enc_frame b = enc_header ((FrameHeader_init (RequestBody_opcode b))\<lparr>hdr_length := word_of_nat (length (enc_body b))\<rparr>) @ enc_body b"

lemma SendMessage_wire:
  assumes S: "socket_contract E rx tx" and ser: "RequestMessage_Serialize compressor message [] = Inr (m', frame)"
  obtains w' where "SendMessage E compressor message deadline (c, w) = (Inr (), (c, w'))" "rx w' = rx w" "tx w' = tx w @ frame"
proof -
  obtain w' where w': "socket_SendAll E frame deadline w = (Inr (length frame), w')" "rx w' = rx w" "tx w' = tx w @ frame"
    using socket_send [OF S] by blast
  then have "SendMessage E compressor message deadline (c, w) = (Inr (), (c, w'))"
    by (simp add: SendMessage_def io_bind_def io_simps on_world_def ser)
  with w' show ?thesis by (intro that)
qed

lemma ExecuteMessage_sync_wire:
  assumes S: "socket_contract E rx tx" and b: "wf_body b" "length (enc_body b) < 2 ^ 31"
    and rx: "rx w = enc_header h @ payload @ rest" "hdr_length h = word_of_nat (length payload)" "length payload < 2 ^ 31"
    and cl: "GetResponseMessageFromHeader h = Inr cl" "DoParseBody cl payload = Inr body"
    and ok: "hdr_opcode h \<noteq> Opcode_value kError"
  obtains w' where "ExecuteMessage_sync E (mk_RequestMessage b) deadline (c, w) = (Inr \<lparr>rsp_header = h, rsp_body = body\<rparr>, (c, w'))"
    "rx w' = rest" "tx w' = tx w @ enc_frame b"
proof -
  have "RequestMessage_Serialize None (mk_RequestMessage b) [] = Inr (mk_RequestMessage b, enc_frame b)"
    using Serialize_uncompressed [OF b, of "FrameHeader_init (RequestBody_opcode b)"]
    by (simp add: mk_RequestMessage_def enc_frame_def FrameHeader_init_def)
  from SendMessage_wire [OF S this] obtain w1 where w1:
    "SendMessage E None (mk_RequestMessage b) deadline (c, w) = (Inr (), (c, w1))" "rx w1 = rx w" "tx w1 = tx w @ enc_frame b"
    by blast
  from w1(2) rx(1) have "rx w1 = enc_header h @ payload @ rest" by simp
  from ReadFrame_wire [OF S this rx(2,3) cl(1)] obtain w2 where w2:
    "ReadFrame E deadline None (c, w1) = (Inr \<lparr>rsp_header = h, rsp_body = body\<rparr>, (c, w2))" "rx w2 = rest" "tx w2 = tx w1"
    using cl(2) by (metis ParseBody_def option.case(1) res_bind_simps(2))
  have "ExecuteMessage_sync E (mk_RequestMessage b) deadline (c, w) = (Inr \<lparr>rsp_header = h, rsp_body = body\<rparr>, (c, w2))"
    using w1(1) w2(1) ok by (simp add: ExecuteMessage_sync_def io_bind_def io_simps CheckError_def)
  with w1 w2 show ?thesis by (intro that [of w2]) simp_all
qed

text \<open>The pipe is a working socket.\<close>

type_synonym pipe = "RawBuffer \<times> RawBuffer \<times> (nat \<Rightarrow> ResponseMessage option)"

definition pipe_runtime :: "(unit, pipe) userver" where
  "pipe_runtime = \<lparr>socket_Connect = (\<lambda>_ _ w. (Inr (), w)),
     socket_RecvAll = (\<lambda>n _ (rx, tx, mail). (Inr (take n rx), (drop n rx, tx, mail))),
     socket_SendAll = (\<lambda>b _ (rx, tx, mail). (Inr (length b), (rx, tx @ b, mail))),
     message_Push = (\<lambda>i m _ (rx, tx, mail). (True, (rx, tx, mail(i \<mapsto> m)))),
     message_Pop = (\<lambda>i _ (rx, tx, mail). (mail i, (rx, tx, mail(i := None)))),
     task_ShouldCancel = (\<lambda>w. (False, w)), receiver_Start = (\<lambda>w. w), receiver_Stop = (\<lambda>w. w),
     socket_Release = (\<lambda>(rx, tx, mail). ([], tx, mail))\<rparr>"

lemma pipe_socket_contract: "socket_contract pipe_runtime fst (\<lambda>(rx, tx, mail). tx)"
  by (auto simp: socket_contract_def pipe_runtime_def split: prod.split)

section \<open>Properties of a connection\<close>

text \<open>C8: Whatever the socket and the other tasks do, requests on a connection give their stream back on
  every way out (answer, error answer, timeout), so between requests the connection is idle with all
  1024 streams free; a broken connection stays broken; and no operation ever sets an expiry time, so
  the connection never counts as expired.\<close>

theorem connection_invariant:
  assumes "queue_contract Q content capacity" "conn_reachable E Q L s"
  shows "GetRemainingStreams Q (conn_stream_pool (fst s)) = 1024 \<and> IsIdle Q (fst s) \<and>
    \<not> IsExpired now (fst s) \<and> (\<forall>s'. conn_step E Q L s s' \<longrightarrow> IsBroken (fst s) \<longrightarrow> IsBroken (fst s'))"
proof -
  have inv: "content (conn_stream_pool (fst s)) = all_streams" "conn_expires_at (fst s) = None"
    using conn_reachable_inv [OF assms] by (simp_all add: stream_inv_def del: mset_map)
  have "size (content (conn_stream_pool (fst s))) = 1024" using inv(1) by simp
  then have "GetRemainingStreams Q (conn_stream_pool (fst s)) = 1024"
    using queue_contractD(6) [OF assms(1)] by (simp add: GetRemainingStreams_def)
  moreover have "IsBroken (fst s')" if "conn_step E Q L s s'" "IsBroken (fst s)" for s'
    using conn_step_cases [OF that(1)] that(2) ExecuteMessageAsync_conn
    by (fastforce simp: conn_life_def IsBroken_def)
  ultimately show ?thesis using inv(2) by (simp add: IsIdle_def GetUsedStreams_def IsExpired_def)
qed

theorem connection_invariant_witness:
  "GetRemainingStreams list_queue (conn_stream_pool (fst (mk_ConnectionImpl list_queue, ([], [], Map.empty) :: pipe))) = 1024 \<and>
    IsIdle list_queue (fst (mk_ConnectionImpl list_queue, ([], [], Map.empty) :: pipe)) \<and>
    \<not> IsExpired 5 (fst (mk_ConnectionImpl list_queue, ([], [], Map.empty) :: pipe)) \<and>
    \<not> (\<exists>s'. conn_step pipe_runtime list_queue stored_lz4 (mk_ConnectionImpl list_queue, ([], [], Map.empty)) s' \<and>
      IsBroken (fst (mk_ConnectionImpl list_queue, ([], [], Map.empty) :: pipe)) \<and> \<not> IsBroken (fst s'))"
  using connection_invariant [OF list_queue_contract
    conn_reachable.init [where E = pipe_runtime and L = stored_lz4 and w = "([], [], Map.empty)"], where now = 5]
  by blast

text \<open>C20: Over a working socket, reading a frame consumes exactly the header and as many body bytes as
  the header announces, leaves the bytes of the next frame alone, sends nothing, and returns the
  message of the class the header selects with that body parsed (decompressed first when the connection
  compresses).\<close>

theorem read_frame_exact:
  assumes "socket_contract E rx tx" "rx w = enc_header h @ payload @ rest"
    and "hdr_length h = word_of_nat (length payload)" "length payload < 2 ^ 31"
    and "GetResponseMessageFromHeader h = Inr cl"
  shows "\<exists>w'. ReadFrame E deadline compressor (c, w) =
      (res_bind (ParseBody compressor cl payload) (\<lambda>body. Inr \<lparr>rsp_header = h, rsp_body = body\<rparr>), (c, w')) \<and>
    rx w' = rest \<and> tx w' = tx w"
  using ReadFrame_wire [OF assms] by metis

abbreviation response_header :: "Opcode \<Rightarrow> int \<Rightarrow> nat \<Rightarrow> FrameHeader" where
  "response_header op stream n \<equiv> \<lparr>hdr_version = 0x84, hdr_flags = 0, hdr_stream = word_of_int stream,
     hdr_opcode = Opcode_value op, hdr_length = word_of_nat n\<rparr>"

theorem read_frame_exact_witness:
  "\<exists>w'. ReadFrame pipe_runtime None None (mk_ConnectionImpl list_queue,
        (enc_header (response_header kAuthenticate 3 4) @ [0, 2, 65, 66] @ [9], [], Map.empty)) =
      (res_bind (ParseBody None AuthentificateClass [0, 2, 65, 66])
        (\<lambda>body. Inr \<lparr>rsp_header = response_header kAuthenticate 3 4, rsp_body = body\<rparr>), (mk_ConnectionImpl list_queue, w')) \<and>
    fst w' = [9] \<and> (\<lambda>(rx, tx, mail). tx) w' =
      (\<lambda>(rx, tx, mail). tx) (enc_header (response_header kAuthenticate 3 4) @ [0, 2, 65, 66] @ [9], [] :: RawBuffer,
        Map.empty :: nat \<Rightarrow> ResponseMessage option)"
  by (rule read_frame_exact [OF pipe_socket_contract])
     (simp_all add: GetResponseMessageFromHeader_def Opcode_of_def Opcodes_def)

lemma world_ReadFrame:
  assumes recv: "\<And>n d w. P w \<Longrightarrow> P (snd (socket_RecvAll E n d w))" and "P (snd s)"
    and r: "ReadFrame E deadline compressor s = (r, s')"
  shows "P (snd s')"
proof -
  have recv': "P w'" if "socket_RecvAll E n d w = (x, w')" "P w" for n d w x w'
    using recv [of w n d] that by simp
  show ?thesis
    using r assms(2)
    by (auto simp: ReadFrame_def io_bind_def on_world_def io_simps Let_def
        split: prod.splits sum.splits if_splits; meson recv')
qed

lemma world_ReceiverLoop_round:
  assumes recv: "\<And>n d w. P w \<Longrightarrow> P (snd (socket_RecvAll E n d w))"
    and cancel: "\<And>w. P w \<Longrightarrow> P (snd (task_ShouldCancel E w))"
    and push: "\<And>i m d w. i < 1024 \<Longrightarrow> Message_GetStreamId (rsp_header m) = int i \<Longrightarrow> P w \<Longrightarrow> P (snd (message_Push E i m d w))"
    and s: "P (snd s)" and r: "ReceiverLoop_round E s = (r, s')"
  shows "P (snd s')"
proof -
  obtain b s1 where s1: "on_world (task_ShouldCancel E) s = (b, s1)"
    by (rule prod.exhaust [of "on_world (task_ShouldCancel E) s"])
  have P1: "P (snd s1)" using cancel [OF s] s1 by (auto simp: on_world_def split: prod.splits)
  obtain v s2 where s2: "ReadFrame E None (conn_compressor (fst s1)) s1 = (v, s2)"
    by (rule prod.exhaust [of "ReadFrame E None (conn_compressor (fst s1)) s1"])
  have P2: "P (snd s2)" by (rule world_ReadFrame [of P, OF recv P1 s2])
  have pushed: "P w'" if "\<not> Message_GetStreamId (rsp_header m) < 0" "\<not> kMaxStreams \<le> nat (Message_GetStreamId (rsp_header m))"
    "message_Push E (nat (Message_GetStreamId (rsp_header m))) m (Some 30000) (snd s2) = (ok, w')" for m ok w'
    using push [of "nat (Message_GetStreamId (rsp_header m))" m "snd s2" "Some 30000"] that P2 by simp
  from r s1 s2 P1 P2 show ?thesis
    by (auto simp: ReceiverLoop_round_def MarkBroken_def Let_def on_world_def dest: pushed
        split: bool.splits sum.splits fault.splits if_splits prod.splits)
qed

text \<open>The receiver pushes a message only into the queue of the stream its own header names, and only
  for streams 0 to 1023: every property of the world that receiving, the cancellation test and such
  pushes preserve holds after any number of rounds.\<close>

theorem receiver_routes:
  assumes "\<forall>n d w. P w \<longrightarrow> P (snd (socket_RecvAll E n d w))"
    and "\<forall>w. P w \<longrightarrow> P (snd (task_ShouldCancel E w))"
    and "\<forall>i m d w. i < 1024 \<and> Message_GetStreamId (rsp_header m) = int i \<and> P w \<longrightarrow> P (snd (message_Push E i m d w))"
    and "P (snd s)" "ReceiverLoop n E s = Some (r, s')"
  shows "P (snd s')"
  using assms(4,5)
proof (induction n arbitrary: s)
  case (Suc n)
  obtain v s1 where s1: "ReceiverLoop_round E s = (v, s1)" by (rule prod.exhaust [of "ReceiverLoop_round E s"])
  have "P (snd s1)" by (rule world_ReceiverLoop_round [of P, OF _ _ _ Suc.prems(1) s1]) (use assms(1-3) in blast)+
  with Suc s1 show ?case by (auto split: sum.splits bool.splits)
qed simp

theorem receiver_routes_witness:
  "(\<lambda>(rx, tx, mail). \<forall>i m. mail i = Some m \<longrightarrow> Message_GetStreamId (rsp_header m) = int i)
    (snd (mk_ConnectionImpl list_queue\<lparr>conn_broken := True\<rparr>, ([], [], Map.empty) :: pipe))"
proof (rule receiver_routes [where E = pipe_runtime and s = "(mk_ConnectionImpl list_queue, ([], [], Map.empty))" and n = 1 and r = "Inr ()"])
  show "ReceiverLoop 1 pipe_runtime (mk_ConnectionImpl list_queue, ([], [], Map.empty)) =
      Some (Inr (), mk_ConnectionImpl list_queue\<lparr>conn_broken := True\<rparr>, ([], [], Map.empty))"
    by (simp add: ReceiverLoop_round_def ReadFrame_def pipe_runtime_def on_world_def io_bind_def io_simps MarkBroken_def)
qed (auto simp: pipe_runtime_def)

lemma ReceiverLoop_round_wire:
  assumes S: "socket_contract E rx tx" and cancel: "\<forall>w. task_ShouldCancel E w = (False, w)"
    and rx: "rx w = enc_header h @ payload @ rest" "hdr_length h = word_of_nat (length payload)" "length payload < 2 ^ 31"
    and cl: "GetResponseMessageFromHeader h = Inr cl" "ParseBody (conn_compressor c) cl payload = Inr body"
  obtains w' where "rx w' = rest" "tx w' = tx w"
    "ReceiverLoop_round E (c, w) =
      (if Message_GetStreamId h < 0 then (Inr True, (c, w'))
       else if 1024 \<le> Message_GetStreamId h then (Inr False, (c, w'))
       else case message_Push E (nat (Message_GetStreamId h)) \<lparr>rsp_header = h, rsp_body = body\<rparr> (Some 30000) w' of
              (ok, w'') \<Rightarrow> (Inr ok, (c, w'')))"
proof -
  obtain w' where w': "ReadFrame E None (conn_compressor c) (c, w) =
      (res_bind (ParseBody (conn_compressor c) cl payload) (\<lambda>body. Inr \<lparr>rsp_header = h, rsp_body = body\<rparr>), (c, w'))"
      "rx w' = rest" "tx w' = tx w"
    using ReadFrame_wire [OF S rx cl(1)] by blast
  have "ReceiverLoop_round E (c, w) =
      (if Message_GetStreamId h < 0 then (Inr True, (c, w'))
       else if 1024 \<le> Message_GetStreamId h then (Inr False, (c, w'))
       else case message_Push E (nat (Message_GetStreamId h)) \<lparr>rsp_header = h, rsp_body = body\<rparr> (Some 30000) w' of
              (ok, w'') \<Rightarrow> (Inr ok, (c, w'')))"
    using cancel w'(1) cl(2)
    by (auto simp: ReceiverLoop_round_def on_world_def Let_def split: prod.splits)
  with w'(2,3) show ?thesis by (intro that [of w'])
qed

text \<open>One round of the receiver on a frame that arrived: a frame of a stream between 0 and 1023 is
  pushed, with its header and its parsed body, into the queue of exactly that stream, and the loop goes
  on when the push succeeded; a frame of a negative stream is dropped and the loop goes on; for a larger
  stream the loop ends. Nothing of the next frame is read, nothing is sent, and the connection's own
  state does not change.\<close>

theorem receiver_round_exact:
  assumes "socket_contract E rx tx" "\<forall>w. task_ShouldCancel E w = (False, w)"
    and "rx w = enc_header h @ payload @ rest" "hdr_length h = word_of_nat (length payload)" "length payload < 2 ^ 31"
    and "GetResponseMessageFromHeader h = Inr cl" "ParseBody (conn_compressor c) cl payload = Inr body"
  shows "\<exists>w'. rx w' = rest \<and> tx w' = tx w \<and>
    ReceiverLoop_round E (c, w) =
      (if Message_GetStreamId h < 0 then (Inr True, (c, w'))
       else if 1024 \<le> Message_GetStreamId h then (Inr False, (c, w'))
       else case message_Push E (nat (Message_GetStreamId h)) \<lparr>rsp_header = h, rsp_body = body\<rparr> (Some 30000) w' of
              (ok, w'') \<Rightarrow> (Inr ok, (c, w'')))"
  using ReceiverLoop_round_wire [OF assms] by metis

theorem receiver_round_exact_witness:
  "\<exists>w'. fst w' = [1] \<and> (\<lambda>(rx, tx, mail). tx) w' =
      (\<lambda>(rx, tx, mail). tx) (enc_header (response_header kReady 7 0) @ [] @ [1], [] :: RawBuffer, Map.empty :: nat \<Rightarrow> ResponseMessage option) \<and>
    ReceiverLoop_round pipe_runtime (mk_ConnectionImpl list_queue, (enc_header (response_header kReady 7 0) @ [] @ [1], [], Map.empty)) =
      (if Message_GetStreamId (response_header kReady 7 0) < 0 then (Inr True, (mk_ConnectionImpl list_queue, w'))
       else if 1024 \<le> Message_GetStreamId (response_header kReady 7 0) then (Inr False, (mk_ConnectionImpl list_queue, w'))
       else case message_Push pipe_runtime (nat (Message_GetStreamId (response_header kReady 7 0)))
           \<lparr>rsp_header = response_header kReady 7 0, rsp_body = ReadyMessage\<rparr> (Some 30000) w' of
              (ok, w'') \<Rightarrow> (Inr ok, (mk_ConnectionImpl list_queue, w'')))"
  by (rule receiver_round_exact [OF pipe_socket_contract, where cl = ReadyClass and payload = "[]"])
     (simp_all add: GetResponseMessageFromHeader_def Opcode_of_def Opcodes_def ParseBody_def mk_ConnectionImpl_def pipe_runtime_def)

text \<open>A frame on a stream of 1024 or more ends the receiver for good without marking the connection
  broken: the loop is over after one round, the following frames stay unread, and the connection still
  counts as usable.\<close>

theorem receiver_stops_silently:
  assumes "socket_contract E rx tx" "\<forall>w. task_ShouldCancel E w = (False, w)"
    and "rx w = enc_header h @ payload @ rest" "hdr_length h = word_of_nat (length payload)" "length payload < 2 ^ 31"
    and "GetResponseMessageFromHeader h = Inr cl" "ParseBody (conn_compressor c) cl payload = Inr body"
    and "1024 \<le> Message_GetStreamId h"
  shows "\<exists>w'. ReceiverLoop (Suc n) E (c, w) = Some (Inr (), (c, w')) \<and> rx w' = rest"
proof -
  from ReceiverLoop_round_wire [OF assms(1-7)] assms(8) obtain w' where
    "rx w' = rest" "ReceiverLoop_round E (c, w) = (Inr False, (c, w'))" by (metis not_less order_less_le_trans zero_le_numeral)
  then show ?thesis by auto
qed

theorem receiver_stops_silently_witness:
  "\<exists>w'. ReceiverLoop (Suc 4) pipe_runtime (mk_ConnectionImpl list_queue,
      (enc_header (response_header kReady 1024 0) @ [] @ enc_header (response_header kReady 0 0), [], Map.empty)) =
      Some (Inr (), (mk_ConnectionImpl list_queue, w')) \<and> fst w' = enc_header (response_header kReady 0 0)"
  by (rule receiver_stops_silently [OF pipe_socket_contract, where cl = ReadyClass and h = "response_header kReady 1024 0"
        and payload = "[]" and body = ReadyMessage])
     (simp_all add: GetResponseMessageFromHeader_def Opcode_of_def Opcodes_def ParseBody_def mk_ConnectionImpl_def pipe_runtime_def
       Message_GetStreamId_def)

lemma CqlHandshake_wire:
  assumes "socket_contract E rx tx"
    and "rx w = enc_header h1 @ enc_string_multimap options @ enc_header h2 @ rest"
    and "h1 = response_header kSupported i1 (length (enc_string_multimap options))" "h2 = response_header kReady i2 0"
    and "wf_string_multimap options" "length (enc_string_multimap options) < 2 ^ 31"
    and "map_of options (str ''COMPRESSION'') = Some offered"
    and "lz4 = (use_compression \<and> str ''lz4'' \<in> set offered)"
  shows "\<exists>w'. CqlHandshake E L use_compression (c, w) =
      (Inr (), (if lz4 then c\<lparr>conn_compressor := Some L\<rparr> else c, w')) \<and>
    rx w' = rest \<and>
    tx w' = tx w @ enc_frame OptionsMessage
      @ enc_frame (StartupMessage (StartupMessage_options (if lz4 then Some (str ''lz4'') else None)))"
proof -
  let ?startup = "StartupMessage (StartupMessage_options (if lz4 then Some (str ''lz4'') else None))"
  have h1: "hdr_length h1 = word_of_nat (length (enc_string_multimap options))" "hdr_opcode h1 \<noteq> Opcode_value kError"
    "GetResponseMessageFromHeader h1 = Inr SupportClass"
    using assms(3) by (simp_all add: GetResponseMessageFromHeader_def Opcode_of_def Opcodes_def)
  have h2: "hdr_length h2 = word_of_nat (length ([] :: RawBuffer))" "hdr_opcode h2 \<noteq> Opcode_value kError"
    "GetResponseMessageFromHeader h2 = Inr ReadyClass" "hdr_opcode h2 = Opcode_value kReady"
    using assms(4) by (simp_all add: GetResponseMessageFromHeader_def Opcode_of_def Opcodes_def)
  have parse: "DoParseBody SupportClass (enc_string_multimap options) = Inr (SupportMessage options)"
    using io_string_multimap.read_enc [OF assms(5), of "[]" "[]"] assms(6) by (simp add: buffer_ok_def)
  obtain w1 where w1: "ExecuteMessage_sync E (mk_RequestMessage OptionsMessage) (Some 1000) (c, w) =
      (Inr \<lparr>rsp_header = h1, rsp_body = SupportMessage options\<rparr>, (c, w1))"
      "rx w1 = enc_header h2 @ [] @ rest" "tx w1 = tx w @ enc_frame OptionsMessage"
    using ExecuteMessage_sync_wire [OF assms(1), of OptionsMessage w h1 "enc_string_multimap options" "enc_header h2 @ rest"
        SupportClass "SupportMessage options" "Some 1000" c] assms(2,6) h1 parse by auto
  have wf: "wf_body ?startup" "length (enc_body ?startup) < 2 ^ 31"
    by (simp_all add: StartupMessage_options_def wf_map_def wf_list_def wf_string_def enc_list_def enc_string_def enc_short_len_def)
  obtain w2 where w2: "ExecuteMessage_sync E (mk_RequestMessage ?startup) (Some 10000) (c, w1) =
      (Inr \<lparr>rsp_header = h2, rsp_body = ReadyMessage\<rparr>, (c, w2))" "rx w2 = rest" "tx w2 = tx w1 @ enc_frame ?startup"
    using ExecuteMessage_sync_wire [OF assms(1) wf w1(2) h2(1) _ h2(3) _ h2(2), of ReadyMessage "Some 10000" c] by auto
  have "CqlHandshake E L use_compression (c, w) = (Inr (), (if lz4 then c\<lparr>conn_compressor := Some L\<rparr> else c, w2))"
    using w1(1) w2(1) assms(7) h2(4) assms(8) [symmetric]
    by (cases lz4) (auto simp: CqlHandshake_def io_bind_def io_simps simp del: Opcode_value.simps)
  with w1(3) w2(2,3) show ?thesis by auto
qed



text \<open>A header that the peer cut off after one to eight bytes is not rejected: the missing bytes count
  as zeros. Five bytes of a READY header followed by the end of the connection are accepted as a READY
  message.\<close>

theorem truncated_header_accepted:
  assumes "\<forall>d. socket_RecvAll E 9 d w = (Inr [0x84, flags, s1, s2, 0x02], w1)"
    and "\<forall>d. socket_RecvAll E 0 d w1 = (Inr [], w2)"
  shows "\<exists>h. ReadFrame E deadline None (c, w) = (Inr \<lparr>rsp_header = h, rsp_body = ReadyMessage\<rparr>, (c, w2)) \<and> hdr_length h = 0"
proof -
  let ?h = "\<lparr>hdr_version = 0x84, hdr_flags = flags, hdr_stream = word_of_nat (be_dec [s1, s2]), hdr_opcode = 0x02, hdr_length = 0\<rparr>"
  have "be_enc n 0 = replicate n 0" for n by (induction n) (simp_all add: replicate_append_same)
  moreover have four: "replicate 4 (0 :: byte) = [0, 0, 0, 0]" by (simp add: eval_nat_numeral)
  ultimately have "enc_header ?h = [0x84, flags, s1, s2, 0x02, 0, 0, 0, 0]"
    using enc_int_be_dec [where 'a = 16, of "[s1, s2]"] by (simp add: enc_header_def enc_int_def)
  moreover have "vec_resize kHeaderSize [0x84, flags, s1, s2, 0x02] = [0x84, flags, s1, s2, 0x02, 0, 0, 0, 0]"
    by (simp add: vec_resize_def four)
  ultimately have "FrameHeader_Parse (vec_resize kHeaderSize [0x84, flags, s1, s2, 0x02]) = Inr ?h"
    using FrameHeader_Parse_enc [of "[]" ?h] by simp
  moreover have "GetResponseMessageFromHeader ?h = Inr ReadyClass"
    by (simp add: GetResponseMessageFromHeader_def Opcode_of_def Opcodes_def)
  ultimately have "ReadFrame E deadline None (c, w) = (Inr \<lparr>rsp_header = ?h, rsp_body = ReadyMessage\<rparr>, (c, w2))"
    using assms by (simp add: ReadFrame_def io_bind_def on_world_def io_simps Let_def Int_to_size_t_def ParseBody_def)
  then show ?thesis by (intro exI [of _ ?h]) simp
qed

theorem truncated_header_accepted_witness:
  "\<exists>h. ReadFrame pipe_runtime None None (mk_ConnectionImpl list_queue, ([0x84, 0, 0, 0, 0x02], [], Map.empty)) =
      (Inr \<lparr>rsp_header = h, rsp_body = ReadyMessage\<rparr>, (mk_ConnectionImpl list_queue, ([], [], Map.empty))) \<and> hdr_length h = 0"
  by (rule truncated_header_accepted [where ?w1.0 = "([], [], Map.empty)"]) (simp_all add: pipe_runtime_def)

lemma stream_of_request:
  assumes "queue_contract Q content capacity" "stream_reachable Q (q0, held)" "length held < 1024"
  obtains i q where "StreamPool_Acquire Q q0 = Inr (i, q)" "0 \<le> i" "i < 1024" "i \<notin> set held"
    "stream_reachable Q (snd (StreamPool_Release Q i q), held)"
proof -
  have inv: "stream_inv content capacity (q0, held)" by (rule stream_inv_reachable [OF assms(1,2)])
  then have "queue_Pop Q q0 \<noteq> None"
    using stream_inv_held(3) [OF inv] assms(3) queue_Pop_None [OF assms(1)] by force
  then obtain i q where acq: "StreamPool_Acquire Q q0 = Inr (i, q)" by (auto simp: StreamPool_Acquire_def)
  have r1: "stream_reachable Q (q, i # held)" by (rule stream_reachable.step [OF assms(2) stream_step.acquire [OF acq]])
  note held = stream_inv_held [OF stream_inv_reachable [OF assms(1) r1]]
  obtain ok q' where p: "StreamPool_Release Q i q = (ok, q')" by fastforce
  have "stream_step Q (q, i # held) (q', remove1 i (i # held))" by (rule stream_step.release [OF _ p]) simp
  from stream_reachable.step [OF r1 this] p held acq show ?thesis by (intro that [of i q]) simp_all
qed

lemma frame_of_request:
  assumes "wf_body b" "length (enc_body b) < 2 ^ 31" "0 \<le> i" "i < 1024"
    and "m = (mk_RequestMessage b)\<lparr>req_header := Message_SetStreamId i (req_header (mk_RequestMessage b))\<rparr>"
  obtains frame h where "RequestMessage_Serialize None m [] = Inr (m, frame)" "FrameHeader_Parse frame = Inr h"
    "Message_GetStreamId h = i" "Opcode_of (hdr_opcode h) = Some (RequestBody_opcode b)"
    "read_request_body (RequestBody_opcode b) frame kHeaderSize = Inr (b, length frame)"
proof -
  define h where "h = Message_SetStreamId i (FrameHeader_init (RequestBody_opcode b))"
  let ?h = "h\<lparr>hdr_length := word_of_nat (length (enc_body b))\<rparr>"
  let ?frame = "enc_header ?h @ enc_body b"
  have h: "hdr_length h = 0" "sint (hdr_stream h) = i" "hdr_opcode h = Opcode_value (RequestBody_opcode b)"
    using assms(3,4) by (simp_all add: h_def Message_SetStreamId_def FrameHeader_init_def signed_of_int signed_take_bit_int_eq_self)
  have m: "m = \<lparr>req_header = h, req_body = b\<rparr>" using assms(5) by (simp add: mk_RequestMessage_def h_def)
  have "RequestMessage_Serialize None m [] = Inr (m, ?frame)"
    using Serialize_uncompressed [OF assms(1,2) h(1)] by (simp add: m)
  moreover have "FrameHeader_Parse ?frame = Inr ?h" using assms(2) by (intro FrameHeader_Parse_enc) simp
  moreover have "read_request_body (RequestBody_opcode b) ?frame kHeaderSize = Inr (b, length ?frame)"
    using wire_body.read_enc [of b "RequestBody_opcode b" "enc_header ?h" "[]"] assms(1,2) by (simp add: buffer_ok_def)
  ultimately show ?thesis using h by (intro that [of ?frame ?h]) (simp_all add: Message_GetStreamId_def)
qed

lemma ExecuteMessageAsync_wire:
  assumes "queue_contract Q content capacity" "stream_reachable Q (conn_stream_pool c, held)" "length held < 1024"
    and "socket_contract E rx tx" "conn_compressor c = None"
    and "wf_body b" "length (enc_body b) < 2 ^ 31"
  shows "\<exists>i w1 frame h c'. 0 \<le> i \<and> i < 1024 \<and> i \<notin> set held \<and>
    tx w1 = tx w @ frame \<and> rx w1 = rx w \<and>
    FrameHeader_Parse frame = Inr h \<and> Message_GetStreamId h = i \<and> Opcode_of (hdr_opcode h) = Some (RequestBody_opcode b) \<and>
    read_request_body (RequestBody_opcode b) frame kHeaderSize = Inr (b, length frame) \<and>
    stream_reachable Q (conn_stream_pool c', held) \<and> conn_broken c' = conn_broken c \<and>
    ExecuteMessageAsync E Q (mk_RequestMessage b) deadline (c, w) =
      (case message_Pop E (nat i) deadline w1 of
         (None, w2) \<Rightarrow> (Inl (Throw (ConnectionError ''Timeout'')), (c'\<lparr>conn_broken := True\<rparr>, w2))
       | (Some m, w2) \<Rightarrow> (res_bind (CheckError m) (\<lambda>_. Inr m), (c', w2)))"
proof -
  obtain i q where acq: "StreamPool_Acquire Q (conn_stream_pool c) = Inr (i, q)" and i: "0 \<le> i" "i < 1024" "i \<notin> set held"
    and free: "stream_reachable Q (snd (StreamPool_Release Q i q), held)"
    by (rule stream_of_request [OF assms(1-3)])
  define m where "m = (mk_RequestMessage b)\<lparr>req_header := Message_SetStreamId i (req_header (mk_RequestMessage b))\<rparr>"
  define c' where "c' = c\<lparr>conn_stream_pool := snd (StreamPool_Release Q i q)\<rparr>"
  obtain frame h where frame: "RequestMessage_Serialize None m [] = Inr (m, frame)" "FrameHeader_Parse frame = Inr h"
    "Message_GetStreamId h = i" "Opcode_of (hdr_opcode h) = Some (RequestBody_opcode b)"
    "read_request_body (RequestBody_opcode b) frame kHeaderSize = Inr (b, length frame)"
    by (rule frame_of_request [OF assms(6,7) i(1,2) m_def])
  obtain w1 where w1: "SendMessage E None m deadline (c\<lparr>conn_stream_pool := q\<rparr>, w) = (Inr (), (c\<lparr>conn_stream_pool := q\<rparr>, w1))"
    "rx w1 = rx w" "tx w1 = tx w @ frame"
    using SendMessage_wire [OF assms(4) frame(1)] by blast
  obtain r s2 where wait: "wait_response E i deadline (c\<lparr>conn_stream_pool := q\<rparr>, w1) = (r, s2)"
    by (rule prod.exhaust [of "wait_response E i deadline (c\<lparr>conn_stream_pool := q\<rparr>, w1)"])
  have "ExecuteMessageAsync E Q (mk_RequestMessage b) deadline (c, w) = (r, StreamGuard_release Q i s2)"
    using acq w1(1) wait assms(5)
    by (intro ExecuteMessageAsync_acquired [where q = q and v = "Inr ()" and ?s1.0 = "(c\<lparr>conn_stream_pool := q\<rparr>, w1)"])
       (simp_all add: m_def)
  moreover have in_range: "(i < 0 \<or> kMaxStreams < nat i) = False" using i by auto
  moreover have "(r, StreamGuard_release Q i s2) =
      (case message_Pop E (nat i) deadline w1 of
         (None, w2) \<Rightarrow> (Inl (Throw (ConnectionError ''Timeout'')), (c'\<lparr>conn_broken := True\<rparr>, w2))
       | (Some m, w2) \<Rightarrow> (res_bind (CheckError m) (\<lambda>_. Inr m), (c', w2)))"
    using wait in_range
    by (auto simp: wait_response_def on_world_def StreamGuard_release_def MarkBroken_def c'_def io_bind_def io_simps res_bind_def
        split: prod.splits option.splits sum.splits)
  ultimately show ?thesis
    using i free w1(2,3) frame
    by (intro exI [of _ i] exI [of _ w1] exI [of _ frame] exI [of _ h] exI [of _ c']) (simp add: c'_def)
qed

text \<open>C3: A request takes a stream between 0 and 1023 that no other live request holds, sends one frame
  that the server reads back as that request on that stream, and waits on the queue of that same
  stream. The outcome is the message that arrives there if it is no error, the exception of the error
  otherwise, and at the deadline a timeout that marks the connection broken; in all cases the stream is
  free again.\<close>

theorem request_outcome:
  assumes "queue_contract Q content capacity" "stream_reachable Q (conn_stream_pool c, held)" "length held < 1024"
    and "socket_contract E rx tx" "conn_compressor c = None"
    and "wf_body b" "length (enc_body b) < 2 ^ 31"
  shows "\<exists>i w1 frame h c'. 0 \<le> i \<and> i < 1024 \<and> i \<notin> set held \<and>
    tx w1 = tx w @ frame \<and> rx w1 = rx w \<and>
    FrameHeader_Parse frame = Inr h \<and> Message_GetStreamId h = i \<and> Opcode_of (hdr_opcode h) = Some (RequestBody_opcode b) \<and>
    read_request_body (RequestBody_opcode b) frame kHeaderSize = Inr (b, length frame) \<and>
    stream_reachable Q (conn_stream_pool c', held) \<and> conn_broken c' = conn_broken c \<and>
    ExecuteMessageAsync E Q (mk_RequestMessage b) deadline (c, w) =
      (case message_Pop E (nat i) deadline w1 of
         (None, w2) \<Rightarrow> (Inl (Throw (ConnectionError ''Timeout'')), (c'\<lparr>conn_broken := True\<rparr>, w2))
       | (Some m, w2) \<Rightarrow> (res_bind (CheckError m) (\<lambda>_. Inr m), (c', w2)))"
  by (rule ExecuteMessageAsync_wire [OF assms])

theorem request_outcome_witness:
  "\<exists>i w1 frame h c'. 0 \<le> i \<and> i < 1024 \<and> i \<notin> set [] \<and>
    (\<lambda>(rx, tx, mail). tx) w1 = (\<lambda>(rx, tx, mail). tx) (([], [], Map.empty) :: pipe) @ frame \<and>
    fst w1 = fst (([], [], Map.empty) :: pipe) \<and>
    FrameHeader_Parse frame = Inr h \<and> Message_GetStreamId h = i \<and>
    Opcode_of (hdr_opcode h) = Some (RequestBody_opcode (PrepareMessage (str ''SELECT''))) \<and>
    read_request_body (RequestBody_opcode (PrepareMessage (str ''SELECT''))) frame kHeaderSize =
      Inr (PrepareMessage (str ''SELECT''), length frame) \<and>
    stream_reachable list_queue (conn_stream_pool c', []) \<and> conn_broken c' = conn_broken (mk_ConnectionImpl list_queue) \<and>
    ExecuteMessageAsync pipe_runtime list_queue (mk_RequestMessage (PrepareMessage (str ''SELECT''))) (Some 3000)
        (mk_ConnectionImpl list_queue, ([], [], Map.empty)) =
      (case message_Pop pipe_runtime (nat i) (Some 3000) w1 of
         (None, w2) \<Rightarrow> (Inl (Throw (ConnectionError ''Timeout'')), (c'\<lparr>conn_broken := True\<rparr>, w2))
       | (Some m, w2) \<Rightarrow> (res_bind (CheckError m) (\<lambda>_. Inr m), (c', w2)))"
proof (rule request_outcome [OF list_queue_contract _ _ pipe_socket_contract])
  show "stream_reachable list_queue (conn_stream_pool (mk_ConnectionImpl list_queue), [])"
    using stream_reachable.init [of list_queue] by (simp add: mk_ConnectionImpl_def)
qed (simp_all add: mk_ConnectionImpl_def wf_long_string_def enc_long_string_def enc_int_len_def)

end
