(* ===== verification/Cql_Config.thy ===== *)
theory Cql_Config
  imports Cql_Options
begin

text \<open>
  Configuration: node descriptions and the secure configuration they come from
  (\<open>include/cassandra/node_description.hpp\<close>, \<open>src/secdist.cpp\<close>), the static configuration
  (\<open>src/cassandra_configs.cpp\<close>) and its schema (\<open>src/component.cpp\<close>).

  JSON and YAML values are userver's: \<open>json_lib\<close> and \<open>yaml_lib\<close> hold the accessors the code calls.
  \<open>As<T>(default)\<close> and \<open>As<std::optional<T>>\<close> take the default, or nothing, when the value is missing.
\<close>

section \<open>Values\<close>

record 'v json_lib =
  json_member :: "'v \<Rightarrow> string \<Rightarrow> 'v"
  json_missing :: "'v \<Rightarrow> bool"
  json_As_bool :: "'v \<Rightarrow> bool res"
  json_As_string :: "'v \<Rightarrow> string res"
  json_As_uint16 :: "'v \<Rightarrow> 16 word res"
  json_IsObject :: "'v \<Rightarrow> bool"
  json_items :: "'v \<Rightarrow> (string \<times> 'v) list"
  json_elements :: "'v \<Rightarrow> 'v list"
  secdist_CheckIsObject :: "'v \<Rightarrow> string \<Rightarrow> unit res"
  secdist_CheckIsArray :: "'v \<Rightarrow> string \<Rightarrow> unit res"

definition As_or :: "('v \<Rightarrow> bool) \<Rightarrow> ('v \<Rightarrow> 'a res) \<Rightarrow> 'a \<Rightarrow> 'v \<Rightarrow> 'a res" where
  "As_or missing As dflt v = (if missing v then Inr dflt else As v)"

definition As_optional :: "('v \<Rightarrow> bool) \<Rightarrow> ('v \<Rightarrow> 'a res) \<Rightarrow> 'v \<Rightarrow> 'a option res" where
  "As_optional missing As v = (if missing v then Inr None else res_bind (As v) (\<lambda>x. Inr (Some x)))"

section \<open>Node descriptions\<close>

record PasswordAuthentificator =
  auth_username :: string
  auth_password :: string

record NodeDescription =
  use_ssl :: bool
  use_compression :: bool
  allow_all :: bool
  password_authetificator :: "PasswordAuthentificator option"
  contact_point :: string
  node_port :: "16 word"

definition PasswordAuthentificator_Parse :: "'v json_lib \<Rightarrow> 'v \<Rightarrow> PasswordAuthentificator res" where
  "PasswordAuthentificator_Parse J value =
     res_bind (json_As_string J (json_member J value ''username'')) (\<lambda>username.
     res_bind (json_As_string J (json_member J value ''password'')) (\<lambda>password.
       Inr \<lparr>auth_username = username, auth_password = password\<rparr>))"

definition NodeDescription_Parse :: "'v json_lib \<Rightarrow> 'v \<Rightarrow> NodeDescription res" where
  "NodeDescription_Parse J value =
     res_bind (As_or (json_missing J) (json_As_bool J) False (json_member J value ''use-ssl'')) (\<lambda>ssl.
     res_bind (As_or (json_missing J) (json_As_bool J) False (json_member J value ''use-compression'')) (\<lambda>compression.
     res_bind (As_or (json_missing J) (json_As_bool J) True (json_member J value ''allow-all'')) (\<lambda>all.
     res_bind (As_optional (json_missing J) (PasswordAuthentificator_Parse J) (json_member J value ''auth'')) (\<lambda>creds.
     res_bind (if \<not> all \<and> creds \<noteq> None then Inr creds
               else if all \<and> creds \<noteq> None \<or> \<not> all \<and> creds = None
               then Inl (Throw (SecdistError ''Cassandra node auth configuration error''))
               else Inr None) (\<lambda>authetificator.
     res_bind (As_or (json_missing J) (json_As_string J) ''127.0.0.1'' (json_member J value ''contact-point'')) (\<lambda>point.
     res_bind (As_or (json_missing J) (json_As_uint16 J) 9042 (json_member J value ''port'')) (\<lambda>port.
       Inr \<lparr>use_ssl = ssl, use_compression = compression, allow_all = all, password_authetificator = authetificator,
            contact_point = point, node_port = port\<rparr>)))))))"

section \<open>Secdist\<close>

type_synonym CassandraSecdist = "string \<rightharpoonup> NodeDescription list"

text \<open>The loop over the nodes of a keyspace; \<open>i\<close> is the index the check reports.\<close>

fun secdist_nodes :: "'v json_lib \<Rightarrow> string \<Rightarrow> nat \<Rightarrow> 'v list \<Rightarrow> NodeDescription list res" where
  "secdist_nodes J keyspace i [] = Inr []"
| "secdist_nodes J keyspace i (shard # shards) =
     res_bind (secdist_CheckIsObject J shard
         (''shard '' @ fmt_nat i @ '' description for keyspace '' @ [CHR 0x27] @ keyspace @ [CHR 0x27])) (\<lambda>_.
     res_bind (NodeDescription_Parse J shard) (\<lambda>node.
     res_bind (secdist_nodes J keyspace (Suc i) shards) (\<lambda>nodes. Inr (node # nodes))))"

text \<open>The loop over the keyspaces: \<open>operator[]\<close> of the map creates an entry, nodes are appended to it.\<close>

fun secdist_keyspaces :: "'v json_lib \<Rightarrow> (string \<times> 'v) list \<Rightarrow> CassandraSecdist \<Rightarrow> CassandraSecdist res" where
  "secdist_keyspaces J [] descs = Inr descs"
| "secdist_keyspaces J ((keyspace, v) # rest) descs =
     (let nodes = json_member J v ''nodes'' in
      res_bind (secdist_CheckIsArray J nodes keyspace) (\<lambda>_.
      res_bind (secdist_nodes J keyspace 0 (json_elements J nodes)) (\<lambda>shards.
        secdist_keyspaces J rest (descs(keyspace \<mapsto> (case descs keyspace of None \<Rightarrow> [] | Some old \<Rightarrow> old) @ shards)))))"

definition mk_CassandraSecdist :: "'v json_lib \<Rightarrow> 'v \<Rightarrow> CassandraSecdist res" where
  "mk_CassandraSecdist J doc =
     res_bind (secdist_CheckIsObject J doc ''cassandra_settings'') (\<lambda>_.
     let cassandra_settings = json_member J doc ''cassandra_settings'' in
     if \<not> json_IsObject J cassandra_settings
     then Inl (Throw (SecdistError ([CHR 0x27] @ ''cassandra_settings'' @ [CHR 0x27] @ '' secdist section is wrong format''))) else
     let keyspaces = json_member J cassandra_settings ''keyspaces'' in
     if \<not> json_IsObject J keyspaces
     then Inl (Throw (SecdistError ([CHR 0x27] @ ''keyspaces'' @ [CHR 0x27] @ '' secdist is in wrong format''))) else
     secdist_keyspaces J (json_items J keyspaces) Map.empty)"

definition GetShardedClusterDescription :: "CassandraSecdist \<Rightarrow> string \<Rightarrow> NodeDescription list res" where
  "GetShardedClusterDescription descs keyspace =
     (case descs keyspace of
        None \<Rightarrow> Inl (Throw (SecdistError (''No cassandra secdist settings for keyspace '' @ [CHR 0x27] @ keyspace @ [CHR 0x27])))
      | Some nodes \<Rightarrow> Inr nodes)"

section \<open>Static configuration\<close>

record 'y yaml_lib =
  yaml_member :: "'y \<Rightarrow> string \<Rightarrow> 'y"
  yaml_missing :: "'y \<Rightarrow> bool"
  yaml_As_size_t :: "'y \<Rightarrow> nat res"
  yaml_As_int :: "'y \<Rightarrow> int res"
  yaml_As_bool :: "'y \<Rightarrow> bool res"
  yaml_As_string :: "'y \<Rightarrow> string res"

definition ConnectionSettings_Parse :: "'y yaml_lib \<Rightarrow> 'y \<Rightarrow> ConnectionSettings res" where
  "ConnectionSettings_Parse Y config =
     res_bind (As_optional (yaml_missing Y) (yaml_As_int Y) (yaml_member Y config ''max-ttl-sec'')) (\<lambda>ttl.
     res_bind (As_or (yaml_missing Y) (yaml_As_size_t Y) 2 (yaml_member Y config ''recent-errors-threshold'')) (\<lambda>threshold.
       Inr \<lparr>max_ttl = ttl, recent_errors_threshold = threshold\<rparr>))"

text \<open>The initializer of \<open>connecting_limit\<close> is commented out: the member keeps its default, 0.\<close>

definition PoolSettings_Parse :: "'y yaml_lib \<Rightarrow> 'y \<Rightarrow> PoolSettings res" where
  "PoolSettings_Parse Y config =
     res_bind (As_or (yaml_missing Y) (yaml_As_size_t Y) 4 (yaml_member Y config ''min-pool-size'')) (\<lambda>mn.
     res_bind (As_or (yaml_missing Y) (yaml_As_size_t Y) 15 (yaml_member Y config ''max-pool-size'')) (\<lambda>mx.
     res_bind (As_or (yaml_missing Y) (yaml_As_size_t Y) 200 (yaml_member Y config ''max-queue-size'')) (\<lambda>queue.
     res_bind (As_or (yaml_missing Y) (yaml_As_size_t Y) 16 (yaml_member Y config ''prepared-statement-cache-ways'')) (\<lambda>ways.
     res_bind (As_or (yaml_missing Y) (yaml_As_size_t Y) 200 (yaml_member Y config ''prepared-statement-cache-way-size'')) (\<lambda>way_size.
     res_bind (As_or (yaml_missing Y) (yaml_As_bool Y) True (yaml_member Y config ''persistentprepared-statement'')) (\<lambda>enabled.
       Inr \<lparr>min_size = mn, max_pool_size = mx, max_queue_size = queue, connecting_limit = kDefaultConnectingLimit,
            prepared_statement_cache_ways = ways, prepared_statement_cache_way_size = way_size,
            prepared_statement_cache_enabled = enabled\<rparr>))))))"

text \<open>The properties of the component's schema, which allows no others.\<close>

definition kFullStaticConfigSchema :: "string list" where
  "kFullStaticConfigSchema =
     [''keyspace'', ''blocking_task_processor'', ''min-pool-size'', ''max-pool-size'', ''sync-start'', ''dns_resolver'',
      ''persistent-prepared-statements'', ''max-ttl-sec'', ''prepared-statement-cache-ways'',
      ''prepared-statement-cache-way-size'', ''max-queue-size'']"


section \<open>Properties of the configuration\<close>

lemma NodeDescription_Parse_auth:
  "NodeDescription_Parse J v = Inr n \<Longrightarrow> allow_all n \<longleftrightarrow> password_authetificator n = None"
  by (auto simp: NodeDescription_Parse_def res_bind_eq_Inr split: if_splits)

lemma secdist_nodes_list:
  "secdist_nodes J k i vs = Inr nodes \<Longrightarrow> list_all2 (\<lambda>v n. NodeDescription_Parse J v = Inr n) vs nodes"
  by (induction vs arbitrary: i nodes) (auto simp: res_bind_eq_Inr)

lemma secdist_keyspaces_lookup:
  assumes "distinct (map fst items)" "secdist_keyspaces J items descs = Inr descs'" "set (map fst items) \<inter> dom descs = {}"
  shows "case map_of items k of
      None \<Rightarrow> descs' k = descs k
    | Some v \<Rightarrow> \<exists>nodes. descs' k = Some nodes \<and>
        list_all2 (\<lambda>v n. NodeDescription_Parse J v = Inr n) (json_elements J (json_member J v ''nodes'')) nodes"
  using assms
proof (induction items arbitrary: descs)
  case (Cons item items)
  obtain k0 v where item: "item = (k0, v)" by (cases item)
  from Cons.prems item obtain nodes where nodes: "secdist_nodes J k0 0 (json_elements J (json_member J v ''nodes'')) = Inr nodes"
    and rest: "secdist_keyspaces J items (descs(k0 \<mapsto> nodes)) = Inr descs'"
    by (fastforce simp: Let_def res_bind_eq_Inr dom_def)
  have d: "distinct (map fst items)" "set (map fst items) \<inter> dom (descs(k0 \<mapsto> nodes)) = {}" "k0 \<notin> set (map fst items)"
    using Cons.prems item by auto
  from Cons.IH [OF d(1) rest d(2)] secdist_nodes_list [OF nodes] item d(3) show ?case
    by (cases "k = k0") (auto simp: map_of_eq_None_iff [symmetric] split: option.splits)
qed simp

text \<open>C38: A secure configuration that loads gives, for every keyspace in it, the descriptions of its nodes
  in the order of the document, each one with credentials exactly when not everybody is allowed in; for
  any other keyspace the lookup throws \<open>SecdistError\<close>.\<close>

theorem secdist_lookup:
  assumes "mk_CassandraSecdist J doc = Inr descs"
    and "items = json_items J (json_member J (json_member J doc ''cassandra_settings'') ''keyspaces'')" "distinct (map fst items)"
  shows "case map_of items keyspace of
      Some v \<Rightarrow> \<exists>nodes. GetShardedClusterDescription descs keyspace = Inr nodes \<and>
        list_all2 (\<lambda>v n. NodeDescription_Parse J v = Inr n \<and> (allow_all n \<longleftrightarrow> password_authetificator n = None))
          (json_elements J (json_member J v ''nodes'')) nodes
    | None \<Rightarrow> GetShardedClusterDescription descs keyspace =
        Inl (Throw (SecdistError (''No cassandra secdist settings for keyspace '' @ [CHR 0x27] @ keyspace @ [CHR 0x27])))"
proof -
  have "secdist_keyspaces J items Map.empty = Inr descs"
    using assms(1,2) by (auto simp: mk_CassandraSecdist_def res_bind_eq_Inr Let_def split: if_splits)
  note look = secdist_keyspaces_lookup [OF assms(3) this, of keyspace]
  show ?thesis
  proof (cases "map_of items keyspace")
    case None
    with look show ?thesis by (simp add: GetShardedClusterDescription_def)
  next
    case (Some v)
    with look obtain nodes where nodes: "descs keyspace = Some nodes"
      "list_all2 (\<lambda>v n. NodeDescription_Parse J v = Inr n) (json_elements J (json_member J v ''nodes'')) nodes"
      by auto
    from nodes(2) have "list_all2 (\<lambda>v n. NodeDescription_Parse J v = Inr n \<and> (allow_all n \<longleftrightarrow> password_authetificator n = None))
        (json_elements J (json_member J v ''nodes'')) nodes"
      by (rule list_all2_mono) (auto dest: NodeDescription_Parse_auth)
    with Some nodes(1) show ?thesis by (simp add: GetShardedClusterDescription_def)
  qed
qed

text \<open>JSON values for the examples.\<close>

datatype json = JMissing | JBool bool | JString string | JNumber nat | JArray "json list" | JObject "(string \<times> json) list"

definition json_type_error :: "'a res" where
  "json_type_error = Inl (Throw (std_runtime_error ''wrong type''))"

fun json_get :: "json \<Rightarrow> string \<Rightarrow> json" where
  "json_get (JObject kvs) k = (case map_of kvs k of None \<Rightarrow> JMissing | Some v \<Rightarrow> v)"
| "json_get _ k = JMissing"

definition json_values :: "json json_lib" where
  "json_values = \<lparr>json_member = json_get, json_missing = (\<lambda>v. v = JMissing),
     json_As_bool = (\<lambda>v. case v of JBool b \<Rightarrow> Inr b | _ \<Rightarrow> json_type_error),
     json_As_string = (\<lambda>v. case v of JString s \<Rightarrow> Inr s | _ \<Rightarrow> json_type_error),
     json_As_uint16 = (\<lambda>v. case v of JNumber n \<Rightarrow> Inr (word_of_nat n) | _ \<Rightarrow> json_type_error),
     json_IsObject = (\<lambda>v. case v of JObject _ \<Rightarrow> True | _ \<Rightarrow> False),
     json_items = (\<lambda>v. case v of JObject kvs \<Rightarrow> kvs | _ \<Rightarrow> []),
     json_elements = (\<lambda>v. case v of JArray vs \<Rightarrow> vs | _ \<Rightarrow> []),
     secdist_CheckIsObject = (\<lambda>v name. case v of JObject _ \<Rightarrow> Inr () | _ \<Rightarrow> json_type_error),
     secdist_CheckIsArray = (\<lambda>v name. case v of JArray _ \<Rightarrow> Inr () | _ \<Rightarrow> json_type_error)\<rparr>"

definition example_node :: NodeDescription where
  "example_node = \<lparr>use_ssl = False, use_compression = True, allow_all = True, password_authetificator = None,
     contact_point = ''127.0.0.1'', node_port = 9042\<rparr>"

definition example_doc :: json where
  "example_doc = JObject [(''cassandra_settings'', JObject [(''keyspaces'', JObject [(''shop'',
     JObject [(''nodes'', JArray [JObject [(''use-compression'', JBool True)]])])])])]"

lemma example_secdist: "mk_CassandraSecdist json_values example_doc = Inr [''shop'' \<mapsto> [example_node]]"
  by (simp add: mk_CassandraSecdist_def example_doc_def json_values_def res_bind_def NodeDescription_Parse_def
      As_or_def As_optional_def example_node_def)

theorem secdist_lookup_witness:
  "(\<exists>nodes. GetShardedClusterDescription [''shop'' \<mapsto> [example_node]] ''shop'' = Inr nodes \<and>
     list_all2 (\<lambda>v n. NodeDescription_Parse json_values v = Inr n \<and> (allow_all n \<longleftrightarrow> password_authetificator n = None))
       [JObject [(''use-compression'', JBool True)]] nodes) \<and>
   GetShardedClusterDescription [''shop'' \<mapsto> [example_node]] ''users'' =
     Inl (Throw (SecdistError (''No cassandra secdist settings for keyspace '' @ [CHR 0x27] @ ''users'' @ [CHR 0x27])))"
proof -
  note look = secdist_lookup [OF example_secdist refl]
  have items: "json_items json_values (json_member json_values (json_member json_values example_doc ''cassandra_settings'') ''keyspaces'') =
      [(''shop'', JObject [(''nodes'', JArray [JObject [(''use-compression'', JBool True)]])])]"
    by (simp add: json_values_def example_doc_def)
  show ?thesis
    using look [of "''shop''"] look [of "''users''"] unfolding items by (simp add: json_values_def)
qed

end
