(* ===== verification/Cql_Pool.thy ===== *)
theory Cql_Pool
  imports Cql_Connection Cql_Config
begin

text \<open>
  The pool of the connections to one node (\<open>src/detail/connection_pool.hpp\<close>, \<open>connection_pool.cpp\<close>).

  The vector of pointers is a list of addresses; the objects are in a heap from addresses to
  connections, from which \<open>delete\<close> removes them. What the pool calls of a connection is the interface
  \<open>conn_ops\<close>; \<open>impl_ops\<close> fills it with the operations of \<open>Cql_Connection\<close>. The cache of prepared
  statement identifiers is userver's \<open>NWayLRU\<close>, a parameter.
\<close>

section \<open>What the pool uses\<close>

record 'c conn_ops =
  co_IsExpired :: "'c \<Rightarrow> bool"
  co_IsBroken :: "'c \<Rightarrow> bool"
  co_IsIdle :: "'c \<Rightarrow> bool"
  co_GetUsedStreams :: "'c \<Rightarrow> nat"
  co_Execute :: "Consistency \<Rightarrow> RawBuffer \<Rightarrow> QueryParameters \<Rightarrow> CommandControl option \<Rightarrow> ('c, ResultSet) io"
  co_ExecutePrepared :: "Consistency \<Rightarrow> RawBuffer \<Rightarrow> QueryParameters \<Rightarrow> CommandControl option \<Rightarrow> ('c, ResultSet) io"
  co_Prepare :: "RawBuffer \<Rightarrow> ('c, RawBuffer) io"
  co_BatchExecute :: "Consistency \<Rightarrow> BatchStatement list \<Rightarrow> CommandControl option \<Rightarrow> ('c, ResultSet) io"
  co_Close :: "('c, unit) io"

text \<open>\<open>Connection\<close> forwards every call to \<open>ConnectionImpl\<close>; \<open>now\<close> is the clock \<open>IsExpired\<close> reads.\<close>

definition impl_ops :: "('addr, 'w) userver \<Rightarrow> 'q queue_lib \<Rightarrow> ('w \<Rightarrow> int) \<Rightarrow> ('q, 'w) conn_state conn_ops" where
  "impl_ops E Q now = \<lparr>co_IsExpired = (\<lambda>s. IsExpired (now (snd s)) (fst s)), co_IsBroken = (\<lambda>s. IsBroken (fst s)),
     co_IsIdle = (\<lambda>s. IsIdle Q (fst s)), co_GetUsedStreams = (\<lambda>s. GetUsedStreams Q (conn_stream_pool (fst s))),
     co_Execute = Connection_Execute E Q, co_ExecutePrepared = Connection_ExecutePrepared E Q,
     co_Prepare = Connection_Prepare E Q, co_BatchExecute = Connection_BatchExecute E Q, co_Close = Close E\<rparr>"

record 'k lru_lib =
  lru_New :: "nat \<Rightarrow> nat \<Rightarrow> 'k res"
  lru_Get :: "RawBuffer \<Rightarrow> 'k \<Rightarrow> RawBuffer option \<times> 'k"
  lru_Put :: "RawBuffer \<Rightarrow> RawBuffer \<Rightarrow> 'k \<Rightarrow> 'k"
  lru_Invalidate :: "'k \<Rightarrow> 'k"

text \<open>
  Of the two task storages and the periodic task the pool keeps how many detached connect tasks are
  still to finish and whether maintenance runs.
\<close>

record ('c, 'k) ConnectionPool =
  pool_description :: NodeDescription
  pool_keyspace :: string
  pool_connections :: "nat list"
  pool_heap :: "nat \<rightharpoonup> 'c"
  pool_prepared :: 'k
  pool_prepared_enabled :: bool
  pool_wait_count :: nat
  pool_config :: PoolSettings
  pool_connection_settings :: ConnectionSettings
  pool_connect_tasks :: nat
  pool_maintain_running :: bool

type_synonym ('c, 'k, 'a) pool_io = "(('c, 'k) ConnectionPool, 'a) io"

section \<open>Dereferencing and deleting\<close>

definition DeleteConnection :: "nat \<Rightarrow> ('c, 'k) ConnectionPool \<Rightarrow> ('c, 'k) ConnectionPool" where
  "DeleteConnection a p = p\<lparr>pool_heap := (pool_heap p)(a := None)\<rparr>"

abbreviation DropBrokenConnection :: "nat \<Rightarrow> ('c, 'k) ConnectionPool \<Rightarrow> ('c, 'k) ConnectionPool" where
  "DropBrokenConnection \<equiv> DeleteConnection"

abbreviation DropExpiredConnection :: "nat \<Rightarrow> ('c, 'k) ConnectionPool \<Rightarrow> ('c, 'k) ConnectionPool" where
  "DropExpiredConnection \<equiv> DeleteConnection"

definition with_conn :: "nat \<Rightarrow> ('c, 'a) io \<Rightarrow> ('c, 'k, 'a) pool_io" where
  "with_conn a m p =
     (case pool_heap p a of
        None \<Rightarrow> (Inl (UB UseAfterFree), p)
      | Some c \<Rightarrow> (case m c of (r, c') \<Rightarrow> (r, p\<lparr>pool_heap := (pool_heap p)(a \<mapsto> c')\<rparr>)))"

text \<open>A call through the pointer that \<open>Acquire\<close> returned, which may be null.\<close>

definition with_ptr :: "nat option \<Rightarrow> ('c, 'a) io \<Rightarrow> ('c, 'k, 'a) pool_io" where
  "with_ptr conn m = (case conn of None \<Rightarrow> io_lift (Inl (UB NullDeref)) | Some a \<Rightarrow> with_conn a m)"

section \<open>Putting connections in\<close>

definition Push :: "'c conn_ops \<Rightarrow> nat \<Rightarrow> ('c, 'k, unit) pool_io" where
  "Push ops a p =
     (case pool_heap p a of
        None \<Rightarrow> (Inl (UB UseAfterFree), p)
      | Some c \<Rightarrow>
          if co_IsExpired ops c \<and> co_IsIdle ops c then (Inr (), DropExpiredConnection a p)
          else if co_IsBroken ops c then (Inr (), DropBrokenConnection a p)
          else (Inr (), p\<lparr>pool_connections := pool_connections p @ [a]\<rparr>))"

definition Release :: "'c conn_ops \<Rightarrow> nat \<Rightarrow> ('c, 'k, unit) pool_io" where
  "Release ops a p =
     (case pool_heap p a of
        None \<Rightarrow> (Inl (UB UseAfterFree), p)
      | Some c \<Rightarrow>
          if co_IsExpired ops c \<and> co_IsIdle ops c then (Inr (), DropExpiredConnection a p)
          else if co_IsBroken ops c then (Inr (), DropBrokenConnection a p)
          else Push ops a p)"

text \<open>
  \<open>DoConnect\<close> with the outcomes of the two semaphore locks, the result of \<open>Connection::Connect\<close> and the
  address of the new object.
\<close>

definition DoConnect :: "'c conn_ops \<Rightarrow> bool \<Rightarrow> bool \<Rightarrow> 'c res \<Rightarrow> nat \<Rightarrow> ('c, 'k, bool) pool_io" where
  "DoConnect ops size_lock connecting_lock connected a p =
     (if \<not> size_lock then (Inr False, p)
      else if \<not> connecting_lock then (Inr False, p)
      else case connected of
             Inl (Throw e) \<Rightarrow> (Inr False, p)
           | Inl f \<Rightarrow> (Inl f, p)
           | Inr c \<Rightarrow> io_bind (Push ops a) (\<lambda>_. io_ret True) (p\<lparr>pool_heap := (pool_heap p)(a \<mapsto> c)\<rparr>))"

text \<open>
  A connect task: whether the size semaphore could be locked when the task was started, and if not
  within two seconds of its run, whether the semaphore of establishing connections could be locked, the
  result of \<open>Connection::Connect\<close>, and the address of the new object.
\<close>

record 'c connect_task =
  ct_try_lock :: bool
  ct_timed_lock :: bool
  ct_connecting_lock :: bool
  ct_connected :: "'c res"
  ct_address :: nat

definition ConnectionPool_Connect :: "'c conn_ops \<Rightarrow> 'c connect_task \<Rightarrow> ('c, 'k, bool) pool_io" where
  "ConnectionPool_Connect ops t =
     (let size_lock = (if \<not> ct_try_lock t then ct_timed_lock t else True) in
      DoConnect ops size_lock (ct_connecting_lock t) (ct_connected t) (ct_address t))"

section \<open>Creating a pool\<close>

definition size_semaphore_limit :: "PoolSettings \<Rightarrow> nat" where
  "size_semaphore_limit settings =
     (if connecting_limit settings \<noteq> 0 then connecting_limit settings else 2 ^ 64 - 1)"

definition mk_ConnectionPool :: "'k lru_lib \<Rightarrow> NodeDescription \<Rightarrow> string \<Rightarrow> PoolSettings \<Rightarrow> ConnectionSettings \<Rightarrow>
    ('c, 'k) ConnectionPool res" where
  "mk_ConnectionPool K description keyspace settings conn_settings =
     res_bind (lru_New K (prepared_statement_cache_ways settings) (prepared_statement_cache_way_size settings))
       (\<lambda>prepared_statements_map. Inr
         \<lparr>pool_description = description, pool_keyspace = keyspace, pool_connections = [], pool_heap = Map.empty,
          pool_prepared = prepared_statements_map,
          pool_prepared_enabled = prepared_statement_cache_enabled settings, pool_wait_count = 0,
          pool_config = settings, pool_connection_settings = conn_settings,
          pool_connect_tasks = 0, pool_maintain_running = False\<rparr>)"

definition StartMaintainTask :: "('c, 'k) ConnectionPool \<Rightarrow> ('c, 'k) ConnectionPool" where
  "StartMaintainTask p = p\<lparr>pool_maintain_running := True\<rparr>"

text \<open>The synchronous wait for the connect tasks: failures and exceptions are logged.\<close>

fun Init_tasks :: "'c conn_ops \<Rightarrow> 'c connect_task list \<Rightarrow> ('c, 'k, unit) pool_io" where
  "Init_tasks ops [] p = (Inr (), p)"
| "Init_tasks ops (t # tasks) p =
     (case ConnectionPool_Connect ops t p of
        (Inl (UB u), p') \<Rightarrow> (Inl (UB u), p')
      | (_, p') \<Rightarrow> Init_tasks ops tasks p')"

text \<open>
  \<open>Init\<close> starts \<open>min_size\<close> connect tasks. In asynchronous mode they are detached and finish later; in
  synchronous mode \<open>outcome\<close> gives their outcomes, in the order in which they finish.
\<close>

definition Init :: "'c conn_ops \<Rightarrow> (nat \<Rightarrow> 'c connect_task) \<Rightarrow> InitMode \<Rightarrow> ('c, 'k, unit) pool_io" where
  "Init ops outcome init_mode p =
     (if min_size (pool_config p) > max_pool_size (pool_config p)
      then (Inl (Throw (InvalidConfig ''Cassandra pool max size is less than requested initial size'')), p)
      else case init_mode of
             kAsync \<Rightarrow> (Inr (), StartMaintainTask
               (p\<lparr>pool_connect_tasks := pool_connect_tasks p + min_size (pool_config p)\<rparr>))
           | kSync \<Rightarrow>
               io_bind (Init_tasks ops (map outcome [0..<min_size (pool_config p)])) (\<lambda>_ p. (Inr (), StartMaintainTask p)) p)"

definition ConnectionPool_Create :: "'c conn_ops \<Rightarrow> 'k lru_lib \<Rightarrow> (nat \<Rightarrow> 'c connect_task) \<Rightarrow> NodeDescription \<Rightarrow> string \<Rightarrow>
    InitMode \<Rightarrow> PoolSettings \<Rightarrow> ConnectionSettings \<Rightarrow> ('c, 'k) ConnectionPool res" where
  "ConnectionPool_Create ops K outcome description keyspace init_mode settings conn_settings =
     res_bind (mk_ConnectionPool K description keyspace settings conn_settings) (\<lambda>impl.
       case Init ops outcome init_mode impl of
         (Inl f, _) \<Rightarrow> Inl f
       | (Inr _, impl) \<Rightarrow> Inr impl)"

text \<open>
  \<open>TryCreateConnectionAsync\<close> with the number of recent connection errors and whether the size semaphore
  can be locked; at most one connect task waits for it.
\<close>

definition TryCreateConnectionAsync :: "nat \<Rightarrow> bool \<Rightarrow> ('c, 'k) ConnectionPool \<Rightarrow> ('c, 'k) ConnectionPool" where
  "TryCreateConnectionAsync recent_errors size_lock p =
     (if recent_errors < recent_errors_threshold (pool_connection_settings p)
      then if size_lock \<or> pool_connect_tasks p \<le> 1
           then p\<lparr>pool_connect_tasks := Suc (pool_connect_tasks p)\<rparr> else p
      else p)"

section \<open>Taking connections\<close>

text \<open>The first loop of \<open>Acquire\<close>: drop the broken ones and those that are expired and idle.\<close>

fun Acquire_sweep :: "'c conn_ops \<Rightarrow> nat list \<Rightarrow> (nat \<rightharpoonup> 'c) \<Rightarrow> (nat list \<times> (nat \<rightharpoonup> 'c)) res" where
  "Acquire_sweep ops [] h = Inr ([], h)"
| "Acquire_sweep ops (a # as) h =
     (case h a of
        None \<Rightarrow> Inl (UB UseAfterFree)
      | Some c \<Rightarrow>
          if co_IsBroken ops c then Acquire_sweep ops as (h(a := None))
          else if co_IsExpired ops c \<and> co_IsIdle ops c then Acquire_sweep ops as (h(a := None))
          else res_bind (Acquire_sweep ops as h) (\<lambda>(as', h'). Inr (a # as', h')))"

text \<open>The second loop: the first of the least loaded connections that are not expired.\<close>

fun Acquire_select :: "'c conn_ops \<Rightarrow> (nat \<rightharpoonup> 'c) \<Rightarrow> nat list \<Rightarrow> nat option \<Rightarrow> nat option res" where
  "Acquire_select ops h [] conn = Inr conn"
| "Acquire_select ops h (a # as) conn =
     (case h a of
        None \<Rightarrow> Inl (UB UseAfterFree)
      | Some c \<Rightarrow>
          if co_IsExpired ops c then Acquire_select ops h as conn
          else case conn of
                 None \<Rightarrow> Acquire_select ops h as (Some a)
               | Some b \<Rightarrow>
                   (case h b of
                      None \<Rightarrow> Inl (UB UseAfterFree)
                    | Some d \<Rightarrow>
                        if co_GetUsedStreams ops c < co_GetUsedStreams ops d
                        then Acquire_select ops h as (Some a)
                        else Acquire_select ops h as conn))"

definition Acquire :: "'c conn_ops \<Rightarrow> bool \<Rightarrow> ('c, 'k, nat option) pool_io" where
  "Acquire ops deadline_reached p =
     (if deadline_reached then (Inr None, p)
      else case Acquire_sweep ops (pool_connections p) (pool_heap p) of
             Inl f \<Rightarrow> (Inl f, p)
           | Inr (as, h) \<Rightarrow> (Acquire_select ops h as None, p\<lparr>pool_connections := as, pool_heap := h\<rparr>))"

fun AcquireImmediate_scan :: "'c conn_ops \<Rightarrow> nat list \<Rightarrow> (nat \<rightharpoonup> 'c) \<Rightarrow> (nat option \<times> nat list \<times> (nat \<rightharpoonup> 'c)) res" where
  "AcquireImmediate_scan ops [] h = Inr (None, [], h)"
| "AcquireImmediate_scan ops (a # as) h =
     (case h a of
        None \<Rightarrow> Inl (UB UseAfterFree)
      | Some c \<Rightarrow>
          if co_IsExpired ops c then
            (if co_IsIdle ops c then AcquireImmediate_scan ops as (h(a := None))
             else res_bind (AcquireImmediate_scan ops as h) (\<lambda>(r, as', h'). Inr (r, a # as', h')))
          else if co_IsBroken ops c then AcquireImmediate_scan ops as (h(a := None))
          else Inr (Some a, as, h))"

definition AcquireImmediate :: "'c conn_ops \<Rightarrow> ('c, 'k, nat option) pool_io" where
  "AcquireImmediate ops p =
     (case AcquireImmediate_scan ops (pool_connections p) (pool_heap p) of
        Inl f \<Rightarrow> (Inl f, p)
      | Inr (r, as, h) \<Rightarrow> (Inr r, p\<lparr>pool_connections := as, pool_heap := h\<rparr>))"

definition Clear :: "('c, 'k) ConnectionPool \<Rightarrow> ('c, 'k) ConnectionPool" where
  "Clear p = (fold DeleteConnection (pool_connections p) p)\<lparr>pool_connections := []\<rparr>"

text \<open>The destructor: maintenance is stopped, the connect tasks are cancelled and waited for.\<close>

definition ConnectionPool_destroy :: "('c, 'k) ConnectionPool \<Rightarrow> ('c, 'k) ConnectionPool" where
  "ConnectionPool_destroy p = Clear (p\<lparr>pool_maintain_running := False, pool_connect_tasks := 0\<rparr>)"

section \<open>Statements\<close>

definition CanPrepareStatement :: "CommandControl option \<Rightarrow> bool \<Rightarrow> bool" where
  "CanPrepareStatement command_control cache_enabled =
     (case command_control of
        Some c \<Rightarrow>
          if prepared_statements_enabled c \<noteq> kNoOverride then prepared_statements_enabled c = kEnabled
          else cache_enabled
      | None \<Rightarrow> cache_enabled)"

definition cache_Get :: "'k lru_lib \<Rightarrow> RawBuffer \<Rightarrow> ('c, 'k, RawBuffer option) pool_io" where
  "cache_Get K key p = (case lru_Get K key (pool_prepared p) of (v, k) \<Rightarrow> (Inr v, p\<lparr>pool_prepared := k\<rparr>))"

definition cache_Put :: "'k lru_lib \<Rightarrow> RawBuffer \<Rightarrow> RawBuffer \<Rightarrow> ('c, 'k, unit) pool_io" where
  "cache_Put K key v p = (Inr (), p\<lparr>pool_prepared := lru_Put K key v (pool_prepared p)\<rparr>)"

definition Pool_Execute_on :: "'c conn_ops \<Rightarrow> 'k lru_lib \<Rightarrow> Consistency \<Rightarrow> RawBuffer \<Rightarrow> QueryParameters \<Rightarrow>
    CommandControl option \<Rightarrow> nat option \<Rightarrow> ('c, 'k, ResultSet) pool_io" where
  "Pool_Execute_on ops K level query params ctl conn p =
     (if CanPrepareStatement ctl (pool_prepared_enabled p)
      then io_bind (cache_Get K query) (\<lambda>prepared_id_ptr.
             case prepared_id_ptr of
               Some prepared_id \<Rightarrow> with_ptr conn (co_ExecutePrepared ops level prepared_id params ctl)
             | None \<Rightarrow>
                 io_bind (with_ptr conn (co_Prepare ops query)) (\<lambda>prepared_id.
                 io_bind (cache_Put K query prepared_id) (\<lambda>_.
                 with_ptr conn (co_ExecutePrepared ops level prepared_id params ctl))))
      else with_ptr conn (co_Execute ops level query params ctl)) p"

definition Pool_Execute :: "'c conn_ops \<Rightarrow> 'k lru_lib \<Rightarrow> Consistency \<Rightarrow> RawBuffer \<Rightarrow> QueryParameters \<Rightarrow>
    CommandControl option \<Rightarrow> ('c, 'k, ResultSet) pool_io" where
  "Pool_Execute ops K level query params ctl =
     io_bind (Acquire ops False) (Pool_Execute_on ops K level query params ctl)"

text \<open>The statements of a batch, one after the other, in the order of the store.\<close>

fun prepare_batch :: "'c conn_ops \<Rightarrow> 'k lru_lib \<Rightarrow> nat option \<Rightarrow> BatchQuery list \<Rightarrow> ('c, 'k, BatchStatement list) pool_io" where
  "prepare_batch ops K conn [] p = (Inr [], p)"
| "prepare_batch ops K conn (el # els) p =
     io_bind (cache_Get K (bq_query el)) (\<lambda>prepared_id_ptr.
     io_bind (case prepared_id_ptr of
                Some prepared_id \<Rightarrow> io_ret (BatchStatement_of_id prepared_id (bq_params el))
              | None \<Rightarrow>
                  io_bind (with_ptr conn (co_Prepare ops (bq_query el))) (\<lambda>prepared_id.
                  io_bind (cache_Put K (bq_query el) prepared_id) (\<lambda>_.
                  io_ret (BatchStatement_of_id prepared_id (bq_params el)))))
       (\<lambda>statement. io_bind (prepare_batch ops K conn els) (\<lambda>rest. io_ret (statement # rest)))) p"

definition Pool_BatchExecute_on :: "'c conn_ops \<Rightarrow> 'k lru_lib \<Rightarrow> BatchQueryStore \<Rightarrow> CommandControl option \<Rightarrow>
    nat option \<Rightarrow> ('c, 'k, ResultSet) pool_io" where
  "Pool_BatchExecute_on ops K store ctl conn p =
     io_bind (if CanPrepareStatement ctl (pool_prepared_enabled p)
              then prepare_batch ops K conn (store_queries store)
              else io_ret (map (\<lambda>el. BatchStatement_of_string (bq_query el) (bq_params el)) (store_queries store)))
       (\<lambda>batch_statements. with_ptr conn (co_BatchExecute ops (store_consistency store) batch_statements ctl)) p"

definition Pool_BatchExecute :: "'c conn_ops \<Rightarrow> 'k lru_lib \<Rightarrow> BatchQueryStore \<Rightarrow> CommandControl option \<Rightarrow>
    ('c, 'k, ResultSet) pool_io" where
  "Pool_BatchExecute ops K store ctl = io_bind (Acquire ops False) (Pool_BatchExecute_on ops K store ctl)"

section \<open>Maintenance\<close>

definition kPing :: RawBuffer where
  "kPing = str ''SELECT cluster_name FROM system.local''"

text \<open>\<open>catch (const exceptions::Unprepared&)\<close> around a ping: the cached identifiers are dropped.\<close>

definition catch_Unprepared :: "'k lru_lib \<Rightarrow> ('c, 'k, ResultSet) pool_io \<Rightarrow> ('c, 'k, unit) pool_io" where
  "catch_Unprepared K m p =
     (case m p of
        (Inr _, p') \<Rightarrow> (Inr (), p')
      | (Inl (Throw (FrameError Unprepared _)), p') \<Rightarrow>
          (Inr (), p'\<lparr>pool_prepared := lru_Invalidate K (pool_prepared p')\<rparr>)
      | (Inl f, p') \<Rightarrow> (Inl f, p'))"

text \<open>The ping of a connection that was taken out of the pool.\<close>

definition Maintain_ping :: "'c conn_ops \<Rightarrow> 'k lru_lib \<Rightarrow> nat \<Rightarrow> ('c, 'k, unit) pool_io" where
  "Maintain_ping ops K a =
     io_bind (cache_Get K kPing) (\<lambda>prepared_id_ptr.
       case prepared_id_ptr of
         None \<Rightarrow>
           io_bind (with_conn a (co_Prepare ops kPing)) (\<lambda>prepared_id.
           io_bind (cache_Put K kPing prepared_id) (\<lambda>_.
           io_bind (with_conn a (co_ExecutePrepared ops kLocalOne prepared_id [] None)) (\<lambda>_. io_ret ())))
       | Some prepared_id \<Rightarrow>
           catch_Unprepared K (with_conn a (co_ExecutePrepared ops kLocalOne prepared_id [] None)))"

text \<open>
  One round: \<open>None\<close> stops the loop, otherwise the number of drops that are left. A dropped connection is
  closed and deleted; a pinged one goes back through \<open>Release\<close> on every way out of the ping. Exceptions
  of the driver's own class are logged.
\<close>

definition catch_RuntimeError :: "nat \<Rightarrow> unit res \<Rightarrow> nat option res" where
  "catch_RuntimeError drop_left r =
     (case r of
        Inr _ \<Rightarrow> Inr (Some drop_left)
      | Inl (Throw e) \<Rightarrow> if is_RuntimeError e then Inr (Some drop_left) else Inl (Throw e)
      | Inl f \<Rightarrow> Inl f)"

definition Maintain_round :: "'c conn_ops \<Rightarrow> 'k lru_lib \<Rightarrow> nat \<Rightarrow> nat \<Rightarrow> ('c, 'k, nat option) pool_io" where
  "Maintain_round ops K pool_size drop_left =
     io_bind (AcquireImmediate ops) (\<lambda>conn.
       case conn of
         None \<Rightarrow> io_ret None
       | Some a \<Rightarrow> (\<lambda>p.
           case pool_heap p a of
             None \<Rightarrow> (Inl (UB UseAfterFree), p)
           | Some c \<Rightarrow>
               if pool_size > min_size (pool_config p) \<and> drop_left > 0 \<and> co_IsIdle ops c
               then (case with_conn a (co_Close ops) p of
                       (r, p1) \<Rightarrow> (catch_RuntimeError (drop_left - 1) r, DeleteConnection a p1))
               else (case Maintain_ping ops K a p of
                       (r, p1) \<Rightarrow>
                         (case Release ops a p1 of
                            (Inl f, p2) \<Rightarrow> (Inl f, p2)
                          | (Inr _, p2) \<Rightarrow> (catch_RuntimeError drop_left r, p2)))))"

fun Maintain_loop :: "'c conn_ops \<Rightarrow> 'k lru_lib \<Rightarrow> nat \<Rightarrow> nat \<Rightarrow> ('c, 'k, unit) pool_io" where
  "Maintain_loop ops K 0 drop_left p = (Inr (), p)"
| "Maintain_loop ops K (Suc pool_size) drop_left p =
     (case Maintain_round ops K (Suc pool_size) drop_left p of
        (Inl f, p') \<Rightarrow> (Inl f, p')
      | (Inr None, p') \<Rightarrow> (Inr (), p')
      | (Inr (Some drop_left'), p') \<Rightarrow> Maintain_loop ops K pool_size drop_left' p')"

definition Maintain :: "'c conn_ops \<Rightarrow> 'k lru_lib \<Rightarrow> ('c, 'k, unit) pool_io" where
  "Maintain ops K p =
     (if pool_wait_count p > 0 then (Inr (), p)
      else Maintain_loop ops K (length (pool_connections p)) 1 p)"

section \<open>Pointers in the pool point to live connections\<close>

definition pool_ok :: "('c, 'k) ConnectionPool \<Rightarrow> bool" where
  "pool_ok p \<longleftrightarrow> distinct (pool_connections p) \<and> set (pool_connections p) \<subseteq> dom (pool_heap p)"

text \<open>What the first loop of \<open>Acquire\<close> keeps, and the heap after it.\<close>

definition keep_conn :: "'c conn_ops \<Rightarrow> (nat \<rightharpoonup> 'c) \<Rightarrow> nat \<Rightarrow> bool" where
  "keep_conn ops h a \<longleftrightarrow> (case h a of None \<Rightarrow> False | Some c \<Rightarrow>
     \<not> co_IsBroken ops c \<and> \<not> (co_IsExpired ops c \<and> co_IsIdle ops c))"

definition free_all :: "nat set \<Rightarrow> (nat \<rightharpoonup> 'c) \<Rightarrow> (nat \<rightharpoonup> 'c)" where
  "free_all A h = (\<lambda>a. if a \<in> A then None else h a)"

lemma free_all_simps [simp]:
  "free_all {} h = h"
  "free_all A (h(a := None)) = free_all (insert a A) h"
  by (auto simp: free_all_def)

lemma keep_conn_update [simp]: "a \<noteq> b \<Longrightarrow> keep_conn ops (h(b := v)) a = keep_conn ops h a"
  by (simp add: keep_conn_def)

lemma Acquire_sweep_eq:
  assumes "distinct as" "set as \<subseteq> dom h"
  shows "Acquire_sweep ops as h =
    Inr (filter (keep_conn ops h) as, free_all {a \<in> set as. \<not> keep_conn ops h a} h)"
  using assms
proof (induction as arbitrary: h)
  case (Cons a as)
  then obtain c where c: "h a = Some c" by auto
  have fresh: "a \<notin> set as" using Cons.prems by simp
  have kc: "keep_conn ops h a \<longleftrightarrow> \<not> co_IsBroken ops c \<and> \<not> (co_IsExpired ops c \<and> co_IsIdle ops c)"
    by (simp add: keep_conn_def c)
  show ?case
  proof (cases "keep_conn ops h a")
    case True
    have "{b \<in> set (a # as). \<not> keep_conn ops h b} = {b \<in> set as. \<not> keep_conn ops h b}" using True by auto
    with True kc Cons c show ?thesis by auto
  next
    case False
    have dom: "set as \<subseteq> dom (h(a := None))" using Cons.prems fresh by auto
    have same: "keep_conn ops (h(a := None)) b = keep_conn ops h b" if "b \<in> set as" for b
      using that fresh by (intro keep_conn_update) auto
    have f: "filter (keep_conn ops (h(a := None))) as = filter (keep_conn ops h) as"
      by (rule filter_cong) (simp_all add: same)
    have g: "insert a {b \<in> set as. \<not> keep_conn ops (h(a := None)) b} = {b \<in> set (a # as). \<not> keep_conn ops h b}"
      using False same by auto
    have "distinct as" using Cons.prems by simp
    from Cons.IH [OF this dom] have "Acquire_sweep ops as (h(a := None)) =
        Inr (filter (keep_conn ops h) as, free_all {b \<in> set (a # as). \<not> keep_conn ops h b} h)"
      by (simp only: f g free_all_simps(2))
    with False kc c show ?thesis by auto
  qed
qed simp

lemma arg_min_list_Cons2:
  "arg_min_list (f :: nat \<Rightarrow> nat) (b # a # as) = arg_min_list f ((if f a < f b then a else b) # as)"
proof (cases as)
  case (Cons x xs)
  then show ?thesis by (auto simp: Let_def)
qed simp

lemma Acquire_select_eq:
  assumes "set as \<subseteq> dom h" "\<And>b. conn = Some b \<Longrightarrow> h b \<noteq> None"
  shows "Acquire_select ops h as conn =
    (let el = (case conn of None \<Rightarrow> [] | Some b \<Rightarrow> [b]) @ filter (\<lambda>a. \<not> co_IsExpired ops (the (h a))) as in
     Inr (if el = [] then None else Some (arg_min_list (\<lambda>a. co_GetUsedStreams ops (the (h a))) el)))"
  using assms
proof (induction as arbitrary: conn)
  case Nil
  then show ?case by (auto split: option.splits)
next
  case (Cons a as)
  then obtain c where c: "h a = Some c" by auto
  show ?case
  proof (cases conn)
    case None
    with Cons.IH [of None] Cons.IH [of "Some a"] Cons.prems c show ?thesis by (simp add: Let_def)
  next
    case (Some b)
    with Cons.prems obtain d where d: "h b = Some d" by auto
    with Some Cons.IH [of "Some b"] Cons.IH [of "Some a"] Cons.prems c
      arg_min_list_Cons2 [of "\<lambda>a. co_GetUsedStreams ops (the (h a))" b a]
    show ?thesis by (auto simp: Let_def simp del: arg_min_list.simps)
  qed
qed

text \<open>The connections that stay in the pool, and those of them that may get new requests.\<close>

definition live_conns :: "'c conn_ops \<Rightarrow> ('c, 'k) ConnectionPool \<Rightarrow> nat list" where
  "live_conns ops p = filter (keep_conn ops (pool_heap p)) (pool_connections p)"

definition eligible_conns :: "'c conn_ops \<Rightarrow> ('c, 'k) ConnectionPool \<Rightarrow> nat list" where
  "eligible_conns ops p = filter (\<lambda>a. \<not> co_IsExpired ops (the (pool_heap p a))) (live_conns ops p)"

definition used_streams :: "'c conn_ops \<Rightarrow> ('c, 'k) ConnectionPool \<Rightarrow> nat \<Rightarrow> nat" where
  "used_streams ops p a = co_GetUsedStreams ops (the (pool_heap p a))"

lemma arg_min_list_cong:
  "(\<And>x. x \<in> set xs \<Longrightarrow> f x = g x) \<Longrightarrow> xs \<noteq> [] \<Longrightarrow> arg_min_list f xs = arg_min_list g xs"
proof (induction xs rule: induct_list012)
  case (3 x y zs)
  then have "f x = g x" "arg_min_list f (y # zs) = arg_min_list g (y # zs)" by simp_all
  moreover have "f (arg_min_list g (y # zs)) = g (arg_min_list g (y # zs))"
    using 3(3) arg_min_list_in [of "y # zs" g] by (metis list.set_intros(2) list.simps(3))
  ultimately show ?case by (simp add: Let_def)
qed simp_all

lemma Acquire_eq:
  assumes "pool_ok p"
  shows "Acquire ops False p =
    (Inr (if eligible_conns ops p = [] then None else Some (arg_min_list (used_streams ops p) (eligible_conns ops p))),
     p\<lparr>pool_connections := live_conns ops p,
       pool_heap := free_all (set (pool_connections p) - set (live_conns ops p)) (pool_heap p)\<rparr>)"
proof -
  let ?live = "live_conns ops p"
  let ?h = "free_all (set (pool_connections p) - set ?live) (pool_heap p)"
  have "{a \<in> set (pool_connections p). \<not> keep_conn ops (pool_heap p) a} = set (pool_connections p) - set ?live"
    by (auto simp: live_conns_def)
  then have sweep: "Acquire_sweep ops (pool_connections p) (pool_heap p) = Inr (?live, ?h)"
    using assms(1) by (simp add: Acquire_sweep_eq pool_ok_def live_conns_def)
  have same: "?h a = pool_heap p a" if "a \<in> set ?live" for a using that by (simp add: free_all_def)
  have dom: "set ?live \<subseteq> dom ?h"
  proof
    fix a assume a: "a \<in> set ?live"
    then have "a \<in> dom (pool_heap p)" using assms(1) by (auto simp: pool_ok_def live_conns_def)
    with same [OF a] show "a \<in> dom ?h" by auto
  qed
  have el: "filter (\<lambda>a. \<not> co_IsExpired ops (the (?h a))) ?live = eligible_conns ops p"
    unfolding eligible_conns_def by (rule filter_cong) (simp_all add: same)
  have "set (eligible_conns ops p) \<subseteq> set ?live" by (auto simp: eligible_conns_def)
  then have arg: "arg_min_list (\<lambda>a. co_GetUsedStreams ops (the (?h a))) (eligible_conns ops p) =
      arg_min_list (used_streams ops p) (eligible_conns ops p)" if "eligible_conns ops p \<noteq> []"
    using that same by (intro arg_min_list_cong) (auto simp: used_streams_def)
  have "Acquire_select ops ?h ?live None =
      Inr (if eligible_conns ops p = [] then None else Some (arg_min_list (used_streams ops p) (eligible_conns ops p)))"
    using Acquire_select_eq [OF dom, of None ops] arg by (auto simp: el Let_def)
  with sweep show ?thesis by (simp add: Acquire_def)
qed

section \<open>Operations that work on connections outside the list\<close>

text \<open>
  \<open>safe A m\<close>: when the list points to live connections and the addresses in \<open>A\<close> are live, then \<open>m\<close> does
  not touch freed memory, keeps both, and leaves the list as it is.
\<close>

definition pool_inv :: "nat set \<Rightarrow> ('c, 'k) ConnectionPool \<Rightarrow> bool" where
  "pool_inv A p \<longleftrightarrow> pool_ok p \<and> A \<subseteq> dom (pool_heap p)"

definition safe :: "nat set \<Rightarrow> ('c, 'k, 'a) pool_io \<Rightarrow> bool" where
  "safe A m \<longleftrightarrow> (\<forall>p. pool_inv A p \<longrightarrow> fst (m p) \<noteq> Inl (UB UseAfterFree) \<and> pool_inv A (snd (m p)) \<and>
     pool_connections (snd (m p)) = pool_connections p)"

text \<open>The calls of a connection do not themselves end in a use after free.\<close>

definition ops_safe :: "'c conn_ops \<Rightarrow> bool" where
  "ops_safe ops \<longleftrightarrow> (\<forall>c.
     (\<forall>l q ps ctl. fst (co_Execute ops l q ps ctl c) \<noteq> Inl (UB UseAfterFree)) \<and>
     (\<forall>l i ps ctl. fst (co_ExecutePrepared ops l i ps ctl c) \<noteq> Inl (UB UseAfterFree)) \<and>
     (\<forall>q. fst (co_Prepare ops q c) \<noteq> Inl (UB UseAfterFree)) \<and>
     (\<forall>l b ctl. fst (co_BatchExecute ops l b ctl c) \<noteq> Inl (UB UseAfterFree)) \<and>
     fst (co_Close ops c) \<noteq> Inl (UB UseAfterFree))"

lemma safeI:
  "(\<And>p r p'. pool_inv A p \<Longrightarrow> m p = (r, p') \<Longrightarrow>
     r \<noteq> Inl (UB UseAfterFree) \<and> pool_inv A p' \<and> pool_connections p' = pool_connections p) \<Longrightarrow> safe A m"
  unfolding safe_def by (metis prod.collapse)

lemma safeD:
  assumes "safe A m" "pool_inv A p" "m p = (r, p')"
  shows "r \<noteq> Inl (UB UseAfterFree) \<and> pool_inv A p' \<and> pool_connections p' = pool_connections p"
  using assms unfolding safe_def by (metis fst_conv snd_conv)

lemma safe_bind:
  assumes "safe A m" "\<And>x. safe A (f x)"
  shows "safe A (io_bind m f)"
proof (rule safeI)
  fix p r p'
  assume p: "pool_inv A p" and b: "io_bind m f p = (r, p')"
  obtain r1 p1 where m: "m p = (r1, p1)" by fastforce
  note 1 = safeD [OF assms(1) p m]
  show "r \<noteq> Inl (UB UseAfterFree) \<and> pool_inv A p' \<and> pool_connections p' = pool_connections p"
  proof (cases r1)
    case (Inl e)
    with 1 m b show ?thesis by (auto simp: io_bind_def)
  next
    case (Inr x)
    with m b have "f x p1 = (r, p')" by (simp add: io_bind_def)
    from safeD [OF assms(2) _ this] 1 show ?thesis by auto
  qed
qed

lemma safe_pure: "safe A (io_ret x)" "safe A (io_throw e)" "safe A (cache_Get K key)" "safe A (cache_Put K key v)"
  by (auto simp: safe_def io_simps cache_Get_def cache_Put_def pool_inv_def pool_ok_def split: prod.splits)

lemma safe_with_conn:
  assumes "a \<in> A" "\<And>c. fst (m c) \<noteq> Inl (UB UseAfterFree)"
  shows "safe A (with_conn a m)"
proof (rule safeI)
  fix p r p'
  assume p: "pool_inv A p" and w: "with_conn a m p = (r, p')"
  then obtain c where c: "pool_heap p a = Some c" using assms(1) by (auto simp: pool_inv_def)
  obtain r1 c' where m: "m c = (r1, c')" by fastforce
  with w c have "r = r1" "p' = p\<lparr>pool_heap := (pool_heap p)(a \<mapsto> c')\<rparr>" by (auto simp: with_conn_def)
  with p assms(2) [of c] m show "r \<noteq> Inl (UB UseAfterFree) \<and> pool_inv A p' \<and> pool_connections p' = pool_connections p"
    by (auto simp: pool_inv_def pool_ok_def)
qed

lemma safe_with_ptr:
  assumes "set_option conn \<subseteq> A" "\<And>c. fst (m c) \<noteq> Inl (UB UseAfterFree)"
  shows "safe A (with_ptr conn m)"
proof (cases conn)
  case None
  then show ?thesis by (simp add: with_ptr_def safe_def io_simps)
next
  case (Some a)
  with assms safe_with_conn [of a A m] show ?thesis by (simp add: with_ptr_def)
qed

lemma ops_safeD:
  assumes "ops_safe ops"
  shows "fst (co_Execute ops l q ps ctl c) \<noteq> Inl (UB UseAfterFree)"
    "fst (co_ExecutePrepared ops l i ps ctl c) \<noteq> Inl (UB UseAfterFree)"
    "fst (co_Prepare ops q c) \<noteq> Inl (UB UseAfterFree)"
    "fst (co_BatchExecute ops l b ctl c) \<noteq> Inl (UB UseAfterFree)"
    "fst (co_Close ops c) \<noteq> Inl (UB UseAfterFree)"
  using assms unfolding ops_safe_def by blast+

lemma safe_prepare_batch:
  assumes "ops_safe ops" "set_option conn \<subseteq> A"
  shows "safe A (prepare_batch ops K conn els)"
proof (induction els)
  case Nil
  show ?case by (simp add: safe_def)
next
  case (Cons el els)
  have "prepare_batch ops K conn (el # els) = io_bind (cache_Get K (bq_query el)) (\<lambda>prepared_id_ptr.
     io_bind (case prepared_id_ptr of
                Some prepared_id \<Rightarrow> io_ret (BatchStatement_of_id prepared_id (bq_params el))
              | None \<Rightarrow>
                  io_bind (with_ptr conn (co_Prepare ops (bq_query el))) (\<lambda>prepared_id.
                  io_bind (cache_Put K (bq_query el) prepared_id) (\<lambda>_.
                  io_ret (BatchStatement_of_id prepared_id (bq_params el)))))
       (\<lambda>statement. io_bind (prepare_batch ops K conn els) (\<lambda>rest. io_ret (statement # rest))))"
    by (rule ext) simp
  then show ?case
    by (auto intro!: safe_bind safe_pure Cons.IH safe_with_ptr [OF assms(2)] ops_safeD [OF assms(1)] split: option.split)
qed

lemma safe_catch_Unprepared:
  assumes "safe A m"
  shows "safe A (catch_Unprepared K m)"
proof (rule safeI)
  fix p r p'
  obtain r1 p1 where m: "m p = (r1, p1)" by fastforce
  assume "pool_inv A p" "catch_Unprepared K m p = (r, p')"
  with safeD [OF assms _ m] m
  show "r \<noteq> Inl (UB UseAfterFree) \<and> pool_inv A p' \<and> pool_connections p' = pool_connections p"
    by (auto simp: catch_Unprepared_def pool_inv_def pool_ok_def
        split: sum.splits fault.splits exn.splits frame_exception.splits)
qed

lemma safe_Maintain_ping:
  assumes "ops_safe ops" "a \<in> A"
  shows "safe A (Maintain_ping ops K a)"
  unfolding Maintain_ping_def
  by (auto intro!: safe_bind safe_pure safe_with_conn assms(2) ops_safeD [OF assms(1)] safe_catch_Unprepared
      split: option.split)

section \<open>Operations on the list\<close>

lemma Push_ok:
  assumes "pool_ok p" "a \<notin> set (pool_connections p)" "pool_heap p a = Some c" "Push ops a p = (r, p')"
  shows "r = Inr () \<and> pool_ok p' \<and> set (pool_connections p') \<subseteq> insert a (set (pool_connections p))"
  using assms by (auto simp: Push_def DeleteConnection_def pool_ok_def split: if_splits)

lemma Release_ok:
  assumes "pool_ok p" "a \<notin> set (pool_connections p)" "pool_heap p a = Some c" "Release ops a p = (r, p')"
  shows "r = Inr () \<and> pool_ok p' \<and> set (pool_connections p') \<subseteq> insert a (set (pool_connections p))"
  using assms Push_ok [OF assms(1-3)]
  by (auto simp: Release_def DeleteConnection_def pool_ok_def split: if_splits)

lemma Acquire_ok:
  assumes "pool_ok p" "Acquire ops False p = (r, p')"
  shows "pool_ok p' \<and> set (pool_connections p') \<subseteq> set (pool_connections p) \<and>
    (\<exists>conn. r = Inr conn \<and> set_option conn \<subseteq> dom (pool_heap p'))"
proof -
  have sub: "set (live_conns ops p) \<subseteq> set (pool_connections p)" "set (eligible_conns ops p) \<subseteq> set (live_conns ops p)"
    by (auto simp: live_conns_def eligible_conns_def)
  from Acquire_eq [OF assms(1), of ops] assms(2)
  have p': "p' = p\<lparr>pool_connections := live_conns ops p,
       pool_heap := free_all (set (pool_connections p) - set (live_conns ops p)) (pool_heap p)\<rparr>"
    and r: "r = Inr (if eligible_conns ops p = [] then None else Some (arg_min_list (used_streams ops p) (eligible_conns ops p)))"
    by auto
  have live: "a \<in> dom (pool_heap p')" if "a \<in> set (live_conns ops p)" for a
  proof -
    have "a \<in> dom (pool_heap p)" using that sub(1) assms(1) by (auto simp: pool_ok_def)
    with that p' show ?thesis by (auto simp: free_all_def)
  qed
  have "distinct (live_conns ops p)" using assms(1) by (simp add: pool_ok_def live_conns_def)
  with p' live have "pool_ok p'" by (auto simp: pool_ok_def)
  moreover have "set_option (if eligible_conns ops p = [] then None else Some (arg_min_list (used_streams ops p) (eligible_conns ops p)))
      \<subseteq> dom (pool_heap p')"
    using arg_min_list_in [of "eligible_conns ops p" "used_streams ops p"] sub(2) live by auto
  ultimately show ?thesis using p' r sub(1) by auto
qed

lemma AcquireImmediate_scan_ok:
  assumes "distinct as" "set as \<subseteq> dom h"
  obtains r as' h' where "AcquireImmediate_scan ops as h = Inr (r, as', h')"
    "distinct as'" "set as' \<subseteq> set as" "set as' \<subseteq> dom h'" "\<forall>a \<in> set_option r. a \<in> set as \<and> a \<notin> set as' \<and> a \<in> dom h'"
    "\<forall>a. a \<notin> set as \<longrightarrow> h' a = h a"
  using assms
proof (induction as arbitrary: h thesis)
  case Nil
  show ?case by (rule Nil.prems(1) [of None "[]" h]) simp_all
next
  case (Cons a as)
  then obtain c where c: "h a = Some c" by auto
  have d: "distinct as" "a \<notin> set as" "set as \<subseteq> dom h" "set as \<subseteq> dom (h(a := None))" using Cons.prems by auto
  consider "co_IsExpired ops c" "\<not> co_IsIdle ops c" | "co_IsExpired ops c \<and> co_IsIdle ops c \<or> \<not> co_IsExpired ops c \<and> co_IsBroken ops c"
    | "\<not> co_IsExpired ops c" "\<not> co_IsBroken ops c" by blast
  then show ?case
  proof cases
    case 1
    obtain r as' h' where ih: "AcquireImmediate_scan ops as h = Inr (r, as', h')"
      "distinct as'" "set as' \<subseteq> set as" "set as' \<subseteq> dom h'" "\<forall>a \<in> set_option r. a \<in> set as \<and> a \<notin> set as' \<and> a \<in> dom h'"
      "\<forall>a. a \<notin> set as \<longrightarrow> h' a = h a"
      using Cons.IH [OF _ d(1,3)] by blast
    moreover have "h' a = Some c" "a \<notin> set as'" using ih(3,6) d(2) c by auto
    ultimately show ?thesis using 1 c d by (intro Cons.prems(1) [of r "a # as'" h']) auto
  next
    case 2
    obtain r as' h' where ih: "AcquireImmediate_scan ops as (h(a := None)) = Inr (r, as', h')"
      "distinct as'" "set as' \<subseteq> set as" "set as' \<subseteq> dom h'" "\<forall>a \<in> set_option r. a \<in> set as \<and> a \<notin> set as' \<and> a \<in> dom h'"
      "\<forall>b. b \<notin> set as \<longrightarrow> h' b = (h(a := None)) b"
      using Cons.IH [OF _ d(1,4)] by blast
    with 2 c d show ?thesis by (intro Cons.prems(1) [of r as' h']) auto
  next
    case 3
    with c d show ?thesis by (intro Cons.prems(1) [of "Some a" as h]) auto
  qed
qed

lemma AcquireImmediate_ok:
  assumes "pool_ok p" "AcquireImmediate ops p = (r, p')"
  shows "pool_ok p' \<and> set (pool_connections p') \<subseteq> set (pool_connections p) \<and>
    (\<exists>conn. r = Inr conn \<and> (\<forall>a \<in> set_option conn. a \<in> set (pool_connections p) \<and> a \<notin> set (pool_connections p') \<and> a \<in> dom (pool_heap p')))"
proof -
  from assms(1) have "distinct (pool_connections p)" "set (pool_connections p) \<subseteq> dom (pool_heap p)"
    by (simp_all add: pool_ok_def)
  then obtain conn as' h' where "AcquireImmediate_scan ops (pool_connections p) (pool_heap p) = Inr (conn, as', h')"
    "distinct as'" "set as' \<subseteq> set (pool_connections p)" "set as' \<subseteq> dom h'"
    "\<forall>a \<in> set_option conn. a \<in> set (pool_connections p) \<and> a \<notin> set as' \<and> a \<in> dom h'"
    by (rule AcquireImmediate_scan_ok)
  with assms(2) show ?thesis by (auto simp: AcquireImmediate_def pool_ok_def)
qed

lemma catch_RuntimeError_UB [simp]: "catch_RuntimeError d r = Inl (UB u) \<longleftrightarrow> r = Inl (UB u)"
  by (auto simp: catch_RuntimeError_def split: sum.split fault.split)

lemma Maintain_round_ok:
  assumes ops: "ops_safe ops" and p: "pool_ok p" and m: "Maintain_round ops K n drop_left p = (r, p')"
  shows "pool_ok p' \<and> r \<noteq> Inl (UB UseAfterFree) \<and> set (pool_connections p') \<subseteq> set (pool_connections p)"
proof -
  obtain conn p1 where a: "AcquireImmediate ops p = (Inr conn, p1)" "pool_ok p1"
    "set (pool_connections p1) \<subseteq> set (pool_connections p)"
    "\<forall>a \<in> set_option conn. a \<in> set (pool_connections p) \<and> a \<notin> set (pool_connections p1) \<and> a \<in> dom (pool_heap p1)"
    using AcquireImmediate_ok [OF p] by (metis prod.exhaust)
  show ?thesis
  proof (cases conn)
    case None
    with a m show ?thesis by (auto simp: Maintain_round_def io_bind_def io_simps)
  next
    case (Some x)
    with a(4) obtain c where c: "pool_heap p1 x = Some c" "x \<in> set (pool_connections p)" "x \<notin> set (pool_connections p1)" by auto
    show ?thesis
    proof (cases "n > min_size (pool_config p1) \<and> drop_left > 0 \<and> co_IsIdle ops c")
      case True
      obtain r2 p2 where p2: "with_conn x (co_Close ops) p1 = (r2, p2)" by fastforce
      have inv: "pool_inv {x} p1" using a(2) c by (auto simp: pool_inv_def)
      have s: "r2 \<noteq> Inl (UB UseAfterFree)" "pool_inv {x} p2" "pool_connections p2 = pool_connections p1"
        using safeD [OF safe_with_conn [of x "{x}"] inv p2] ops_safeD(5) [OF ops] by auto
      from True a(1) m Some c p2 have "p' = DeleteConnection x p2" "r = catch_RuntimeError (drop_left - 1) r2"
        by (auto simp: Maintain_round_def io_bind_def)
      with a(3) s c show ?thesis by (auto simp: DeleteConnection_def pool_ok_def pool_inv_def)
    next
      case False
      obtain r2 p2 where p2: "Maintain_ping ops K x p1 = (r2, p2)" by fastforce
      have inv: "pool_inv {x} p1" using a(2) c by (auto simp: pool_inv_def)
      have s: "r2 \<noteq> Inl (UB UseAfterFree)" "pool_inv {x} p2" "pool_connections p2 = pool_connections p1"
        using safeD [OF safe_Maintain_ping [OF ops, of x "{x}" K] inv p2] by auto
      obtain r3 p3 where p3: "Release ops x p2 = (r3, p3)" by fastforce
      obtain c2 where c2: "pool_heap p2 x = Some c2" using s(2) by (auto simp: pool_inv_def)
      have rel: "r3 = Inr ()" "pool_ok p3" "set (pool_connections p3) \<subseteq> insert x (set (pool_connections p2))"
        using Release_ok [OF _ _ c2 p3] s c(3) by (auto simp: pool_inv_def)
      have "p' = p3" "r \<noteq> Inl (UB UseAfterFree)"
        using m a(1) Some c(1) False p2 p3 rel(1) s(1)
        by (auto simp: Maintain_round_def io_bind_def split: sum.splits fault.splits if_splits)
      with rel s(3) a(3) c(2) show ?thesis by auto
    qed
  qed
qed

lemma Maintain_loop_ok:
  assumes "ops_safe ops" "pool_ok p" "Maintain_loop ops K n drop_left p = (r, p')"
  shows "pool_ok p' \<and> r \<noteq> Inl (UB UseAfterFree) \<and> set (pool_connections p') \<subseteq> set (pool_connections p)"
  using assms(2,3)
proof (induction n arbitrary: p drop_left)
  case (Suc n)
  obtain r1 p1 where m: "Maintain_round ops K (Suc n) drop_left p = (r1, p1)" by fastforce
  note 1 = Maintain_round_ok [OF assms(1) Suc.prems(1) m]
  show ?case
  proof (cases r1)
    case (Inl f)
    with 1 m Suc.prems show ?thesis by auto
  next
    case (Inr v)
    with 1 m Suc.prems Suc.IH show ?thesis by (cases v) fastforce+
  qed
qed auto

text \<open>A statement: the connection that \<open>Acquire\<close> returned stays live while the statement uses it.\<close>

lemma statement_ok:
  assumes p: "pool_ok p" and f: "\<And>conn p. safe (set_option conn) (f conn)"
    and m: "io_bind (Acquire ops False) f p = (r, p')"
  shows "pool_ok p' \<and> r \<noteq> Inl (UB UseAfterFree) \<and> set (pool_connections p') \<subseteq> set (pool_connections p)"
proof -
  obtain conn p1 where a: "Acquire ops False p = (Inr conn, p1)" "pool_ok p1"
    "set (pool_connections p1) \<subseteq> set (pool_connections p)" "set_option conn \<subseteq> dom (pool_heap p1)"
    using Acquire_ok [OF p] by (metis prod.exhaust)
  then have "f conn p1 = (r, p')" "pool_inv (set_option conn) p1" using m by (simp_all add: io_bind_def pool_inv_def)
  from safeD [OF f this(2,1)] a(3) show ?thesis by (auto simp: pool_inv_def)
qed

lemma safe_if: "safe A m1 \<Longrightarrow> safe A m2 \<Longrightarrow> safe A (\<lambda>p. (if P p then m1 else m2) p)"
  unfolding safe_def by simp

lemma safe_Execute_on:
  assumes "ops_safe ops"
  shows "safe (set_option conn) (Pool_Execute_on ops K level query params ctl conn)"
  unfolding Pool_Execute_on_def [abs_def]
  by (rule safe_if)
     (auto intro!: safe_bind safe_pure safe_with_ptr ops_safeD [OF assms] split: option.split)

lemma Pool_BatchExecute_on_if:
  "Pool_BatchExecute_on ops K store ctl conn = (\<lambda>p. (if CanPrepareStatement ctl (pool_prepared_enabled p)
      then io_bind (prepare_batch ops K conn (store_queries store))
             (\<lambda>b. with_ptr conn (co_BatchExecute ops (store_consistency store) b ctl))
      else io_bind (io_ret (map (\<lambda>el. BatchStatement_of_string (bq_query el) (bq_params el)) (store_queries store)))
             (\<lambda>b. with_ptr conn (co_BatchExecute ops (store_consistency store) b ctl))) p)"
  by (rule ext) (simp add: Pool_BatchExecute_on_def)

lemma safe_BatchExecute_on:
  assumes "ops_safe ops"
  shows "safe (set_option conn) (Pool_BatchExecute_on ops K store ctl conn)"
proof -
  have call: "safe (set_option conn) (with_ptr conn (co_BatchExecute ops (store_consistency store) b ctl))" for b
    by (intro safe_with_ptr ops_safeD [OF assms]) simp
  show ?thesis unfolding Pool_BatchExecute_on_if
    by (intro safe_if safe_bind safe_pure call safe_prepare_batch [OF assms]) simp
qed

lemma Execute_ok:
  assumes "pool_ok p" "ops_safe ops" "Pool_Execute ops K level query params ctl p = (r, p')"
  shows "pool_ok p' \<and> r \<noteq> Inl (UB UseAfterFree) \<and> set (pool_connections p') \<subseteq> set (pool_connections p)"
  by (rule statement_ok [OF assms(1) safe_Execute_on [OF assms(2)] assms(3) [unfolded Pool_Execute_def]])

lemma BatchExecute_ok:
  assumes "pool_ok p" "ops_safe ops" "Pool_BatchExecute ops K store ctl p = (r, p')"
  shows "pool_ok p' \<and> r \<noteq> Inl (UB UseAfterFree) \<and> set (pool_connections p') \<subseteq> set (pool_connections p)"
  by (rule statement_ok [OF assms(1) safe_BatchExecute_on [OF assms(2)] assms(3) [unfolded Pool_BatchExecute_def]])

lemma Maintain_ok:
  assumes "pool_ok p" "ops_safe ops" "Maintain ops K p = (r, p')"
  shows "pool_ok p' \<and> r \<noteq> Inl (UB UseAfterFree) \<and> set (pool_connections p') \<subseteq> set (pool_connections p)"
  using assms Maintain_loop_ok [OF assms(2,1)] by (auto simp: Maintain_def split: if_splits)

section \<open>The life of a pool\<close>

text \<open>
  One operation of the pool and the fault it ended in, if any: a detached connect task that finishes (the
  new connection gets an address that is not in use), a statement, a batch, or a maintenance run. A pool
  starts as \<open>Create\<close> returns it; the connections of a synchronous start have addresses of their own.
\<close>

inductive pool_step :: "'c conn_ops \<Rightarrow> 'k lru_lib \<Rightarrow> ('c, 'k) ConnectionPool \<Rightarrow> fault option \<Rightarrow> ('c, 'k) ConnectionPool \<Rightarrow> bool"
  for ops K where
  connect: "pool_connect_tasks p = Suc n \<Longrightarrow> ct_address t \<notin> dom (pool_heap p) \<Longrightarrow> \<forall>u. ct_connected t \<noteq> Inl (UB u) \<Longrightarrow>
    ConnectionPool_Connect ops t (p\<lparr>pool_connect_tasks := n\<rparr>) = (r, p') \<Longrightarrow>
    pool_step ops K p (case r of Inl f \<Rightarrow> Some f | Inr _ \<Rightarrow> None) p'"
| execute: "Pool_Execute ops K level query params ctl p = (r, p') \<Longrightarrow>
    pool_step ops K p (case r of Inl f \<Rightarrow> Some f | Inr _ \<Rightarrow> None) p'"
| batch: "Pool_BatchExecute ops K store ctl p = (r, p') \<Longrightarrow>
    pool_step ops K p (case r of Inl f \<Rightarrow> Some f | Inr _ \<Rightarrow> None) p'"
| maintain: "Maintain ops K p = (u, p') \<Longrightarrow> pool_step ops K p (case u of Inl f \<Rightarrow> Some f | Inr _ \<Rightarrow> None) p'"

inductive pool_reachable :: "'c conn_ops \<Rightarrow> 'k lru_lib \<Rightarrow> ('c, 'k) ConnectionPool \<Rightarrow> bool" for ops K where
  create: "ConnectionPool_Create ops K outcome description keyspace init_mode settings conn_settings = Inr p \<Longrightarrow>
    inj (\<lambda>i. ct_address (outcome i)) \<Longrightarrow> \<forall>i u. ct_connected (outcome i) \<noteq> Inl (UB u) \<Longrightarrow> pool_reachable ops K p"
| step: "pool_reachable ops K p \<Longrightarrow> pool_step ops K p f p' \<Longrightarrow> pool_reachable ops K p'"

lemma DoConnect_ok:
  assumes "pool_ok p" "a \<notin> dom (pool_heap p)" "DoConnect ops sl cl connected a p = (r, p')" "\<forall>u. connected \<noteq> Inl (UB u)"
  shows "pool_ok p' \<and> r \<noteq> Inl (UB UseAfterFree) \<and> set (pool_connections p') \<subseteq> insert a (set (pool_connections p))"
proof (cases "sl \<and> cl \<and> (\<exists>c. connected = Inr c)")
  case True
  then obtain c where c: "sl" "cl" "connected = Inr c" by blast
  let ?p = "p\<lparr>pool_heap := (pool_heap p)(a \<mapsto> c)\<rparr>"
  have p: "pool_ok ?p" "a \<notin> set (pool_connections ?p)" "pool_heap ?p a = Some c"
    using assms(1,2) by (auto simp: pool_ok_def)
  obtain r1 p1 where push: "Push ops a ?p = (r1, p1)" by fastforce
  from Push_ok [OF p push] assms(3) c push show ?thesis by (auto simp: DoConnect_def io_bind_def io_simps)
next
  case False
  with assms show ?thesis by (cases connected) (auto simp: DoConnect_def split: if_splits fault.splits)
qed

lemma Connect_ok:
  assumes "pool_ok p" "ct_address t \<notin> dom (pool_heap p)" "ConnectionPool_Connect ops t p = (r, p')" "\<forall>u. ct_connected t \<noteq> Inl (UB u)"
  shows "pool_ok p' \<and> r \<noteq> Inl (UB UseAfterFree) \<and> set (pool_connections p') \<subseteq> insert (ct_address t) (set (pool_connections p))"
  using DoConnect_ok [OF assms(1,2) _ assms(4)] assms(3) by (simp add: ConnectionPool_Connect_def Let_def)

lemma pool_step_ok:
  assumes "ops_safe ops" "pool_ok p" "pool_step ops K p f p'"
  shows "pool_ok p' \<and> f \<noteq> Some (UB UseAfterFree)"
  using assms(3)
proof cases
  case (connect n t r)
  have "pool_ok (p\<lparr>pool_connect_tasks := n\<rparr>)" using assms(2) by (simp add: pool_ok_def)
  from Connect_ok [OF this _ connect(5,4)] connect(1,3) show ?thesis by (cases r) auto
next
  case (execute level query params ctl r)
  with Execute_ok [OF assms(2,1) execute(2)] show ?thesis by (cases r) auto
next
  case (batch store ctl r)
  with BatchExecute_ok [OF assms(2,1) batch(2)] show ?thesis by (cases r) auto
next
  case (maintain u)
  with Maintain_ok [OF assms(2,1) maintain(2)] show ?thesis by (cases u) auto
qed

text \<open>A synchronous start: every task adds at most its own connection.\<close>

lemma Connect_heap:
  assumes "ConnectionPool_Connect ops t p = (r, p')"
  shows "dom (pool_heap p') \<subseteq> insert (ct_address t) (dom (pool_heap p))"
  using assms
  by (auto simp: ConnectionPool_Connect_def DoConnect_def Push_def DeleteConnection_def Let_def io_bind_def io_simps
      split: if_splits sum.splits fault.splits)

lemma Init_tasks_ok:
  assumes "pool_ok p" "distinct (map ct_address ts)" "ct_address ` set ts \<inter> dom (pool_heap p) = {}"
    and "\<forall>t \<in> set ts. \<forall>u. ct_connected t \<noteq> Inl (UB u)" "Init_tasks ops ts p = (r, p')"
  shows "pool_ok p' \<and> length (pool_connections p') \<le> length (pool_connections p) + length ts"
  using assms
proof (induction ts arbitrary: p)
  case (Cons t ts)
  obtain r1 p1 where c: "ConnectionPool_Connect ops t p = (r1, p1)" by fastforce
  have ok: "pool_ok p1" and sub: "set (pool_connections p1) \<subseteq> insert (ct_address t) (set (pool_connections p))"
    using Connect_ok [OF Cons.prems(1) _ c] Cons.prems(3,4) by auto
  have len: "length (pool_connections p1) \<le> Suc (length (pool_connections p))"
    using card_mono [OF _ sub] ok Cons.prems(1)
    by (simp add: pool_ok_def distinct_card card_insert_if split: if_splits)
  show ?case
  proof (cases "\<exists>u. r1 = Inl (UB u)")
    case True
    with Cons.prems(5) c ok len show ?thesis by auto
  next
    case False
    with Cons.prems(5) c have rest: "Init_tasks ops ts p1 = (r, p')" by (auto split: sum.splits fault.splits)
    have fresh: "a \<notin> S \<Longrightarrow> S \<inter> D = {} \<Longrightarrow> D' \<subseteq> insert a D \<Longrightarrow> S \<inter> D' = {}" for a S and D D' :: "nat set"
      by blast
    have "ct_address ` set ts \<inter> dom (pool_heap p1) = {}"
      by (rule fresh [OF _ _ Connect_heap [OF c]]) (use Cons.prems(2,3) in auto)
    from Cons.IH [OF ok _ this _ rest] Cons.prems(2,4) len show ?thesis by auto
  qed
qed simp

lemma ConnectionPool_Create_cases:
  assumes "ConnectionPool_Create ops K outcome description keyspace init_mode settings conn_settings = Inr p"
  obtains impl where "mk_ConnectionPool K description keyspace settings conn_settings = Inr impl"
    "Init ops outcome init_mode impl = (Inr (), p)"
proof -
  from assms obtain impl where impl: "mk_ConnectionPool K description keyspace settings conn_settings = Inr impl"
    and "(case Init ops outcome init_mode impl of (Inl f, _) \<Rightarrow> Inl f | (Inr _, impl) \<Rightarrow> Inr impl) = Inr p"
    unfolding ConnectionPool_Create_def res_bind_eq_Inr by blast
  then show ?thesis by (intro that) (auto split: prod.splits sum.splits)
qed

lemma ConnectionPool_Create_ok:
  assumes "ConnectionPool_Create ops K outcome description keyspace init_mode settings conn_settings = Inr p"
    and "inj (\<lambda>i. ct_address (outcome i))" "\<forall>i u. ct_connected (outcome i) \<noteq> Inl (UB u)"
  shows "pool_ok p \<and> length (pool_connections p) \<le> min_size settings"
proof -
  from assms(1) obtain impl where impl: "mk_ConnectionPool K description keyspace settings conn_settings = Inr impl"
    and init: "Init ops outcome init_mode impl = (Inr (), p)" by (rule ConnectionPool_Create_cases)
  from impl have empty: "pool_connections impl = []" "pool_heap impl = Map.empty" "pool_config impl = settings"
    by (auto simp: mk_ConnectionPool_def res_bind_eq_Inr)
  let ?ts = "map outcome [0..<min_size settings]"
  show ?thesis
  proof (cases init_mode)
    case kAsync
    with init empty show ?thesis by (auto simp: Init_def StartMaintainTask_def pool_ok_def split: if_splits)
  next
    case kSync
    with init empty obtain p1 where p1: "Init_tasks ops ?ts impl = (Inr (), p1)" "p = StartMaintainTask p1"
      by (auto simp: Init_def io_bind_def split: if_splits prod.splits sum.splits)
    have "distinct (map ct_address ?ts)"
      using assms(2) by (auto simp: distinct_map inj_on_def inj_def)
    from Init_tasks_ok [OF _ this _ _ p1(1)] empty assms(3) p1(2) show ?thesis
      by (auto simp: pool_ok_def StartMaintainTask_def)
  qed
qed

lemma pool_reachable_ok:
  assumes "ops_safe ops" "pool_reachable ops K p"
  shows "pool_ok p"
  using assms(2)
proof induction
  case (create outcome description keyspace init_mode settings conn_settings p)
  then show ?case using ConnectionPool_Create_ok by blast
next
  case (step p f p')
  with pool_step_ok [OF assms(1)] show ?case by blast
qed

section \<open>Properties of the pool\<close>

text \<open>
  Connections for the examples: a connection is its load, its broken flag and the identifiers it was
  asked for; and a cache that never evicts.
\<close>

definition stub_ops :: "(nat \<times> bool) conn_ops" where
  "stub_ops = \<lparr>co_IsExpired = (\<lambda>_. False), co_IsBroken = snd, co_IsIdle = (\<lambda>c. fst c = 0), co_GetUsedStreams = fst,
     co_Execute = (\<lambda>_ _ _ _ c. (Inr None, c)), co_ExecutePrepared = (\<lambda>_ _ _ _ c. (Inr None, c)),
     co_Prepare = (\<lambda>q c. (Inr (rev q), c)), co_BatchExecute = (\<lambda>_ _ _ c. (Inr None, c)),
     co_Close = (\<lambda>c. (Inr (), c))\<rparr>"

definition map_cache :: "(RawBuffer \<rightharpoonup> RawBuffer) lru_lib" where
  "map_cache = \<lparr>lru_New = (\<lambda>_ _. Inr Map.empty), lru_Get = (\<lambda>k m. (m k, m)), lru_Put = (\<lambda>k v m. m(k \<mapsto> v)), lru_Invalidate = (\<lambda>_. Map.empty)\<rparr>"

definition example_settings :: PoolSettings where
  "example_settings = \<lparr>min_size = 1, max_pool_size = 4, max_queue_size = 0, connecting_limit = 0,
     prepared_statement_cache_ways = 1, prepared_statement_cache_way_size = 1, prepared_statement_cache_enabled = True\<rparr>"

definition new_pool :: "(nat \<times> bool, RawBuffer \<rightharpoonup> RawBuffer) ConnectionPool" where
  "new_pool = \<lparr>pool_description = example_node, pool_keyspace = ''shop'', pool_connections = [], pool_heap = Map.empty,
     pool_prepared = Map.empty, pool_prepared_enabled = True, pool_wait_count = 0, pool_config = example_settings,
     pool_connection_settings = \<lparr>max_ttl = None, recent_errors_threshold = 2\<rparr>, pool_connect_tasks = 1,
     pool_maintain_running = True\<rparr>"

definition example_pool :: "(nat \<times> bool, RawBuffer \<rightharpoonup> RawBuffer) ConnectionPool" where
  "example_pool = new_pool\<lparr>pool_connections := [0, 1, 2],
     pool_heap := [0 \<mapsto> (7, True), 1 \<mapsto> (5, False), 2 \<mapsto> (3, False)], pool_connect_tasks := 0\<rparr>"

definition stub_task :: "nat \<Rightarrow> (nat \<times> bool) connect_task" where
  "stub_task i = \<lparr>ct_try_lock = True, ct_timed_lock = False, ct_connecting_lock = True, ct_connected = Inr (0, False),
     ct_address = i\<rparr>"

lemma new_pool_created:
  "ConnectionPool_Create stub_ops map_cache stub_task example_node ''shop'' kAsync example_settings
     \<lparr>max_ttl = None, recent_errors_threshold = 2\<rparr> = Inr new_pool"
  by (simp add: ConnectionPool_Create_def mk_ConnectionPool_def Init_def StartMaintainTask_def map_cache_def new_pool_def
      example_settings_def)

lemma new_pool_reachable: "pool_reachable stub_ops map_cache new_pool"
  by (rule pool_reachable.create [OF new_pool_created]) (simp_all add: stub_task_def inj_def)

lemma stub_ops_safe: "ops_safe stub_ops"
  by (simp add: ops_safe_def stub_ops_def)

lemma example_pool_ok: "pool_ok example_pool"
  by (simp add: pool_ok_def example_pool_def new_pool_def)

text \<open>C13: Taking a connection for a statement deletes exactly the connections that are broken, or expired
  and idle, keeps the others in their order, and returns, of the kept ones that are not expired, the
  first with the fewest used streams, or no connection when there is none.\<close>

theorem acquire_least_loaded:
  assumes "pool_ok p"
  shows "Acquire ops False p =
    (Inr (if eligible_conns ops p = [] then None else Some (arg_min_list (used_streams ops p) (eligible_conns ops p))),
     p\<lparr>pool_connections := live_conns ops p,
       pool_heap := free_all (set (pool_connections p) - set (live_conns ops p)) (pool_heap p)\<rparr>)"
  using assms by (rule Acquire_eq)

theorem acquire_least_loaded_witness:
  "Acquire stub_ops False example_pool =
    (Inr (if eligible_conns stub_ops example_pool = [] then None
       else Some (arg_min_list (used_streams stub_ops example_pool) (eligible_conns stub_ops example_pool))),
     example_pool\<lparr>pool_connections := live_conns stub_ops example_pool,
       pool_heap := free_all (set (pool_connections example_pool) - set (live_conns stub_ops example_pool)) (pool_heap example_pool)\<rparr>) \<and>
   live_conns stub_ops example_pool = [1, 2] \<and>
   arg_min_list (used_streams stub_ops example_pool) (eligible_conns stub_ops example_pool) = 2"
  using acquire_least_loaded [OF example_pool_ok, of stub_ops]
  by (simp add: live_conns_def eligible_conns_def keep_conn_def example_pool_def new_pool_def stub_ops_def used_streams_def)

text \<open>C5: In every sequence of finished connect tasks, statements, batches and maintenance runs that do
  not overlap, the pointers in the pool are distinct and point to live connections, and no operation
  ever calls a connection that was deleted: neither the one it took out of the pool nor one that it
  dropped.\<close>

theorem pool_memory_safe:
  assumes "ops_safe ops" "pool_reachable ops K p" "pool_step ops K p f p'"
  shows "f \<noteq> Some (UB UseAfterFree) \<and> distinct (pool_connections p') \<and> set (pool_connections p') \<subseteq> dom (pool_heap p')"
  using pool_step_ok [OF assms(1) pool_reachable_ok [OF assms(1,2)] assms(3)] by (simp add: pool_ok_def)

lemma stub_pool_step:
  "pool_step stub_ops map_cache new_pool None
     (new_pool\<lparr>pool_connections := [4], pool_heap := [4 \<mapsto> (0, False)], pool_connect_tasks := 0\<rparr>)"
  using pool_step.connect [of new_pool 0 "stub_task 4" stub_ops "Inr True"
      "new_pool\<lparr>pool_connections := [4], pool_heap := [4 \<mapsto> (0, False)], pool_connect_tasks := 0\<rparr>" map_cache]
  by (simp add: new_pool_def stub_task_def ConnectionPool_Connect_def DoConnect_def Push_def io_bind_def io_simps stub_ops_def)

theorem pool_memory_safe_witness:
  "None \<noteq> Some (UB UseAfterFree) \<and>
    distinct (pool_connections (new_pool\<lparr>pool_connections := [4], pool_heap := [4 \<mapsto> (0, False)], pool_connect_tasks := 0\<rparr>)) \<and>
    set (pool_connections (new_pool\<lparr>pool_connections := [4], pool_heap := [4 \<mapsto> (0, False)], pool_connect_tasks := 0\<rparr>))
      \<subseteq> dom (pool_heap (new_pool\<lparr>pool_connections := [4], pool_heap := [4 \<mapsto> (0, False)], pool_connect_tasks := 0\<rparr>))"
  by (rule pool_memory_safe [OF stub_ops_safe new_pool_reachable stub_pool_step])

text \<open>After the initial connect tasks nothing adds connections: statements, batches and maintenance
  runs only keep or lose the connections that are in the pool, so a connection that is dropped is never
  replaced.\<close>

theorem pool_never_grows:
  assumes "ops_safe ops" "pool_ok p"
    and "Pool_Execute ops K level query params ctl p = (r, p') \<or> Pool_BatchExecute ops K store ctl p = (r, p') \<or>
      Maintain ops K p = (u, p')"
  shows "set (pool_connections p') \<subseteq> set (pool_connections p) \<and> length (pool_connections p') \<le> length (pool_connections p)"
proof -
  have "pool_ok p' \<and> set (pool_connections p') \<subseteq> set (pool_connections p)"
    using assms(3) Execute_ok [OF assms(2,1)] BatchExecute_ok [OF assms(2,1)] Maintain_ok [OF assms(2,1)] by metis
  moreover from this have "length (pool_connections p') = card (set (pool_connections p'))"
    "length (pool_connections p) = card (set (pool_connections p))"
    using assms(2) by (simp_all add: pool_ok_def distinct_card)
  ultimately show ?thesis using card_mono [of "set (pool_connections p)" "set (pool_connections p')"] by simp
qed

theorem pool_never_grows_witness:
  "set (pool_connections (snd (Maintain stub_ops map_cache example_pool))) \<subseteq> set (pool_connections example_pool) \<and>
    length (pool_connections (snd (Maintain stub_ops map_cache example_pool))) \<le> length (pool_connections example_pool)"
  by (rule pool_never_grows [OF stub_ops_safe example_pool_ok, where K = map_cache and u = "fst (Maintain stub_ops map_cache example_pool)"])
     simp

lemma no_connection_null_deref:
  fixes p :: "('c, 'k) ConnectionPool"
  assumes "pool_ok p" "eligible_conns ops p = []"
  shows "fst (Pool_Execute ops K level query params ctl p) = Inl (UB NullDeref) \<and>
    fst (Pool_BatchExecute ops K \<lparr>store_consistency = level, store_queries = queries\<rparr> ctl p) = Inl (UB NullDeref)"
proof -
  have null: "with_ptr None m = (\<lambda>p. (Inl (UB NullDeref), p))" for m :: "('c, 'x) io"
    by (simp add: with_ptr_def io_lift_def)
  have bind: "fst (io_bind m (\<lambda>x p. (Inl (UB NullDeref), p)) q) = Inl (UB NullDeref)"
    if "fst (m q) = Inl (UB NullDeref) \<or> (\<exists>x. fst (m q) = Inr x)" for m :: "('c, 'k, 'x) pool_io" and q
    using that by (auto simp: io_bind_def split: prod.splits)
  have batch: "fst (prepare_batch ops K None els q) = Inl (UB NullDeref) \<or> (\<exists>x. fst (prepare_batch ops K None els q) = Inr x)" for els q
  proof (induction els arbitrary: q)
    case (Cons el els)
    obtain v k where g: "lru_Get K (bq_query el) (pool_prepared q) = (v, k)" by fastforce
    show ?case
    proof (cases v)
      case None
      with g show ?thesis by (simp add: io_bind_def cache_Get_def null)
    next
      case (Some i)
      with g Cons [of "q\<lparr>pool_prepared := k\<rparr>"] show ?thesis
        by (auto simp: io_bind_def io_simps cache_Get_def split: prod.splits)
    qed
  qed simp
  have acq: "io_bind (Acquire ops False) f p = f None (snd (Acquire ops False p))" for f :: "nat option \<Rightarrow> ('c, 'k, 'x) pool_io"
    using Acquire_eq [OF assms(1), of ops] assms(2) by (simp add: io_bind_def)
  have "fst (Pool_Execute_on ops K level query params ctl None q) = Inl (UB NullDeref)" for q
    by (auto simp: Pool_Execute_on_def null io_bind_def cache_Get_def split: prod.splits option.splits)
  moreover have "fst (Pool_BatchExecute_on ops K store ctl None q) = Inl (UB NullDeref)" for store q
    using batch [of "store_queries store" q] by (auto simp: Pool_BatchExecute_on_def null bind io_simps)
  ultimately show ?thesis by (simp add: Pool_Execute_def Pool_BatchExecute_def acq)
qed

text \<open>When no connection can take a statement (the pool is empty, or all its connections are broken or
  expired), the pointer is used without a test: executing a statement and executing a batch dereference
  a null pointer instead of throwing.\<close>

theorem execute_null_deref:
  fixes p :: "('c, 'k) ConnectionPool"
  assumes "pool_ok p" "eligible_conns ops p = []"
  shows "fst (Pool_Execute ops K level query params ctl p) = Inl (UB NullDeref) \<and>
    fst (Pool_BatchExecute ops K \<lparr>store_consistency = level, store_queries = queries\<rparr> ctl p) = Inl (UB NullDeref)"
  by (rule no_connection_null_deref [OF assms])

theorem execute_null_deref_witness:
  "fst (Pool_Execute stub_ops map_cache kOne [1] [] None (example_pool\<lparr>pool_connections := [0]\<rparr>)) = Inl (UB NullDeref) \<and>
   fst (Pool_BatchExecute stub_ops map_cache \<lparr>store_consistency = kOne, store_queries = []\<rparr> None
     (example_pool\<lparr>pool_connections := [0]\<rparr>)) = Inl (UB NullDeref)"
  by (rule execute_null_deref)
     (simp_all add: pool_ok_def example_pool_def new_pool_def eligible_conns_def live_conns_def keep_conn_def stub_ops_def)

text \<open>C30: The pool hands out raw pointers and lets go of its lock, so statements that overlap are not safe:
  when the connection that one statement has taken is marked broken (by the timeout of another request
  on it), the next statement that takes a connection deletes it, and the first statement, whatever the
  cache and its options say, then calls a deleted object.\<close>

theorem acquire_race_use_after_free:
  assumes "pool_ok p" "Acquire ops False p = (Inr (Some a), p1)" "co_IsBroken ops broken"
  shows "fst (Pool_Execute_on ops K level query params ctl (Some a)
      (snd (Acquire ops False (p1\<lparr>pool_heap := (pool_heap p1)(a \<mapsto> broken)\<rparr>)))) = Inl (UB UseAfterFree)"
proof -
  let ?p2 = "p1\<lparr>pool_heap := (pool_heap p1)(a \<mapsto> broken)\<rparr>"
  from Acquire_eq [OF assms(1), of ops] assms(2)
  have p1: "pool_connections p1 = live_conns ops p" and a: "eligible_conns ops p \<noteq> []"
    "a = arg_min_list (used_streams ops p) (eligible_conns ops p)"
    by (auto split: if_splits)
  then have "a \<in> set (pool_connections p1)"
    using arg_min_list_in [OF a(1), of "used_streams ops p"] by (auto simp: eligible_conns_def)
  moreover have ok: "pool_ok ?p2"
    using Acquire_ok [OF assms(1,2)] by (auto simp: pool_ok_def)
  moreover have "a \<notin> set (live_conns ops ?p2)"
    using assms(3) by (simp add: live_conns_def keep_conn_def)
  ultimately have freed: "pool_heap (snd (Acquire ops False ?p2)) a = None"
    by (simp add: Acquire_eq [OF ok] free_all_def)
  have "fst (with_ptr (Some a) m q) = Inl (UB UseAfterFree)" if "pool_heap q a = None" for m and q :: "('a, 'b) ConnectionPool"
    using that by (simp add: with_ptr_def with_conn_def)
  with freed show ?thesis
    by (auto simp: Pool_Execute_on_def io_bind_def cache_Get_def with_ptr_def with_conn_def split: prod.splits option.splits)
qed

theorem acquire_race_use_after_free_witness:
  "Acquire stub_ops False example_pool = (Inr (Some 2), example_pool\<lparr>pool_connections := [1, 2],
     pool_heap := [1 \<mapsto> (5, False), 2 \<mapsto> (3, False)]\<rparr>) \<and>
   fst (Pool_Execute_on stub_ops map_cache kOne [1] [] None (Some 2)
      (snd (Acquire stub_ops False (example_pool\<lparr>pool_connections := [1, 2],
         pool_heap := [1 \<mapsto> (5, False), 2 \<mapsto> (3, True)]\<rparr>)))) = Inl (UB UseAfterFree)"
proof -
  let ?p1 = "example_pool\<lparr>pool_connections := [1, 2], pool_heap := [1 \<mapsto> (5, False), 2 \<mapsto> (3, False)]\<rparr>"
  have taken: "Acquire stub_ops False example_pool = (Inr (Some 2), ?p1)"
    by (auto simp: Acquire_def example_pool_def new_pool_def stub_ops_def res_bind_def fun_eq_iff)
  from acquire_race_use_after_free [OF example_pool_ok taken, of "(3, True)" map_cache kOne "[1]" "[]" None]
  have "fst (Pool_Execute_on stub_ops map_cache kOne [1] [] None (Some 2)
      (snd (Acquire stub_ops False (?p1\<lparr>pool_heap := (pool_heap ?p1)(2 \<mapsto> (3, True))\<rparr>)))) = Inl (UB UseAfterFree)"
    by (simp add: stub_ops_def)
  with taken show ?thesis by simp
qed

end
