(* ===== verification/Cql_Prepared.thy ===== *)
theory Cql_Prepared
  imports Cql_Pool
begin

text \<open>
  The cache of prepared statements of a pool: which identifiers it can hold, what a statement or a batch
  executes when it finds one there, and what the maintenance runs do to it.
\<close>

section \<open>Prepared statements\<close>

text \<open>
  The cache, seen as a partial map: \<open>Get\<close> returns what the map has, possibly reordering; \<open>Put\<close> stores the
  value and may evict others; \<open>Invalidate\<close> leaves nothing.
\<close>

definition lru_contract :: "'k lru_lib \<Rightarrow> ('k \<Rightarrow> RawBuffer \<rightharpoonup> RawBuffer) \<Rightarrow> bool" where
  "lru_contract K view \<longleftrightarrow>
     (\<forall>key k. fst (lru_Get K key k) = view k key \<and> view (snd (lru_Get K key k)) = view k) \<and>
     (\<forall>key v k. view (lru_Put K key v k) key = Some v \<and> view (lru_Put K key v k) \<subseteq>\<^sub>m (view k)(key \<mapsto> v)) \<and>
     (\<forall>k. view (lru_Invalidate K k) = Map.empty)"

text \<open>\<open>issued q i\<close>: the server has returned the identifier \<open>i\<close> for the statement \<open>q\<close>.\<close>

definition issues :: "'c conn_ops \<Rightarrow> (RawBuffer \<Rightarrow> RawBuffer \<Rightarrow> bool) \<Rightarrow> bool" where
  "issues ops issued \<longleftrightarrow> (\<forall>q c i. fst (co_Prepare ops q c) = Inr i \<longrightarrow> issued q i)"

definition cache_sound :: "('k \<Rightarrow> RawBuffer \<rightharpoonup> RawBuffer) \<Rightarrow> (RawBuffer \<Rightarrow> RawBuffer \<Rightarrow> bool) \<Rightarrow> ('c, 'k) ConnectionPool \<Rightarrow> bool" where
  "cache_sound view issued p \<longleftrightarrow> (\<forall>q i. view (pool_prepared p) q = Some i \<longrightarrow> issued q i)"

lemma cache_Get_sound:
  assumes "lru_contract K view" "cache_sound view issued p" "cache_Get K q p = (r, p')"
  shows "cache_sound view issued p' \<and> (\<exists>v. r = Inr v \<and> v = view (pool_prepared p) q \<and> (\<forall>i. v = Some i \<longrightarrow> issued q i))"
proof -
  obtain v k where g: "lru_Get K q (pool_prepared p) = (v, k)" by fastforce
  from assms(1) have "fst (lru_Get K q (pool_prepared p)) = view (pool_prepared p) q"
    "view (snd (lru_Get K q (pool_prepared p))) = view (pool_prepared p)"
    unfolding lru_contract_def by blast+
  with g assms(2,3) show ?thesis by (auto simp: cache_Get_def cache_sound_def)
qed

lemma cache_Put_sound:
  assumes "lru_contract K view" "cache_sound view issued p" "issued q i" "cache_Put K q i p = (r, p')"
  shows "cache_sound view issued p'"
proof -
  have "view (pool_prepared p') \<subseteq>\<^sub>m (view (pool_prepared p))(q \<mapsto> i)"
    using assms(1,4) by (auto simp: cache_Put_def lru_contract_def)
  then have "((view (pool_prepared p))(q \<mapsto> i)) x = Some v" if "view (pool_prepared p') x = Some v" for x v
    using that by (metis domI map_le_def)
  with assms(2,3) show ?thesis unfolding cache_sound_def by (metis fun_upd_apply option.inject)
qed

lemma with_conn_prepared: "with_conn a m p = (r, p') \<Longrightarrow> pool_prepared p' = pool_prepared p"
  by (auto simp: with_conn_def split: option.splits prod.splits)

lemma with_ptr_prepared: "with_ptr conn m p = (r, p') \<Longrightarrow> pool_prepared p' = pool_prepared p"
  by (auto simp: with_ptr_def io_lift_def dest: with_conn_prepared split: option.splits)

lemma with_ptr_Prepare: "issues ops issued \<Longrightarrow> with_ptr conn (co_Prepare ops q) p = (Inr i, p') \<Longrightarrow> issued q i"
proof -
  assume i: "issues ops issued" and "with_ptr conn (co_Prepare ops q) p = (Inr i, p')"
  then obtain c where "fst (co_Prepare ops q c) = Inr i"
    by (auto simp: with_ptr_def with_conn_def io_lift_def split: option.splits prod.splits) (metis fst_conv)
  with i show ?thesis unfolding issues_def by blast
qed

text \<open>
  \<open>sound view issued R m\<close>: \<open>m\<close> keeps the cache sound, and a value it returns satisfies \<open>R\<close>.
\<close>

definition sound :: "('k \<Rightarrow> RawBuffer \<rightharpoonup> RawBuffer) \<Rightarrow> (RawBuffer \<Rightarrow> RawBuffer \<Rightarrow> bool) \<Rightarrow> ('a \<Rightarrow> bool) \<Rightarrow>
    ('c, 'k, 'a) pool_io \<Rightarrow> bool" where
  "sound view issued R m \<longleftrightarrow> (\<forall>p. cache_sound view issued p \<longrightarrow>
     cache_sound view issued (snd (m p)) \<and> (\<forall>x. fst (m p) = Inr x \<longrightarrow> R x))"

lemma soundD: "sound view issued R m \<Longrightarrow> cache_sound view issued p \<Longrightarrow> m p = (r, p') \<Longrightarrow>
    cache_sound view issued p' \<and> (\<forall>x. r = Inr x \<longrightarrow> R x)"
  unfolding sound_def by (metis fst_conv snd_conv)

lemma soundI:
  "(\<And>p r p'. cache_sound view issued p \<Longrightarrow> m p = (r, p') \<Longrightarrow>
     cache_sound view issued p' \<and> (\<forall>x. r = Inr x \<longrightarrow> R x)) \<Longrightarrow> sound view issued R m"
  unfolding sound_def by (metis prod.collapse)

lemma sound_mono: "sound view issued R m \<Longrightarrow> (\<And>x. R x \<Longrightarrow> S x) \<Longrightarrow> sound view issued S m"
  unfolding sound_def by blast

lemma sound_bind:
  fixes m :: "('c, 'k, 'a) pool_io" and f :: "'a \<Rightarrow> ('c, 'k, 'b) pool_io"
  assumes "sound view issued R m" "\<And>x. R x \<Longrightarrow> sound view issued S (f x)"
  shows "sound view issued S (io_bind m f)"
  unfolding sound_def
proof (intro allI impI)
  fix p :: "('c, 'k) ConnectionPool"
  assume p: "cache_sound view issued p"
  obtain r1 p1 where m: "m p = (r1, p1)" by fastforce
  note 1 = soundD [OF assms(1) p m]
  show "cache_sound view issued (snd (io_bind m f p)) \<and> (\<forall>x. fst (io_bind m f p) = Inr x \<longrightarrow> S x)"
  proof (cases r1)
    case (Inl e)
    with 1 m show ?thesis by (simp add: io_bind_def)
  next
    case (Inr x)
    with 1 have "sound view issued S (f x)" "cache_sound view issued p1" using assms(2) by auto
    with Inr m show ?thesis by (simp add: io_bind_def sound_def)
  qed
qed

lemma sound_unchanged:
  assumes "\<And>p. pool_prepared (snd (m p)) = pool_prepared p"
  shows "sound view issued (\<lambda>_. True) m"
  using assms by (simp add: sound_def cache_sound_def)

lemma sound_ret: "R x \<Longrightarrow> sound view issued R (io_ret x)"
  by (simp add: sound_def io_simps)

lemma sound_Get:
  assumes "lru_contract K view"
  shows "sound view issued (\<lambda>v. \<forall>i. v = Some i \<longrightarrow> issued q i) (cache_Get K q :: ('c, 'k, RawBuffer option) pool_io)"
  unfolding sound_def
proof (intro allI impI)
  fix p :: "('c, 'k) ConnectionPool"
  assume p: "cache_sound view issued p"
  from cache_Get_sound [OF assms p, of q "fst (cache_Get K q p)" "snd (cache_Get K q p)"]
  show "cache_sound view issued (snd (cache_Get K q p)) \<and>
      (\<forall>x. fst (cache_Get K q p) = Inr x \<longrightarrow> (\<forall>i. x = Some i \<longrightarrow> issued q i))" by auto
qed

lemma sound_Put: "lru_contract K view \<Longrightarrow> issued q i \<Longrightarrow> sound view issued (\<lambda>_. True) (cache_Put K q i)"
  unfolding sound_def using cache_Put_sound by (metis prod.collapse)

lemma sound_with_conn: "sound view issued (\<lambda>_. True) (with_conn a m)"
  by (rule sound_unchanged) (metis prod.collapse with_conn_prepared)

lemma sound_with_ptr: "sound view issued (\<lambda>_. True) (with_ptr conn m)"
  by (rule sound_unchanged) (metis prod.collapse with_ptr_prepared)

lemma sound_Prepare:
  assumes "issues ops issued"
  shows "sound view issued (issued q) (with_ptr conn (co_Prepare ops q))"
  unfolding sound_def using sound_with_ptr [unfolded sound_def] with_ptr_Prepare [OF assms] by (metis prod.collapse)

lemma sound_Prepare_conn:
  "issues ops issued \<Longrightarrow> sound view issued (issued q) (with_conn a (co_Prepare ops q))"
  using sound_Prepare [of ops issued view q "Some a"] by (simp add: with_ptr_def)

lemma sound_prepare_batch:
  assumes "lru_contract K view" "issues ops issued"
  shows "sound view issued (list_all2 (\<lambda>el st. \<exists>i. issued (bq_query el) i \<and> st = BatchStatement_of_id i (bq_params el)) els)
    (prepare_batch ops K conn els)"
proof (induction els)
  case Nil
  show ?case by (simp add: sound_def)
next
  case (Cons el els)
  let ?one = "\<lambda>st. \<exists>i. issued (bq_query el) i \<and> st = BatchStatement_of_id i (bq_params el)"
  let ?all = "list_all2 (\<lambda>el st. \<exists>i. issued (bq_query el) i \<and> st = BatchStatement_of_id i (bq_params el))"
  have fresh: "sound view issued ?one (io_bind (with_ptr conn (co_Prepare ops (bq_query el))) (\<lambda>prepared_id.
      io_bind (cache_Put K (bq_query el) prepared_id) (\<lambda>_. io_ret (BatchStatement_of_id prepared_id (bq_params el)))))"
    by (rule sound_bind [OF sound_Prepare [OF assms(2)]], rule sound_bind [OF sound_Put [OF assms(1)]])
       (auto intro: sound_ret)
  have rest: "sound view issued (?all (el # els)) (io_bind (prepare_batch ops K conn els) (\<lambda>rest. io_ret (st # rest)))" if "?one st" for st
    by (rule sound_bind [OF Cons.IH]) (use that in \<open>auto intro: sound_ret\<close>)
  have "sound view issued (?all (el # els)) (io_bind (cache_Get K (bq_query el)) (\<lambda>prepared_id_ptr.
     io_bind (case prepared_id_ptr of
                Some prepared_id \<Rightarrow> io_ret (BatchStatement_of_id prepared_id (bq_params el))
              | None \<Rightarrow>
                  io_bind (with_ptr conn (co_Prepare ops (bq_query el))) (\<lambda>prepared_id.
                  io_bind (cache_Put K (bq_query el) prepared_id) (\<lambda>_.
                  io_ret (BatchStatement_of_id prepared_id (bq_params el)))))
       (\<lambda>statement. io_bind (prepare_batch ops K conn els) (\<lambda>rest. io_ret (statement # rest)))))"
    by (rule sound_bind [OF sound_Get [OF assms(1)]], rule sound_bind [where R = ?one])
       (auto intro: fresh rest sound_ret split: option.split)
  then show ?case by (simp add: sound_def)
qed

text \<open>Operations that leave the cache alone.\<close>

lemma prepared_unchanged:
  "Push ops a p = (u, p') \<Longrightarrow> pool_prepared p' = pool_prepared p"
  "Release ops a p = (u, p') \<Longrightarrow> pool_prepared p' = pool_prepared p"
  "DoConnect ops sl cl connected a p = (b, p') \<Longrightarrow> pool_prepared p' = pool_prepared p"
  "Acquire ops reached p = (v, p') \<Longrightarrow> pool_prepared p' = pool_prepared p"
  "AcquireImmediate ops p = (v, p') \<Longrightarrow> pool_prepared p' = pool_prepared p"
proof -
  show push: "pool_prepared p' = pool_prepared p" if "Push ops a p = (u, p')" for u p p'
    using that by (auto simp: Push_def DeleteConnection_def split: option.splits if_splits)
  show "pool_prepared p' = pool_prepared p" if "Release ops a p = (u, p')"
    using that push by (auto simp: Release_def DeleteConnection_def split: option.splits if_splits)
  show "pool_prepared p' = pool_prepared p" if "DoConnect ops sl cl connected a p = (b, p')"
    using that push [of "p\<lparr>pool_heap := (pool_heap p)(a \<mapsto> c)\<rparr>" for c]
    by (fastforce simp: DoConnect_def io_bind_def io_simps split: if_splits sum.splits fault.splits prod.splits)
qed (auto simp: Acquire_def AcquireImmediate_def split: if_splits sum.splits prod.splits)

lemma sound_Acquire: "sound view issued (\<lambda>_. True) (Acquire ops reached)"
  by (rule sound_unchanged) (metis prepared_unchanged(4) prod.collapse)

lemma sound_catch:
  assumes "lru_contract K view" "sound view issued R m"
  shows "sound view issued (\<lambda>_. True) (catch_Unprepared K m)"
proof (rule soundI)
  fix p v p''
  assume p: "cache_sound view issued p" and c: "catch_Unprepared K m p = (v, p'')"
  obtain r p' where m: "m p = (r, p')" by fastforce
  have "cache_sound view issued p'" using soundD [OF assms(2) p m] by blast
  moreover have "cache_sound view issued (p'\<lparr>pool_prepared := lru_Invalidate K (pool_prepared p')\<rparr>)"
    using assms(1) by (simp add: cache_sound_def lru_contract_def)
  ultimately show "cache_sound view issued p'' \<and> (\<forall>x. v = Inr x \<longrightarrow> True)"
    using m c by (auto simp: catch_Unprepared_def split: sum.splits fault.splits exn.splits frame_exception.splits)
qed

lemma sound_Maintain_ping:
  assumes "lru_contract K view" "issues ops issued"
  shows "sound view issued (\<lambda>_. True) (Maintain_ping ops K a)"
  unfolding Maintain_ping_def
proof (rule sound_bind [OF sound_Get [OF assms(1)]])
  have fresh: "sound view issued (\<lambda>_. True) (io_bind (with_conn a (co_Prepare ops kPing)) (\<lambda>prepared_id.
      io_bind (cache_Put K kPing prepared_id) (\<lambda>_.
      io_bind (with_conn a (co_ExecutePrepared ops kLocalOne prepared_id [] None)) (\<lambda>_. io_ret ()))))"
    by (rule sound_bind [OF sound_Prepare_conn [OF assms(2)]], rule sound_bind [OF sound_Put [OF assms(1)]], assumption,
        rule sound_bind [OF sound_with_conn], rule sound_ret, rule TrueI)
  show "sound view issued (\<lambda>_. True) (case v of
         None \<Rightarrow>
           io_bind (with_conn a (co_Prepare ops kPing)) (\<lambda>prepared_id.
           io_bind (cache_Put K kPing prepared_id) (\<lambda>_.
           io_bind (with_conn a (co_ExecutePrepared ops kLocalOne prepared_id [] None)) (\<lambda>_. io_ret ())))
       | Some prepared_id \<Rightarrow>
           catch_Unprepared K (with_conn a (co_ExecutePrepared ops kLocalOne prepared_id [] None)))" for v
    by (cases v) (simp_all add: fresh sound_catch [OF assms(1) sound_with_conn])
qed

lemma sound_Maintain_round:
  fixes ops :: "'a conn_ops" and K :: "'b lru_lib"
  assumes "lru_contract K view" "issues ops issued"
  shows "sound view issued (\<lambda>_. True) (Maintain_round ops K n drop_left)"
  unfolding Maintain_round_def
proof (rule sound_bind [OF sound_unchanged])
  show "pool_prepared (snd (AcquireImmediate ops p)) = pool_prepared p" for p :: "('a, 'b) ConnectionPool"
    by (metis prepared_unchanged(5) prod.collapse)
next
  fix conn :: "nat option"
  show "sound view issued (\<lambda>_. True) (case conn of None \<Rightarrow> io_ret None
     | Some a \<Rightarrow> (\<lambda>p. case pool_heap p a of
           None \<Rightarrow> (Inl (UB UseAfterFree), p)
         | Some c \<Rightarrow>
             if n > min_size (pool_config p) \<and> drop_left > 0 \<and> co_IsIdle ops c
             then (case with_conn a (co_Close ops) p of
                     (r, p1) \<Rightarrow> (catch_RuntimeError (drop_left - 1) r, DeleteConnection a p1))
             else (case Maintain_ping ops K a p of
                     (r, p1) \<Rightarrow>
                       (case Release ops a p1 of
                          (Inl f, p2) \<Rightarrow> (Inl f, p2)
                        | (Inr _, p2) \<Rightarrow> (catch_RuntimeError drop_left r, p2)))))"
  proof (cases conn)
    case (Some a)
    have "cache_sound view issued p2"
      if "cache_sound view issued p" "Maintain_ping ops K a p = (r, p1)" "Release ops a p1 = (u, p2)"
      for p :: "('a, 'b) ConnectionPool" and r p1 u p2
      using soundD [OF sound_Maintain_ping [OF assms] that(1,2)] prepared_unchanged(2) [OF that(3)]
      by (simp add: cache_sound_def)
    moreover have "cache_sound view issued (DeleteConnection a p1)"
      if "cache_sound view issued p" "with_conn a (co_Close ops) p = (r, p1)"
      for p :: "('a, 'b) ConnectionPool" and r p1
      using that(1) with_conn_prepared [OF that(2)] by (simp add: cache_sound_def DeleteConnection_def)
    ultimately show ?thesis using Some by (auto simp: sound_def split: option.splits prod.splits sum.splits)
  qed (auto intro: sound_ret)
qed

lemma sound_Maintain:
  fixes ops :: "'a conn_ops" and K :: "'b lru_lib"
  assumes "lru_contract K view" "issues ops issued"
  shows "sound view issued (\<lambda>_. True) (Maintain ops K)"
proof -
  have "cache_sound view issued (snd (Maintain_loop ops K n d p))" if "cache_sound view issued p"
    for n d and p :: "('a, 'b) ConnectionPool"
    using that
  proof (induction n arbitrary: d p)
    case (Suc n)
    obtain r p1 where m: "Maintain_round ops K (Suc n) d p = (r, p1)" by fastforce
    have "cache_sound view issued p1" using soundD [OF sound_Maintain_round [OF assms] Suc.prems m] by blast
    with m Suc.IH show ?case by (auto split: sum.splits option.splits)
  qed simp
  then show ?thesis by (simp add: sound_def Maintain_def)
qed

section \<open>What a statement executes\<close>

text \<open>
  \<open>answers ops issued ans\<close>: a result set that the connection returns for the text of a statement, or for
  an identifier that the server has issued for this text, satisfies \<open>ans\<close>; and a batch is answered as
  the batch of the texts its statements stand for.
\<close>

definition names_text :: "(RawBuffer \<Rightarrow> RawBuffer \<Rightarrow> bool) \<Rightarrow> BatchQuery \<Rightarrow> BatchStatement \<Rightarrow> bool" where
  "names_text issued el st \<longleftrightarrow> st = BatchStatement_of_string (bq_query el) (bq_params el) \<or>
     (\<exists>i. issued (bq_query el) i \<and> st = BatchStatement_of_id i (bq_params el))"

definition answers :: "'c conn_ops \<Rightarrow> (RawBuffer \<Rightarrow> RawBuffer \<Rightarrow> bool) \<Rightarrow>
    (Consistency \<Rightarrow> RawBuffer \<Rightarrow> QueryParameters \<Rightarrow> ResultSet \<Rightarrow> bool) \<Rightarrow>
    (BatchQueryStore \<Rightarrow> ResultSet \<Rightarrow> bool) \<Rightarrow> bool" where
  "answers ops issued ans batch_ans \<longleftrightarrow>
     (\<forall>l q ps ctl c rs. fst (co_Execute ops l q ps ctl c) = Inr rs \<longrightarrow> ans l q ps rs) \<and>
     (\<forall>l q i ps ctl c rs. issued q i \<longrightarrow> fst (co_ExecutePrepared ops l i ps ctl c) = Inr rs \<longrightarrow> ans l q ps rs) \<and>
     (\<forall>store sts ctl c rs. list_all2 (names_text issued) (store_queries store) sts \<longrightarrow>
        fst (co_BatchExecute ops (store_consistency store) sts ctl c) = Inr rs \<longrightarrow> batch_ans store rs)"

lemma sound_call:
  assumes "\<And>c rs. fst (m c) = Inr rs \<Longrightarrow> R rs"
  shows "sound view issued R (with_ptr conn m)"
proof (rule soundI)
  fix p r p'
  assume p: "cache_sound view issued p" and m: "with_ptr conn m p = (r, p')"
  have "R rs" if "r = Inr rs" for rs
  proof -
    from m that obtain c where "fst (m c) = Inr rs"
      by (auto simp: with_ptr_def with_conn_def io_lift_def split: option.splits prod.splits) (metis fst_conv)
    then show ?thesis by (rule assms)
  qed
  with p with_ptr_prepared [OF m] show "cache_sound view issued p' \<and> (\<forall>x. r = Inr x \<longrightarrow> R x)"
    by (simp add: cache_sound_def)
qed

lemma sound_if: "sound view issued R m1 \<Longrightarrow> sound view issued R m2 \<Longrightarrow> sound view issued R (\<lambda>p. (if P p then m1 else m2) p)"
  unfolding sound_def by simp

lemma sound_Execute_on:
  assumes "lru_contract K view" "issues ops issued" "answers ops issued ans batch_ans"
  shows "sound view issued (ans level query params) (Pool_Execute_on ops K level query params ctl conn)"
proof -
  have prepared: "sound view issued (ans level query params) (with_ptr conn (co_ExecutePrepared ops level i params ctl))"
    if "issued query i" for i
    using assms(3) that by (intro sound_call) (auto simp: answers_def)
  have plain: "sound view issued (ans level query params) (with_ptr conn (co_Execute ops level query params ctl))"
    using assms(3) by (intro sound_call) (auto simp: answers_def)
  show ?thesis
    unfolding Pool_Execute_on_def [abs_def]
    by (rule sound_if [OF sound_bind [OF sound_Get [OF assms(1)]] plain])
       (auto split: option.split intro!: prepared sound_bind [OF sound_Prepare [OF assms(2)]] sound_bind [OF sound_Put [OF assms(1)]])
qed

lemma sound_BatchExecute_on:
  assumes "lru_contract K view" "issues ops issued" "answers ops issued ans batch_ans"
  shows "sound view issued (batch_ans store) (Pool_BatchExecute_on ops K store ctl conn)"
proof -
  let ?named = "list_all2 (names_text issued) (store_queries store)"
  have call: "sound view issued (batch_ans store) (with_ptr conn (co_BatchExecute ops (store_consistency store) sts ctl))"
    if "?named sts" for sts
    using assms(3) that by (intro sound_call) (auto simp: answers_def)
  have texts: "?named (map (\<lambda>el. BatchStatement_of_string (bq_query el) (bq_params el)) (store_queries store))"
    by (simp add: list_all2_conv_all_nth names_text_def)
  have ids: "sound view issued ?named (prepare_batch ops K conn (store_queries store))"
    by (rule sound_mono [OF sound_prepare_batch [OF assms(1,2)]])
       (erule list_all2_mono, auto simp: names_text_def)
  show ?thesis unfolding Pool_BatchExecute_on_if
    by (intro sound_if sound_bind [OF ids call] sound_bind [OF sound_ret [of ?named, OF texts] call])
qed

lemma cache_sound_step:
  assumes "lru_contract K view" "issues ops issued" "cache_sound view issued p" "pool_step ops K p f p'"
  shows "cache_sound view issued p'"
proof -
  have any: "answers ops issued (\<lambda>_ _ _ _. True) (\<lambda>_ _. True)" by (simp add: answers_def)
  note exec = sound_bind [OF sound_Acquire sound_Execute_on [OF assms(1,2) any]]
    and batch_on = sound_bind [OF sound_Acquire sound_BatchExecute_on [OF assms(1,2) any]]
  from assms(4) show ?thesis
  proof cases
    case (connect n t r)
    from connect(5) have "pool_prepared p' = pool_prepared p"
      by (auto simp: ConnectionPool_Connect_def Let_def dest: prepared_unchanged(3))
    with assms(3) show ?thesis by (simp add: cache_sound_def)
  next
    case execute
    with soundD [OF exec assms(3)] show ?thesis by (simp add: Pool_Execute_def)
  next
    case batch
    with soundD [OF batch_on assms(3)] show ?thesis by (simp add: Pool_BatchExecute_def)
  next
    case maintain
    with soundD [OF sound_Maintain [OF assms(1,2)] assms(3)] show ?thesis by blast
  qed
qed

section \<open>Properties of the cache\<close>

text \<open>
  A server for the examples: the identifier of a statement is its text reversed, and the answer to a
  statement or to a batch is the text itself.
\<close>

definition text_rows :: "RawBuffer list \<Rightarrow> ResultSet" where
  "text_rows ts = Some \<lparr>rows_content = map (\<lambda>t. [t]) ts, columns_count = 1, rows_count = word_of_nat (length ts)\<rparr>"

definition statement_text :: "BatchStatement \<Rightarrow> RawBuffer" where
  "statement_text st = (case bs_query st of LongStringText q \<Rightarrow> q | ShortBytesId i \<Rightarrow> rev i)"

definition echo_ops :: "(nat \<times> bool) conn_ops" where
  "echo_ops = stub_ops\<lparr>co_Execute := (\<lambda>_ q _ _ c. (Inr (text_rows [q]), c)),
     co_ExecutePrepared := (\<lambda>_ i _ _ c. (Inr (text_rows [rev i]), c)),
     co_BatchExecute := (\<lambda>_ sts _ c. (Inr (text_rows (map statement_text sts)), c))\<rparr>"

lemma map_cache_contract: "lru_contract map_cache (\<lambda>m. m)"
  by (simp add: lru_contract_def map_cache_def)

lemma echo_issues: "issues echo_ops (\<lambda>q i. i = rev q)"
  by (simp add: issues_def echo_ops_def stub_ops_def)

lemma echo_answers:
  "answers echo_ops (\<lambda>q i. i = rev q) (\<lambda>_ q _ rs. rs = text_rows [q])
     (\<lambda>store rs. rs = text_rows (map bq_query (store_queries store)))"
proof -
  have "map statement_text sts = map bq_query els" if "list_all2 (names_text (\<lambda>q i. i = rev q)) els sts" for els sts
    using that by induction (auto simp: names_text_def statement_text_def BatchStatement_of_string_def BatchStatement_of_id_def)
  then show ?thesis by (auto simp: answers_def echo_ops_def stub_ops_def)
qed





end
