(* ===== verification/Cql_Maintain.thy ===== *)
theory Cql_Maintain
  imports Cql_Pool
begin

text \<open>
  The periodic maintenance of a pool (\<open>ConnectionPool::Maintain\<close>): how many connections a run may close.
\<close>

section \<open>What maintenance closes\<close>

text \<open>A connection that can be used, and calls that leave it usable.\<close>

definition usable :: "'c conn_ops \<Rightarrow> 'c \<Rightarrow> bool" where
  "usable ops c \<longleftrightarrow> \<not> co_IsBroken ops c \<and> \<not> co_IsExpired ops c"

definition pings_well :: "'c conn_ops \<Rightarrow> bool" where
  "pings_well ops \<longleftrightarrow> (\<forall>c. usable ops c \<longrightarrow>
     (\<forall>q. usable ops (snd (co_Prepare ops q c))) \<and>
     (\<forall>l i ps ctl. usable ops (snd (co_ExecutePrepared ops l i ps ctl c))))"

definition all_usable :: "'c conn_ops \<Rightarrow> ('c, 'k) ConnectionPool \<Rightarrow> bool" where
  "all_usable ops p \<longleftrightarrow> (\<forall>a \<in> set (pool_connections p). \<exists>c. pool_heap p a = Some c \<and> usable ops c)"

text \<open>\<open>touches ops a m\<close>: of a pool with a usable connection at \<open>a\<close>, \<open>m\<close> changes only that connection, which
  stays usable, and the cache.\<close>

definition touches :: "'c conn_ops \<Rightarrow> nat \<Rightarrow> ('c, 'k, 'x) pool_io \<Rightarrow> bool" where
  "touches ops a m \<longleftrightarrow> (\<forall>p c. pool_heap p a = Some c \<longrightarrow> usable ops c \<longrightarrow>
     (\<exists>c'. usable ops c' \<and> pool_heap (snd (m p)) = (pool_heap p)(a \<mapsto> c') \<and>
        pool_connections (snd (m p)) = pool_connections p \<and> pool_config (snd (m p)) = pool_config p))"

lemma touchesI:
  "(\<And>p c r p'. pool_heap p a = Some c \<Longrightarrow> usable ops c \<Longrightarrow> m p = (r, p') \<Longrightarrow>
     \<exists>c'. usable ops c' \<and> pool_heap p' = (pool_heap p)(a \<mapsto> c') \<and>
        pool_connections p' = pool_connections p \<and> pool_config p' = pool_config p) \<Longrightarrow> touches ops a m"
  unfolding touches_def by (metis prod.collapse)

lemma touchesD:
  assumes "touches ops a m" "pool_heap p a = Some c" "usable ops c" "m p = (r, p')"
  obtains c' where "usable ops c'" "pool_heap p' = (pool_heap p)(a \<mapsto> c')"
    "pool_connections p' = pool_connections p" "pool_config p' = pool_config p"
  using assms unfolding touches_def by (metis snd_conv)

lemma touches_bind:
  assumes "touches ops a m" "\<And>x. touches ops a (f x)"
  shows "touches ops a (io_bind m f)"
proof (rule touchesI)
  fix p c r p'
  assume p: "pool_heap p a = Some c" "usable ops c" and b: "io_bind m f p = (r, p')"
  obtain r1 p1 where m: "m p = (r1, p1)" by fastforce
  obtain c1 where 1: "usable ops c1" "pool_heap p1 = (pool_heap p)(a \<mapsto> c1)"
    "pool_connections p1 = pool_connections p" "pool_config p1 = pool_config p"
    using touchesD [OF assms(1) p m] by blast
  show "\<exists>c'. usable ops c' \<and> pool_heap p' = (pool_heap p)(a \<mapsto> c') \<and>
      pool_connections p' = pool_connections p \<and> pool_config p' = pool_config p"
  proof (cases r1)
    case (Inl e)
    with b m 1 show ?thesis by (auto simp: io_bind_def)
  next
    case (Inr x)
    with b m have f: "f x p1 = (r, p')" by (simp add: io_bind_def)
    have "pool_heap p1 a = Some c1" using 1(2) by simp
    from touchesD [OF assms(2) this 1(1) f] 1 show ?thesis by (metis fun_upd_upd)
  qed
qed

lemma touches_same:
  assumes "\<And>p. pool_heap (snd (m p)) = pool_heap p \<and> pool_connections (snd (m p)) = pool_connections p \<and>
     pool_config (snd (m p)) = pool_config p"
  shows "touches ops a m"
  unfolding touches_def using assms by (metis map_upd_triv)

lemma touches_intros:
  "touches ops a (io_ret x)"
  "touches ops a (cache_Get K key)"
  "touches ops a (cache_Put K key v)"
  by (rule touches_same; simp add: io_simps cache_Get_def cache_Put_def split: prod.split)+

lemma touches_with_conn:
  assumes "\<And>c. usable ops c \<Longrightarrow> usable ops (snd (m c))"
  shows "touches ops a (with_conn a m)"
proof (rule touchesI)
  fix p c r p'
  assume "pool_heap p a = Some c" "usable ops c" "with_conn a m p = (r, p')"
  with assms [of c] show "\<exists>c'. usable ops c' \<and> pool_heap p' = (pool_heap p)(a \<mapsto> c') \<and>
      pool_connections p' = pool_connections p \<and> pool_config p' = pool_config p"
    by (auto simp: with_conn_def split: prod.splits)
qed

lemma touches_catch: "touches ops a m \<Longrightarrow> touches ops a (catch_Unprepared K m)"
proof (rule touchesI)
  fix p c v p''
  assume t: "touches ops a m" and p: "pool_heap p a = Some c" "usable ops c" and v: "catch_Unprepared K m p = (v, p'')"
  obtain r p' where m: "m p = (r, p')" by fastforce
  have "pool_heap p'' = pool_heap p' \<and> pool_connections p'' = pool_connections p' \<and> pool_config p'' = pool_config p'"
    using v m by (auto simp: catch_Unprepared_def split: sum.splits fault.splits exn.splits frame_exception.splits)
  with touchesD [OF t p m]
  show "\<exists>c'. usable ops c' \<and> pool_heap p'' = (pool_heap p)(a \<mapsto> c') \<and>
      pool_connections p'' = pool_connections p \<and> pool_config p'' = pool_config p" by metis
qed

lemma touches_ping: "pings_well ops \<Longrightarrow> touches ops a (Maintain_ping ops K a)"
  unfolding Maintain_ping_def
  by (auto intro!: touches_bind touches_intros touches_with_conn touches_catch split: option.split simp: pings_well_def)

lemma Maintain_round_usable:
  assumes ops: "pings_well ops" and p: "pool_ok p" "all_usable ops p" "pool_connections p = a # as"
    and m: "Maintain_round ops K n d p = (r, p')"
  shows "pool_ok p' \<and> all_usable ops p' \<and> pool_config p' = pool_config p \<and>
    (if n > min_size (pool_config p) \<and> d > 0 \<and> co_IsIdle ops (the (pool_heap p a))
     then length (pool_connections p') = length as \<and> (\<forall>d'. r = Inr (Some d') \<longrightarrow> d' = d - 1)
     else length (pool_connections p') = Suc (length as) \<and> (\<forall>d'. r = Inr (Some d') \<longrightarrow> d' = d))"
proof -
  obtain c where c: "pool_heap p a = Some c" "usable ops c" using p by (auto simp: all_usable_def)
  let ?p1 = "p\<lparr>pool_connections := as\<rparr>"
  have acq: "AcquireImmediate ops p = (Inr (Some a), ?p1)"
    using p(3) c by (simp add: AcquireImmediate_def usable_def)
  have as: "a \<notin> set as" "distinct as" "set as \<subseteq> dom (pool_heap p)"
    and us: "\<forall>b \<in> set as. \<exists>c. pool_heap p b = Some c \<and> usable ops c"
    using p by (auto simp: pool_ok_def all_usable_def)
  show ?thesis
  proof (cases "n > min_size (pool_config p) \<and> d > 0 \<and> co_IsIdle ops c")
    case True
    obtain r2 p2 where p2: "with_conn a (co_Close ops) ?p1 = (r2, p2)" by fastforce
    then have p2': "pool_connections p2 = as" "pool_config p2 = pool_config p" "\<forall>b. b \<noteq> a \<longrightarrow> pool_heap p2 b = pool_heap p b"
      using c by (auto simp: with_conn_def split: prod.splits)
    have res: "p' = DeleteConnection a p2" "r = catch_RuntimeError (d - 1) r2"
      using m acq True c p2 by (auto simp: Maintain_round_def io_bind_def)
    have "\<forall>d'. r = Inr (Some d') \<longrightarrow> d' = d - 1"
      using res(2) by (auto simp: catch_RuntimeError_def split: sum.splits fault.splits if_splits)
    then show ?thesis using res(1) p2' as us c True
      by (fastforce simp: DeleteConnection_def pool_ok_def all_usable_def)
  next
    case False
    obtain r2 p2 where p2: "Maintain_ping ops K a ?p1 = (r2, p2)" by fastforce
    obtain c2 where c2: "usable ops c2" "pool_heap p2 = (pool_heap p)(a \<mapsto> c2)" "pool_connections p2 = as"
      "pool_config p2 = pool_config p"
      using touchesD [OF touches_ping [OF ops] _ c(2) p2] c(1) by auto
    have rel: "Release ops a p2 = (Inr (), p2\<lparr>pool_connections := as @ [a]\<rparr>)"
      using c2 by (simp add: Release_def Push_def usable_def)
    have res: "p' = p2\<lparr>pool_connections := as @ [a]\<rparr>" "r = catch_RuntimeError d r2"
      using m acq False c p2 rel by (auto simp: Maintain_round_def io_bind_def)
    have "\<forall>d'. r = Inr (Some d') \<longrightarrow> d' = d"
      using res(2) by (auto simp: catch_RuntimeError_def split: sum.splits fault.splits if_splits)
    then show ?thesis using res(1) c2 as us c False
      by (fastforce simp: pool_ok_def all_usable_def)
  qed
qed

lemma Maintain_loop_usable:
  assumes "pings_well ops" "pool_ok p" "all_usable ops p" "Maintain_loop ops K n d p = (r, p')"
  shows "length (pool_connections p) \<le> length (pool_connections p') + (if n > min_size (pool_config p) then d else 0)"
  using assms(2-4)
proof (induction n arbitrary: p d)
  case (Suc n)
  obtain r1 p1 where m: "Maintain_round ops K (Suc n) d p = (r1, p1)" by fastforce
  show ?case
  proof (cases "pool_connections p")
    case (Cons a as)
    note 1 = Maintain_round_usable [OF assms(1) Suc.prems(1,2) Cons m]
    show ?thesis
    proof (cases "\<exists>d'. r1 = Inr (Some d')")
      case True
      then obtain d' where d': "r1 = Inr (Some d')" by blast
      with m Suc.prems(3) have "Maintain_loop ops K n d' p1 = (r, p')" by simp
      from Suc.IH [OF _ _ this] 1 d' Cons show ?thesis by (auto split: if_splits)
    next
      case False
      then have "p' = p1" using m Suc.prems(3) by (auto split: sum.splits option.splits)
      with 1 Cons show ?thesis by (auto split: if_splits)
    qed
  qed simp
qed simp


definition idle_pool :: "(nat \<times> bool, RawBuffer \<rightharpoonup> RawBuffer) ConnectionPool" where
  "idle_pool = example_pool\<lparr>pool_connections := [1, 2], pool_heap := [1 \<mapsto> (0, False), 2 \<mapsto> (0, False)]\<rparr>"


end
