(* ===== verification/Cql_Lifetime.thy ===== *)
theory Cql_Lifetime
  imports Cql_Pool
begin

text \<open>
  Ownership and size of a pool over its whole life: no connection is lost, none survives the pool, and
  there are never more than the pool was told to open.
\<close>

section \<open>What statements and pings leave alone\<close>

definition pool_frame :: "('c, 'k) ConnectionPool \<Rightarrow> nat set \<times> nat list \<times> PoolSettings \<times> nat" where
  "pool_frame p = (dom (pool_heap p), pool_connections p, pool_config p, pool_connect_tasks p)"

definition framed :: "('c, 'k, 'a) pool_io \<Rightarrow> bool" where
  "framed m \<longleftrightarrow> (\<forall>p. pool_frame (snd (m p)) = pool_frame p)"

lemma framedD: "framed m \<Longrightarrow> m p = (r, p') \<Longrightarrow> pool_frame p' = pool_frame p"
  unfolding framed_def by (metis snd_conv)

lemma framed_bind: "framed m \<Longrightarrow> (\<And>x. framed (f x)) \<Longrightarrow> framed (io_bind m f)"
  unfolding framed_def io_bind_def by (auto split: prod.split sum.split) (metis snd_conv)+

lemma framed_if: "framed m1 \<Longrightarrow> framed m2 \<Longrightarrow> framed (\<lambda>p. (if P p then m1 else m2) p)"
  unfolding framed_def by simp

lemma framed_pure:
  "framed (io_ret x)" "framed (io_lift r)" "framed (cache_Get K key)" "framed (cache_Put K key v)"
  by (simp_all add: framed_def pool_frame_def io_simps cache_Get_def cache_Put_def split: prod.split)

lemma framed_with_conn: "framed (with_conn a m)"
  by (auto simp: framed_def pool_frame_def with_conn_def split: option.split prod.split)

lemma framed_with_ptr: "framed (with_ptr conn m)"
  by (simp add: with_ptr_def framed_pure framed_with_conn split: option.split)

lemmas framed_intros = framed_bind framed_pure framed_with_conn framed_with_ptr

lemma framed_prepare_batch: "framed (prepare_batch ops K conn els)"
proof (induction els)
  case Nil
  then show ?case by (simp add: framed_def)
next
  case (Cons el els)
  then show ?case
    unfolding prepare_batch.simps [abs_def] by (intro framed_intros) (auto intro!: framed_intros split: option.split)
qed

lemma framed_catch: "framed m \<Longrightarrow> framed (catch_Unprepared K m)"
  unfolding framed_def
proof
  fix p
  assume m: "\<forall>p. pool_frame (snd (m p)) = pool_frame p"
  obtain r p' where "m p = (r, p')" by fastforce
  with m [rule_format, of p] show "pool_frame (snd (catch_Unprepared K m p)) = pool_frame p"
    by (auto simp: catch_Unprepared_def pool_frame_def split: sum.splits fault.splits exn.splits frame_exception.splits)
qed

lemma framed_Execute_on: "framed (Pool_Execute_on ops K level query params ctl conn)"
  unfolding Pool_Execute_on_def [abs_def] by (rule framed_if) (auto intro!: framed_intros split: option.split)

lemma framed_BatchExecute_on: "framed (Pool_BatchExecute_on ops K store ctl conn)"
  unfolding Pool_BatchExecute_on_if by (intro framed_if framed_intros framed_prepare_batch)

lemma framed_ping: "framed (Maintain_ping ops K a)"
  unfolding Maintain_ping_def by (auto intro!: framed_intros framed_catch split: option.split)


section \<open>Every live connection is in the vector\<close>

text \<open>\<open>owned_but A p\<close>: every live connection is in the vector or in \<open>A\<close>.\<close>

definition owned_but :: "nat set \<Rightarrow> ('c, 'k) ConnectionPool \<Rightarrow> bool" where
  "owned_but A p \<longleftrightarrow> (\<forall>a c. pool_heap p a = Some c \<longrightarrow> a \<in> A \<or> a \<in> set (pool_connections p))"

abbreviation owned :: "('c, 'k) ConnectionPool \<Rightarrow> bool" where
  "owned \<equiv> owned_but {}"

lemma owned_but_dom: "owned_but A p \<longleftrightarrow> dom (pool_heap p) \<subseteq> A \<union> set (pool_connections p)"
  by (auto simp: owned_but_def)

lemma owned_but_frame: "pool_frame p' = pool_frame p \<Longrightarrow> owned_but A p' = owned_but A p"
  by (simp add: owned_but_dom pool_frame_def)

definition pool_opts :: "('c, 'k) ConnectionPool \<Rightarrow> PoolSettings \<times> nat" where
  "pool_opts p = (pool_config p, pool_connect_tasks p)"

lemma Delete_owned: "owned_but {a} p \<Longrightarrow> owned (DeleteConnection a p) \<and> pool_opts (DeleteConnection a p) = pool_opts p"
  by (simp add: owned_but_dom DeleteConnection_def pool_opts_def) blast

lemma Release_owned:
  assumes "owned_but {a} p" "Release ops a p = (r, p')"
  shows "owned p' \<and> pool_opts p' = pool_opts p"
proof (cases "pool_heap p a")
  case None
  with assms show ?thesis by (auto simp: Release_def owned_but_def)
next
  case (Some c)
  with assms(2) have "p' = DeleteConnection a p \<or> p' = p\<lparr>pool_connections := pool_connections p @ [a]\<rparr>"
    by (auto simp: Release_def Push_def split: if_splits)
  with Delete_owned [OF assms(1)] assms(1) show ?thesis by (auto simp: owned_but_def pool_opts_def)
qed

lemma Connect_owned:
  assumes "owned p" "ConnectionPool_Connect ops t p = (r, p')"
  shows "owned p' \<and> pool_opts p' = pool_opts p"
  using assms
  by (auto simp: ConnectionPool_Connect_def DoConnect_def Push_def DeleteConnection_def Let_def io_bind_def io_simps
      owned_but_def pool_opts_def split: if_splits sum.splits fault.splits)

lemma Acquire_owned:
  assumes "pool_ok p" "owned p" "Acquire ops reached p = (r, p')"
  shows "owned p' \<and> pool_opts p' = pool_opts p"
proof (cases reached)
  case True
  with assms show ?thesis by (simp add: Acquire_def)
next
  case False
  with assms Acquire_eq [OF assms(1), of ops] have
    p': "p' = p\<lparr>pool_connections := live_conns ops p,
       pool_heap := free_all (set (pool_connections p) - set (live_conns ops p)) (pool_heap p)\<rparr>" by simp
  have "a \<in> set (live_conns ops p)" if "a \<in> dom (pool_heap p')" for a
    using that assms(2) by (auto simp: p' free_all_def owned_but_def split: if_splits)
  then show ?thesis by (auto simp: owned_but_dom pool_opts_def p')
qed

lemma AcquireImmediate_scan_dom:
  "AcquireImmediate_scan ops as h = Inr (r, as', h') \<Longrightarrow>
     dom h' \<subseteq> dom h \<and> dom h' \<inter> set as \<subseteq> set as' \<union> set_option r"
proof (induction as arbitrary: h r as' h')
  case (Cons a as)
  obtain c where c: "h a = Some c" using Cons.prems by (auto split: option.splits)
  have "AcquireImmediate_scan ops as (h(a := None)) = Inr (r, as', h') \<or>
      (\<exists>as1. AcquireImmediate_scan ops as h = Inr (r, as1, h') \<and> as' = a # as1) \<or> r = Some a \<and> as' = as \<and> h' = h"
    using Cons.prems c by (simp add: res_bind_eq_Inr split: if_splits) (auto simp: res_bind_eq_Inr)
  then consider (drop) "AcquireImmediate_scan ops as (h(a := None)) = Inr (r, as', h')"
    | (keep) as1 where "AcquireImmediate_scan ops as h = Inr (r, as1, h')" "as' = a # as1"
    | (take) "r = Some a" "as' = as" "h' = h" by blast
  then show ?case
  proof cases
    case drop
    from Cons.IH [OF this] have "dom h' \<subseteq> dom h - {a}" "dom h' \<inter> set as \<subseteq> set as' \<union> set_option r"
      by (auto simp: dom_def split: if_splits)
    then show ?thesis by (simp only: list.set) blast
  next
    case keep
    from Cons.IH [OF this(1)] keep(2) show ?thesis by (simp only: list.set) blast
  next
    case take
    then show ?thesis by (simp only: list.set option.set) blast
  qed
qed auto

lemma AcquireImmediate_owned:
  assumes "owned p" "AcquireImmediate ops p = (r, p')"
  shows "pool_opts p' = pool_opts p \<and>
    (case r of Inr conn \<Rightarrow> owned_but (set_option conn) p' | Inl f \<Rightarrow> owned p')"
proof (cases "AcquireImmediate_scan ops (pool_connections p) (pool_heap p)")
  case (Inl f)
  with assms show ?thesis by (auto simp: AcquireImmediate_def)
next
  case (Inr v)
  then obtain conn as h where scan: "AcquireImmediate_scan ops (pool_connections p) (pool_heap p) = Inr (conn, as, h)"
    by (cases v) auto
  with assms have p': "r = Inr conn" "p' = p\<lparr>pool_connections := as, pool_heap := h\<rparr>" by (auto simp: AcquireImmediate_def)
  have "dom h \<subseteq> set_option conn \<union> set as"
    using AcquireImmediate_scan_dom [OF scan] assms(1) unfolding owned_but_dom by blast
  with p' show ?thesis by (simp add: owned_but_dom pool_opts_def)
qed

lemma framed_opts: "pool_frame p' = pool_frame p \<Longrightarrow> pool_opts p' = pool_opts p"
  by (simp add: pool_frame_def pool_opts_def)

lemma Maintain_round_owned:
  assumes "owned p" "Maintain_round ops K n d p = (r, p')"
  shows "owned p' \<and> pool_opts p' = pool_opts p"
proof -
  obtain v p1 where acq: "AcquireImmediate ops p = (v, p1)" by fastforce
  note a = AcquireImmediate_owned [OF assms(1) acq]
  show ?thesis
  proof (cases v)
    case (Inl f)
    with a acq assms(2) show ?thesis by (auto simp: Maintain_round_def io_bind_def)
  next
    case (Inr conn)
    show ?thesis
    proof (cases conn)
      case None
      with a acq Inr assms(2) show ?thesis by (auto simp: Maintain_round_def io_bind_def io_simps)
    next
      case (Some b)
      have dom: "owned_but {b} p1" using a Inr Some by simp
      show ?thesis
      proof (cases "pool_heap p1 b")
        case None
        with a acq Inr Some assms(2) dom show ?thesis by (auto simp: Maintain_round_def io_bind_def owned_but_def)
      next
        case (Some c)
        obtain r2 p2 where cl: "with_conn b (co_Close ops) p1 = (r2, p2)" by fastforce
        obtain r3 p3 where ping: "Maintain_ping ops K b p1 = (r3, p3)" by fastforce
        obtain r4 p4 where rel: "Release ops b p3 = (r4, p4)" by fastforce
        note frames = framedD [OF framed_with_conn cl] framedD [OF framed_ping ping]
        have "owned (DeleteConnection b p2) \<and> pool_opts (DeleteConnection b p2) = pool_opts p1"
          using owned_but_frame [OF frames(1)] framed_opts [OF frames(1)] dom Delete_owned [of b p2] by simp
        moreover have "owned p4 \<and> pool_opts p4 = pool_opts p1"
          using Release_owned [OF _ rel] owned_but_frame [OF frames(2)] framed_opts [OF frames(2)] dom by simp
        ultimately show ?thesis
          using assms(2) acq Inr \<open>conn = Some b\<close> Some cl ping rel a
          by (auto simp: Maintain_round_def io_bind_def split: if_splits sum.splits)
      qed
    qed
  qed
qed

lemma Maintain_owned:
  assumes "owned p" "Maintain ops K p = (r, p')"
  shows "owned p' \<and> pool_opts p' = pool_opts p"
proof -
  have "Maintain_loop ops K n d p = (r, p') \<Longrightarrow> owned p \<Longrightarrow> owned p' \<and> pool_opts p' = pool_opts p" for n d p
  proof (induction n arbitrary: d p)
    case (Suc n)
    obtain r1 p1 where round: "Maintain_round ops K (Suc n) d p = (r1, p1)" by fastforce
    from Maintain_round_owned [OF Suc.prems(2) round] Suc.IH [of _ p1] Suc.prems(1) round show ?case
      by (auto split: sum.splits option.splits)
  qed simp
  with assms show ?thesis by (auto simp: Maintain_def split: if_splits)
qed

lemma statement_owned:
  assumes "pool_ok p" "owned p" "\<And>conn. framed (f conn)" "io_bind (Acquire ops False) f p = (r, p')"
  shows "owned p' \<and> pool_opts p' = pool_opts p"
proof -
  obtain v p1 where acq: "Acquire ops False p = (v, p1)" by fastforce
  note a = Acquire_owned [OF assms(1,2) acq]
  show ?thesis
  proof (cases v)
    case (Inl e)
    with a acq assms(4) show ?thesis by (simp add: io_bind_def)
  next
    case (Inr conn)
    with acq assms(4) have "f conn p1 = (r, p')" by (simp add: io_bind_def)
    note frame = framedD [OF assms(3) this]
    from a owned_but_frame [OF frame] framed_opts [OF frame] show ?thesis by simp
  qed
qed

section \<open>The life of a pool\<close>

definition pool_life :: "('c, 'k) ConnectionPool \<Rightarrow> bool" where
  "pool_life p \<longleftrightarrow> pool_ok p \<and> owned p \<and>
     length (pool_connections p) + pool_connect_tasks p \<le> min_size (pool_config p) \<and>
     min_size (pool_config p) \<le> max_pool_size (pool_config p)"

lemma distinct_length_mono: "distinct xs \<Longrightarrow> distinct ys \<Longrightarrow> set xs \<subseteq> set ys \<Longrightarrow> length xs \<le> length ys"
  by (metis List.finite_set card_mono distinct_card)

lemma pool_life_shrink:
  assumes "pool_life p" "pool_ok p'" "owned p' \<and> pool_opts p' = pool_opts p" "set (pool_connections p') \<subseteq> set (pool_connections p)"
  shows "pool_life p'"
  using assms distinct_length_mono [OF _ _ assms(4)] by (auto simp: pool_life_def pool_opts_def pool_ok_def)

lemma pool_life_connect:
  assumes "pool_life p" "pool_connect_tasks p = Suc n" "ct_address t \<notin> dom (pool_heap p)" "\<forall>u. ct_connected t \<noteq> Inl (UB u)"
    and "ConnectionPool_Connect ops t (p\<lparr>pool_connect_tasks := n\<rparr>) = (r, p')"
  shows "pool_life p'"
proof -
  let ?p = "p\<lparr>pool_connect_tasks := n\<rparr>"
  have p: "pool_ok ?p" "owned ?p" "ct_address t \<notin> dom (pool_heap ?p)"
    using assms(1,3) by (auto simp: pool_life_def pool_ok_def owned_but_def)
  note c = Connect_ok [OF p(1,3) assms(5,4)] Connect_owned [OF p(2) assms(5)]
  have "length (pool_connections p') \<le> length (ct_address t # pool_connections p)"
    using c(1) p(1) assms(3) by (intro distinct_length_mono) (auto simp: pool_ok_def)
  with c assms(1,2) show ?thesis by (auto simp: pool_life_def pool_opts_def)
qed

lemma pool_life_step:
  assumes "ops_safe ops" "pool_life p" "pool_step ops K p f p'"
  shows "pool_life p'"
  using assms(3)
proof cases
  case (connect n t r)
  with pool_life_connect [OF assms(2)] show ?thesis by blast
next
  case (execute level query params ctl r)
  have p: "pool_ok p" "owned p" using assms(2) by (simp_all add: pool_life_def)
  note ex = execute(2) [unfolded Pool_Execute_def]
  from pool_life_shrink [OF assms(2) _ statement_owned [OF p framed_Execute_on ex]] Execute_ok [OF p(1) assms(1) execute(2)]
  show ?thesis by blast
next
  case (batch store ctl r)
  have p: "pool_ok p" "owned p" using assms(2) by (simp_all add: pool_life_def)
  note ex = batch(2) [unfolded Pool_BatchExecute_def]
  from pool_life_shrink [OF assms(2) _ statement_owned [OF p framed_BatchExecute_on ex]] BatchExecute_ok [OF p(1) assms(1) batch(2)]
  show ?thesis by blast
next
  case (maintain u)
  have p: "pool_ok p" "owned p" using assms(2) by (simp_all add: pool_life_def)
  from pool_life_shrink [OF assms(2) _ Maintain_owned [OF p(2) maintain(2)]] Maintain_ok [OF p(1) assms(1) maintain(2)]
  show ?thesis by blast
qed

lemma Init_tasks_owned: "Init_tasks ops ts p = (r, p') \<Longrightarrow> owned p \<Longrightarrow> owned p' \<and> pool_opts p' = pool_opts p"
proof (induction ts arbitrary: p)
  case (Cons t ts)
  obtain r1 p1 where c: "ConnectionPool_Connect ops t p = (r1, p1)" by fastforce
  from Connect_owned [OF Cons.prems(2) c] Cons.IH [of p1] Cons.prems(1) c show ?case
    by (auto split: sum.splits fault.splits)
qed simp

lemma pool_life_create:
  assumes "ConnectionPool_Create ops K outcome description keyspace init_mode settings conn_settings = Inr p"
    and "inj (\<lambda>i. ct_address (outcome i))" "\<forall>i u. ct_connected (outcome i) \<noteq> Inl (UB u)"
  shows "pool_life p"
proof -
  note ok = ConnectionPool_Create_ok [OF assms]
  from assms(1) obtain impl where impl: "mk_ConnectionPool K description keyspace settings conn_settings = Inr impl"
    and init: "Init ops outcome init_mode impl = (Inr (), p)" by (rule ConnectionPool_Create_cases)
  then have empty: "pool_connections impl = []" "pool_heap impl = Map.empty" "pool_opts impl = (settings, 0)" "owned impl"
    "min_size settings \<le> max_pool_size settings" 
    by (auto simp: mk_ConnectionPool_def res_bind_eq_Inr pool_opts_def owned_but_def Init_def split: if_splits)
  show ?thesis
  proof (cases init_mode)
    case kAsync
    with init empty ok show ?thesis
      by (auto simp: Init_def StartMaintainTask_def pool_life_def pool_opts_def owned_but_def split: if_splits)
  next
    case kSync
    with init empty obtain p1 where p1: "Init_tasks ops (map outcome [0..<min_size settings]) impl = (Inr (), p1)" "p = StartMaintainTask p1"
      by (auto simp: Init_def io_bind_def pool_opts_def split: if_splits prod.splits sum.splits)
    with Init_tasks_owned [OF p1(1) empty(4)] empty ok show ?thesis
      by (auto simp: pool_life_def pool_opts_def StartMaintainTask_def owned_but_def)
  qed
qed

lemma pool_reachable_life:
  assumes "ops_safe ops" "pool_reachable ops K p"
  shows "pool_life p"
  using assms(2)
proof induction
  case (create outcome description keyspace init_mode settings conn_settings p)
  then show ?case by (rule pool_life_create)
next
  case (step p f p')
  with pool_life_step [OF assms(1)] show ?case by blast
qed

lemma fold_Delete [simp]:
  "pool_connect_tasks (fold DeleteConnection as p) = pool_connect_tasks p"
  "pool_maintain_running (fold DeleteConnection as p) = pool_maintain_running p"
  by (induction as arbitrary: p) (simp_all add: DeleteConnection_def)

lemma Clear_heap: "pool_heap (Clear p) = free_all (set (pool_connections p)) (pool_heap p)"
proof -
  have "pool_heap (fold DeleteConnection as p) = free_all (set as) (pool_heap p)" for as p
    by (induction as arbitrary: p) (auto simp: DeleteConnection_def free_all_def)
  then show ?thesis by (simp add: Clear_def)
qed

section \<open>Properties of the life of a pool\<close>

text \<open>C18: The pool leaks no connection: after any sequence of operations the live connections are exactly
  those in its vector, each once, and destroying the pool deletes every one of them and leaves no
  connect task and no maintenance behind.\<close>

theorem pool_no_leak:
  assumes "ops_safe ops" "pool_reachable ops K p"
  shows "dom (pool_heap p) = set (pool_connections p) \<and> distinct (pool_connections p) \<and>
    pool_heap (ConnectionPool_destroy p) = Map.empty \<and> pool_connections (ConnectionPool_destroy p) = [] \<and>
    pool_connect_tasks (ConnectionPool_destroy p) = 0 \<and> \<not> pool_maintain_running (ConnectionPool_destroy p)"
proof -
  note life = pool_reachable_life [OF assms]
  then have dom: "dom (pool_heap p) = set (pool_connections p)" by (auto simp: pool_life_def owned_but_def pool_ok_def)
  moreover have "pool_heap (ConnectionPool_destroy p) = Map.empty"
    by (rule ext) (simp add: ConnectionPool_destroy_def Clear_heap free_all_def domIff flip: dom)
  moreover have "pool_connections (ConnectionPool_destroy p) = []" "pool_connect_tasks (ConnectionPool_destroy p) = 0"
    "\<not> pool_maintain_running (ConnectionPool_destroy p)"
    by (simp_all add: ConnectionPool_destroy_def Clear_def)
  ultimately show ?thesis using life by (auto simp: pool_life_def pool_ok_def)
qed

lemma one_connection_reachable:
  "pool_reachable stub_ops map_cache (new_pool\<lparr>pool_connections := [4], pool_heap := [4 \<mapsto> (0, False)], pool_connect_tasks := 0\<rparr>)"
  by (rule pool_reachable.step [OF new_pool_reachable stub_pool_step])

theorem pool_no_leak_witness:
  "pool_heap (ConnectionPool_destroy
     (new_pool\<lparr>pool_connections := [4], pool_heap := [4 \<mapsto> (0, False)], pool_connect_tasks := 0\<rparr>)) = Map.empty"
  using pool_no_leak [OF stub_ops_safe one_connection_reachable] by blast

text \<open>C19: Although the size semaphore does not limit the pool, it never holds more than the configured
  minimum of connections, counting those that are still being opened: \<open>min_size\<close> is in fact the maximum,
  and it is at most \<open>max_size\<close>.\<close>

theorem pool_size_bounded:
  assumes "ops_safe ops" "pool_reachable ops K p"
  shows "length (pool_connections p) + pool_connect_tasks p \<le> min_size (pool_config p) \<and>
    min_size (pool_config p) \<le> max_pool_size (pool_config p)"
  using pool_reachable_life [OF assms] by (simp add: pool_life_def)

theorem pool_size_bounded_witness:
  "length (pool_connections (new_pool\<lparr>pool_connections := [4], pool_heap := [4 \<mapsto> (0, False)], pool_connect_tasks := 0\<rparr>)) +
     pool_connect_tasks (new_pool\<lparr>pool_connections := [4], pool_heap := [4 \<mapsto> (0, False)], pool_connect_tasks := 0\<rparr>)
     \<le> min_size (pool_config new_pool) \<and> min_size (pool_config new_pool) = 1"
  using pool_size_bounded [OF stub_ops_safe one_connection_reachable] by (simp add: new_pool_def example_settings_def)

end
