(* ===== verification/Cql_Connect.thy ===== *)
theory Cql_Connect
  imports Cql_Lifetime
begin

text \<open>
  The facade \<open>Connection\<close> (\<open>src/detail/connection.cpp\<close>): resolving the contact point of a node, connecting
  to it, and the proof that the connections of \<open>Cql_Connection\<close> keep what the pool relies on.

  The resolver of userver is a parameter, and so are \<open>getaddrinfo\<close>, \<open>Sockaddr::SetPort\<close> and \<open>what()\<close>.
\<close>

section \<open>Resolving a contact point\<close>

type_synonym 'addr resolver = "string \<Rightarrow> deadline \<Rightarrow> 'addr list res"

record 'addr net_lib =
  net_getaddrinfo :: "string \<Rightarrow> string \<Rightarrow> 'addr list option"
  Sockaddr_SetPort :: "16 word \<Rightarrow> 'addr \<Rightarrow> 'addr"
  exception_what :: "exn \<Rightarrow> string"

text \<open>
  A view of characters that some string owns. The string a view was made from may be a temporary, which
  is gone at the end of the statement that made the view; reading through such a view is undefined.
\<close>

datatype zstring_view = OfLive string | OfTemporary string

fun c_str :: "zstring_view \<Rightarrow> string res" where
  "c_str (OfLive s) = Inr s"
| "c_str (OfTemporary s) = Inl (UB DanglingView)"

definition kMinConnectTimeout :: deadline where
  "kMinConnectTimeout = Some 2000"

definition ResolveContactPoint :: "string \<Rightarrow> 'addr resolver \<Rightarrow> deadline \<Rightarrow> 'addr list res" where
  "ResolveContactPoint host resolver deadline = resolver host deadline"

text \<open>The view of the port is made from the temporary that \<open>std::to_string\<close> returns.\<close>

definition GetAddrInfo :: "'addr net_lib \<Rightarrow> string \<Rightarrow> 16 word \<Rightarrow> 'addr list res" where
  "GetAddrInfo N host port =
     (let port_string = OfTemporary (fmt_nat (unat port)) in
      res_bind (c_str (OfLive host)) (\<lambda>node.
      res_bind (c_str port_string) (\<lambda>service.
        case net_getaddrinfo N node service of
          None \<Rightarrow> Inr []
        | Some addresses \<Rightarrow> Inr addresses)))"

definition TryResolveContactPoint :: "'addr net_lib \<Rightarrow> string \<Rightarrow> 16 word \<Rightarrow> 'addr resolver option \<Rightarrow> deadline \<Rightarrow>
    'addr list res" where
  "TryResolveContactPoint N host port resolver deadline =
     res_bind (case resolver of
                 Some resolver \<Rightarrow>
                   (case ResolveContactPoint host resolver deadline of
                      Inl (Throw e) \<Rightarrow> Inl (Throw (ConnectionError (exception_what N e)))
                    | r \<Rightarrow> r)
               | None \<Rightarrow> GetAddrInfo N host port) (\<lambda>result.
       if result = [] then Inl (Throw (ConnectionError ''Unknown host''))
       else Inr (map (Sockaddr_SetPort N port) result))"

section \<open>Connecting\<close>

definition Connection_Connect :: "('addr, 'w) userver \<Rightarrow> lz4_lib \<Rightarrow> 'q queue_lib \<Rightarrow> 'addr net_lib \<Rightarrow>
    'addr resolver option \<Rightarrow> NodeDescription \<Rightarrow> 'w \<Rightarrow> ('q, 'w) conn_state res \<times> 'w" where
  "Connection_Connect E L Q N resolver description w =
     (let deadline = kMinConnectTimeout; conn = mk_ConnectionImpl Q in
      case TryResolveContactPoint N (contact_point description) (node_port description) resolver deadline of
        Inl f \<Rightarrow> (Inl f, w)
      | Inr resolved \<Rightarrow>
          (case AsyncConnect E L resolved (use_compression description) deadline (conn, w) of
             (Inl f, s) \<Rightarrow> (Inl f, snd s)
           | (Inr _, s) \<Rightarrow> (Inr s, snd s)))"

section \<open>What the pool relies on\<close>

text \<open>
  The contract of the pool's interface, and what follows from it for every pool: no use after free, no
  leak, and a bounded size.
\<close>

locale connection_interface =
  fixes ops :: "'c conn_ops"
  assumes ops: "ops_safe ops"
begin

lemma step_safe:
  assumes "pool_reachable ops K p" "pool_step ops K p f p'"
  shows "f \<noteq> Some (UB UseAfterFree)"
  using pool_step_ok [OF ops pool_reachable_ok [OF ops assms(1)] assms(2)] by simp

lemma life: "pool_reachable ops K p \<Longrightarrow> pool_life p"
  by (rule pool_reachable_life [OF ops])

lemma heap_exact: "pool_reachable ops K p \<Longrightarrow> dom (pool_heap p) = set (pool_connections p)"
  using life by (fastforce simp: pool_life_def owned_but_dom pool_ok_def)

lemma size_bounded:
  "pool_reachable ops K p \<Longrightarrow> length (pool_connections p) + pool_connect_tasks p \<le> min_size (pool_config p)"
  using life [of K p] by (simp add: pool_life_def)

end

text \<open>
  Undefined behaviour of the serializers is only ever an access out of bounds, and that of a request in
  addition a stream number out of range or a null pointer.
\<close>

definition oob_only :: "'a res \<Rightarrow> bool" where
  "oob_only r \<longleftrightarrow> (\<forall>u. r = Inl (UB u) \<longrightarrow> u = OutOfBounds)"

lemma oob_only_simps [simp]:
  "oob_only (Inr x)" "oob_only (Inl (Throw e))" "oob_only (Inl (UB OutOfBounds))"
  by (simp_all add: oob_only_def)

lemma oob_only_bind: "oob_only r \<Longrightarrow> (\<And>x. oob_only (f x)) \<Longrightarrow> oob_only (res_bind r f)"
  by (auto simp: oob_only_def res_bind_def split: sum.splits)

lemma oob_only_writes: "(\<And>w b. w \<in> set ws \<Longrightarrow> oob_only (w b)) \<Longrightarrow> oob_only (writes ws buf)"
  by (induction ws arbitrary: buf) (auto intro!: oob_only_bind)

lemma oob_only_WriteIntBE: "oob_only (WriteIntBE v b)"
  by (simp add: WriteIntBE_def)

lemma oob_only_int: "oob_only (WriteByte v b)" "oob_only (WriteShort s b)" "oob_only (WriteInt i b)"
  by (simp_all add: oob_only_WriteIntBE)

lemma oob_only_StringFormatter:
  "(\<And>v b. oob_only (WriteSize v b)) \<Longrightarrow> oob_only (StringBinaryFormatter WriteSize cast to_size_t value buffer)"
  by (auto simp: StringBinaryFormatter_def Let_def intro!: oob_only_bind split: option.split)

lemma oob_only_BytesFormatter:
  "(\<And>v b. oob_only (WriteSize v b)) \<Longrightarrow> oob_only (BytesBinaryFormatter WriteSize cast value_of value buffer)"
  by (auto simp: BytesBinaryFormatter_def Let_def intro!: oob_only_bind split: option.split)

lemma oob_only_strings:
  "oob_only (WriteString s b)" "oob_only (WriteLongString s b)" "oob_only (WriteBytes s b)" "oob_only (WriteShortBytes s b)"
  by (auto simp: WriteString_def WriteLongString_def WriteBytes_def WriteShortBytes_def
      intro!: oob_only_StringFormatter oob_only_BytesFormatter oob_only_WriteIntBE)

lemma oob_only_WriteStringMap: "oob_only (WriteStringMap m b)"
  by (auto simp: WriteStringMap_def MapBinaryFormatter_def simp del: writes.simps
      intro!: oob_only_writes oob_only_strings oob_only_WriteIntBE)

lemma oob_only_params: "oob_only (Write_query_params ps b)"
  by (auto simp: Write_query_params_def simp del: writes.simps intro!: oob_only_writes oob_only_strings oob_only_WriteIntBE)

lemma oob_only_batch: "oob_only (Write_batch_statement st b)"
proof -
  have "oob_only (Write_batch_text st b)" for b
    by (auto simp: Write_batch_text_def oob_only_strings split: BatchKind.split BatchText.split)
  then show ?thesis
    by (auto simp: Write_batch_statement_def simp del: writes.simps intro!: oob_only_writes oob_only_strings oob_only_WriteIntBE)
qed

lemma oob_only_SerializeBody: "oob_only (SerializeBody body b)"
  by (cases body)
     (auto simp del: writes.simps intro!: oob_only_writes oob_only_strings oob_only_WriteIntBE oob_only_WriteStringMap
       oob_only_params oob_only_batch)

lemma oob_only_WriteIntBE_range: "oob_only (WriteIntBE_range b e v data)"
  by (auto simp: WriteIntBE_range_def split: option.split)

lemma oob_only_Compress: "oob_only (Lz4Compressor_Compress L source output)"
  by (auto simp: Lz4Compressor_Compress_def Let_def intro!: oob_only_bind oob_only_WriteIntBE_range split: prod.split option.split)

lemma oob_only_Serialize: "oob_only (RequestMessage_Serialize compressor m buffer)"
proof -
  have header: "oob_only (FrameHeader_Serialize h b)" for h b
    by (auto simp: FrameHeader_Serialize_def simp del: writes.simps intro!: oob_only_writes oob_only_WriteIntBE)
  have len: "oob_only (Serialize_length b)" for b
    by (simp add: Serialize_length_def FrameHeader_UpdateLength_def Let_def oob_only_WriteIntBE_range)
  show ?thesis
    by (auto simp: RequestMessage_Serialize_def Let_def intro!: oob_only_bind header len oob_only_SerializeBody oob_only_Compress
        split: option.split prod.split)
qed

text \<open>Requests over a runtime whose sends do not themselves go wrong.\<close>

locale live_runtime =
  fixes E :: "('addr, 'w) userver"
  assumes send: "fst (socket_SendAll E b deadline w) \<noteq> Inl (UB u)"
begin

lemma SendMessage_oob: "oob_only (fst (SendMessage E compressor message deadline s))"
  using oob_only_Serialize [of compressor message "[]"] send
  by (auto simp: SendMessage_def io_bind_def io_simps on_world_def oob_only_def split: sum.splits prod.splits) (metis fst_conv)+

lemma ExecuteMessageAsync_safe: "fst (ExecuteMessageAsync E Q message deadline s) \<noteq> Inl (UB UseAfterFree)"
proof -
  have "fst (wait_response E i deadline s) \<noteq> Inl (UB UseAfterFree)" for i s
    by (auto simp: wait_response_def on_world_def io_bind_def io_simps CheckError_def split: prod.splits option.splits sum.splits
        if_splits ResponseBody.splits)
  then have wait: "wait_response E i deadline s = (r, s') \<Longrightarrow> r \<noteq> Inl (UB UseAfterFree)" for i s r s'
    by (metis fst_conv)
  have send: "SendMessage E c m deadline s = (Inl (UB u), s') \<Longrightarrow> u = OutOfBounds" for c m s u s'
    using SendMessage_oob [of c m deadline s] by (simp add: oob_only_def)
  show ?thesis
    by (auto simp: ExecuteMessageAsync_def StreamPool_Acquire_def Let_def dest: wait send
        split: option.splits prod.splits sum.splits fault.splits)
qed

lemma statement_safe:
  assumes "\<And>v. get v \<noteq> Inl (UB UseAfterFree)"
  shows "fst (io_bind (ExecuteMessageAsync E Q message deadline) (\<lambda>response. io_lift (expect_result get response)) s)
    \<noteq> Inl (UB UseAfterFree)"
  using ExecuteMessageAsync_safe [of Q message deadline s] assms
  by (auto simp: io_bind_def io_simps expect_result_def split: prod.splits sum.splits ResponseBody.splits)

lemma impl_ops_safe: "ops_safe (impl_ops E Q now)"
proof -
  have get: "GetResultSet v \<noteq> Inl (UB UseAfterFree)" "GetPreparedStatementId v \<noteq> Inl (UB UseAfterFree)" for v
    by (auto simp: GetResultSet_def GetPreparedStatementId_def split: ResultPayload.split)
  show ?thesis
    unfolding ops_safe_def impl_ops_def
    by (simp add: Connection_Execute_def Connection_ExecutePrepared_def Connection_Prepare_def Connection_BatchExecute_def
        statement_safe get Close_def on_world_def)
qed

end

sublocale live_runtime \<subseteq> driver: connection_interface "impl_ops E Q now" for Q now
  by unfold_locales (rule impl_ops_safe)

interpretation pipe: live_runtime pipe_runtime
  by unfold_locales (auto simp: pipe_runtime_def split: prod.split)

section \<open>Properties of connecting\<close>


lemma connecting_no_used_streams:
  assumes "queue_contract Q content capacity"
  shows "GetUsedStreams Q (StreamPool Q) = 0"
  using GetUsedStreams_held [OF assms stream_reachable.init] by simp

text \<open>C15: From a node description to a usable connection: when the resolver knows the contact point, the
  first address with the node's port accepts, and the server answers OPTIONS and STARTUP, then a connect
  task that gets its semaphores succeeds and appends exactly one connection to the pool. It is idle,
  neither broken nor expired, and compresses if and only if the description asks for it and the server
  offers LZ4.\<close>

theorem connect_task_adds_connection:
  assumes "queue_contract Q content capacity" "socket_contract E rx tx"
    and "R (contact_point d) kMinConnectTimeout = Inr (addr # addrs)"
    and "socket_Connect E (Sockaddr_SetPort N (node_port d) addr) kMinConnectTimeout w = (Inr (), w0)"
    and "rx w0 = enc_header h1 @ enc_string_multimap options @ enc_header h2 @ rest"
    and "h1 = response_header kSupported i1 (length (enc_string_multimap options))" "h2 = response_header kReady i2 0"
    and "wf_string_multimap options" "length (enc_string_multimap options) < 2 ^ 31"
    and "map_of options (str ''COMPRESSION'') = Some offered"
    and "ct_connected t = fst (Connection_Connect E L Q N (Some R) d w)" "ct_try_lock t \<or> ct_timed_lock t" "ct_connecting_lock t"
  shows "\<exists>c w'. ConnectionPool_Connect (impl_ops E Q now) t p = (Inr True,
      p\<lparr>pool_heap := (pool_heap p)(ct_address t \<mapsto> (c, w')), pool_connections := pool_connections p @ [ct_address t]\<rparr>) \<and>
    IsIdle Q c \<and> \<not> IsBroken c \<and> \<not> IsExpired (now w') c \<and>
    conn_compressor c = (if use_compression d \<and> str ''lz4'' \<in> set offered then Some L else None)"
proof -
  let ?c = "if use_compression d \<and> str ''lz4'' \<in> set offered then (mk_ConnectionImpl Q)\<lparr>conn_compressor := Some L\<rparr>
    else mk_ConnectionImpl Q"
  have resolved: "TryResolveContactPoint N (contact_point d) (node_port d) (Some R) kMinConnectTimeout =
      Inr (map (Sockaddr_SetPort N (node_port d)) (addr # addrs))"
    using assms(3) by (simp add: TryResolveContactPoint_def ResolveContactPoint_def)
  obtain w1 where "CqlHandshake E L (use_compression d) (mk_ConnectionImpl Q, w0) = (Inr (), (?c, w1))"
    using CqlHandshake_wire [OF assms(2,5-10) refl, where use_compression = "use_compression d" and L = L and c = "mk_ConnectionImpl Q"] by blast
  then have "AsyncConnect E L (map (Sockaddr_SetPort N (node_port d)) (addr # addrs)) (use_compression d) kMinConnectTimeout
      (mk_ConnectionImpl Q, w) = (Inr (), (?c, receiver_Start E w1))"
    using assms(4) by (simp add: AsyncConnect_def io_bind_def on_world_def StartReceiverLoop_def)
  with resolved have conn: "ct_connected t = Inr (?c, receiver_Start E w1)"
    using assms(11) by (simp add: Connection_Connect_def Let_def)
  have c: "IsIdle Q ?c" "\<not> IsBroken ?c" "\<And>n. \<not> IsExpired n ?c"
    "conn_compressor ?c = (if use_compression d \<and> str ''lz4'' \<in> set offered then Some L else None)"
    using connecting_no_used_streams [OF assms(1)]
    by (simp_all add: mk_ConnectionImpl_def IsIdle_def IsBroken_def IsExpired_def)
  have "ConnectionPool_Connect (impl_ops E Q now) t p = (Inr True, p\<lparr>pool_heap := (pool_heap p)(ct_address t \<mapsto> (?c, receiver_Start E w1)),
      pool_connections := pool_connections p @ [ct_address t]\<rparr>)"
    using assms(12,13) c(2,3)
    by (auto simp: ConnectionPool_Connect_def DoConnect_def Push_def conn io_bind_def io_simps impl_ops_def)
  with c show ?thesis by blast
qed

text \<open>A network for the examples: every name resolves to the one peer of the pipe.\<close>

definition one_peer :: "unit net_lib" where
  "one_peer = \<lparr>net_getaddrinfo = (\<lambda>_ _. Some [()]), Sockaddr_SetPort = (\<lambda>_ a. a), exception_what = (\<lambda>_. [])\<rparr>"

definition offered_options :: "(RawBuffer \<times> RawBuffer list) list" where
  "offered_options = [(str ''COMPRESSION'', [str ''lz4''])]"

definition greeting :: pipe where
  "greeting = (enc_header (response_header kSupported 0 (length (enc_string_multimap offered_options))) @
     enc_string_multimap offered_options @ enc_header (response_header kReady 0 0) @ [], [], Map.empty)"

definition pipe_task :: "((int list \<times> nat) ConnectionImpl \<times> pipe) connect_task" where
  "pipe_task = \<lparr>ct_try_lock = False, ct_timed_lock = True, ct_connecting_lock = True,
     ct_connected = fst (Connection_Connect pipe_runtime stored_lz4 list_queue one_peer (Some (\<lambda>_ _. Inr [()])) example_node greeting),
     ct_address = 3\<rparr>"

definition pipe_pool :: "((int list \<times> nat) ConnectionImpl \<times> pipe, RawBuffer \<rightharpoonup> RawBuffer) ConnectionPool" where
  "pipe_pool = \<lparr>pool_description = example_node, pool_keyspace = ''shop'', pool_connections = [], pool_heap = Map.empty,
     pool_prepared = Map.empty, pool_prepared_enabled = True, pool_wait_count = 0, pool_config = example_settings,
     pool_connection_settings = \<lparr>max_ttl = None, recent_errors_threshold = 2\<rparr>, pool_connect_tasks = 1,
     pool_maintain_running = True\<rparr>"

theorem connect_task_adds_connection_witness:
  "\<exists>c w'. ConnectionPool_Connect (impl_ops pipe_runtime list_queue (\<lambda>_. 0)) pipe_task pipe_pool = (Inr True,
      pipe_pool\<lparr>pool_heap := (pool_heap pipe_pool)(ct_address pipe_task \<mapsto> (c, w')),
        pool_connections := pool_connections pipe_pool @ [ct_address pipe_task]\<rparr>) \<and>
    IsIdle list_queue c \<and> \<not> IsBroken c \<and> \<not> IsExpired ((\<lambda>_. 0) w') c \<and>
    conn_compressor c = (if use_compression example_node \<and> str ''lz4'' \<in> set [str ''lz4''] then Some stored_lz4 else None)"
  by (rule connect_task_adds_connection [OF list_queue_contract pipe_socket_contract, where R = "\<lambda>_ _. Inr [()]" and N = one_peer
        and addr = "()" and addrs = "[]" and w = greeting and ?w0.0 = greeting and options = offered_options and rest = "[]"
        and ?i1.0 = 0 and ?i2.0 = 0, OF _ _ _ refl refl])
     (simp_all add: pipe_runtime_def one_peer_def greeting_def pipe_task_def offered_options_def wf_map_def wf_list_def
       wf_string_def enc_list_def enc_string_def enc_short_len_def)

lemma pipe_pool_created:
  "ConnectionPool_Create (impl_ops pipe_runtime list_queue (\<lambda>_. 0)) map_cache (\<lambda>i. pipe_task\<lparr>ct_connected := Inl (Throw IoException), ct_address := i\<rparr>)
     example_node ''shop'' kAsync example_settings \<lparr>max_ttl = None, recent_errors_threshold = 2\<rparr> = Inr pipe_pool"
  by (simp add: ConnectionPool_Create_def mk_ConnectionPool_def Init_def StartMaintainTask_def map_cache_def pipe_pool_def
      example_settings_def)


text \<open>Without a resolver, as with \<open>dns_resolver: getaddrinfo\<close>, connecting is undefined behaviour for every
  node: the port is passed to \<open>getaddrinfo\<close> through a view of a string that no longer exists. With a
  resolver, an exception of it and an empty answer become a \<open>ConnectionError\<close>, which the connect task
  swallows: the pool stays as it is and only \<open>false\<close> is returned.\<close>

theorem resolve_failures:
  "case resolver of
     None \<Rightarrow> fst (Connection_Connect E L Q N resolver d w) = Inl (UB DanglingView)
   | Some R \<Rightarrow>
       (case R (contact_point d) kMinConnectTimeout of
          Inl (Throw e) \<Rightarrow> fst (Connection_Connect E L Q N resolver d w) = Inl (Throw (ConnectionError (exception_what N e))) \<and>
            ConnectionPool_Connect ops (t\<lparr>ct_connected := fst (Connection_Connect E L Q N resolver d w)\<rparr>) p = (Inr False, p)
        | Inr [] \<Rightarrow> fst (Connection_Connect E L Q N resolver d w) = Inl (Throw (ConnectionError ''Unknown host'')) \<and>
            ConnectionPool_Connect ops (t\<lparr>ct_connected := fst (Connection_Connect E L Q N resolver d w)\<rparr>) p = (Inr False, p)
        | _ \<Rightarrow> True)"
  by (auto simp: Connection_Connect_def TryResolveContactPoint_def GetAddrInfo_def ResolveContactPoint_def Let_def
      ConnectionPool_Connect_def DoConnect_def split: option.split sum.split fault.split list.split)

end
