(* ===== verification/Cql_Session.thy ===== *)
theory Cql_Session
  imports Cql_Prepared Cql_Maintain Cql_Connect
begin

text \<open>
  Sessions (\<open>include/cassandra/session.hpp\<close>, \<open>src/session.cpp\<close>, \<open>src/session_impl.cpp\<close>) and the component that
  creates one from the configuration (\<open>src/component.cpp\<close>).

  A session owns one pool per node. The pools are distinct objects, so the session holds their states.
\<close>

section \<open>Sessions\<close>

record ('c, 'k) SessionImpl =
  session_settings :: SessionSettings
  session_pools :: "('c, 'k) ConnectionPool list"

type_synonym ('c, 'k, 'a) session_io = "(('c, 'k) SessionImpl, 'a) io"

text \<open>The loop of \<open>CreateTopology\<close>. Every pool is created in asynchronous mode.\<close>

fun CreateTopology_pools :: "'c conn_ops \<Rightarrow> 'k lru_lib \<Rightarrow> (nat \<Rightarrow> 'c connect_task) \<Rightarrow> SessionSettings \<Rightarrow> NodeDescription list \<Rightarrow>
    ('c, 'k) ConnectionPool list res" where
  "CreateTopology_pools ops K outcome settings [] = Inr []"
| "CreateTopology_pools ops K outcome settings (node # nodes) =
     res_bind (ConnectionPool_Create ops K outcome node (keyspace_name settings) kAsync (pool_settings settings)
         (connection_settings settings)) (\<lambda>pool.
     res_bind (CreateTopology_pools ops K outcome settings nodes) (\<lambda>pools. Inr (pool # pools)))"

definition CreateTopology :: "'c conn_ops \<Rightarrow> 'k lru_lib \<Rightarrow> (nat \<Rightarrow> 'c connect_task) \<Rightarrow> NodeDescription list \<Rightarrow>
    ('c, 'k) SessionImpl \<Rightarrow> ('c, 'k) SessionImpl res" where
  "CreateTopology ops K outcome nodes s =
     (if nodes = [] then Inl (Throw (SessionError ''Cannont create session from an empty node list''))
      else res_bind (CreateTopology_pools ops K outcome (session_settings s) nodes) (\<lambda>pools.
             Inr (s\<lparr>session_pools := session_pools s @ pools\<rparr>)))"

definition mk_SessionImpl :: "'c conn_ops \<Rightarrow> 'k lru_lib \<Rightarrow> (nat \<Rightarrow> 'c connect_task) \<Rightarrow> NodeDescription list \<Rightarrow>
    SessionSettings \<Rightarrow> ('c, 'k) SessionImpl res" where
  "mk_SessionImpl ops K outcome nodes settings =
     CreateTopology ops K outcome nodes \<lparr>session_settings = settings, session_pools = []\<rparr>"

text \<open>A call on the pool that \<open>FindPool\<close> returns, which is always the first one.\<close>

definition FindPool :: "('c, 'k) SessionImpl \<Rightarrow> ('c, 'k) ConnectionPool res" where
  "FindPool s = (case session_pools s of [] \<Rightarrow> Inl (UB EmptyFront) | pool # _ \<Rightarrow> Inr pool)"

definition on_pool :: "('c, 'k, 'a) pool_io \<Rightarrow> ('c, 'k, 'a) session_io" where
  "on_pool m s =
     (case FindPool s of
        Inl f \<Rightarrow> (Inl f, s)
      | Inr pool \<Rightarrow> (case m pool of (r, pool') \<Rightarrow> (r, s\<lparr>session_pools := (session_pools s)[0 := pool']\<rparr>)))"

definition SessionImpl_Execute :: "'c conn_ops \<Rightarrow> 'k lru_lib \<Rightarrow> Consistency \<Rightarrow> RawBuffer \<Rightarrow> QueryParameters \<Rightarrow>
    CommandControl option \<Rightarrow> ('c, 'k, ResultSet) session_io" where
  "SessionImpl_Execute ops K level query params ctl = on_pool (Pool_Execute ops K level query params ctl)"

definition SessionImpl_BatchExecute :: "'c conn_ops \<Rightarrow> 'k lru_lib \<Rightarrow> BatchQueryStore \<Rightarrow> CommandControl option \<Rightarrow>
    ('c, 'k, ResultSet) session_io" where
  "SessionImpl_BatchExecute ops K store ctl = on_pool (Pool_BatchExecute ops K store ctl)"

definition Session_DoExecute :: "'c conn_ops \<Rightarrow> 'k lru_lib \<Rightarrow> Consistency \<Rightarrow> RawBuffer \<Rightarrow> QueryParameters \<Rightarrow>
    CommandControl option \<Rightarrow> ('c, 'k, ResultSet) session_io" where
  "Session_DoExecute ops K level query params ctl = SessionImpl_Execute ops K level query params ctl"

text \<open>The template every overload of \<open>Execute\<close> ends in: as many parameters as arguments.\<close>

definition Session_Execute :: "'c conn_ops \<Rightarrow> 'k lru_lib \<Rightarrow> Consistency \<Rightarrow> CommandControl option \<Rightarrow> RawBuffer \<Rightarrow>
    cell_value list \<Rightarrow> ('c, 'k, ResultSet) session_io" where
  "Session_Execute ops K level ctl query args =
     io_bind (io_lift (StaticQueryParameters_Write (length args) args)) (\<lambda>params.
       Session_DoExecute ops K level query params ctl)"

definition Session_Execute_plain :: "'c conn_ops \<Rightarrow> 'k lru_lib \<Rightarrow> Consistency \<Rightarrow> RawBuffer \<Rightarrow> cell_value list \<Rightarrow>
    ('c, 'k, ResultSet) session_io" where
  "Session_Execute_plain ops K level query args = Session_Execute ops K level None query args"

definition Session_Execute_ctl :: "'c conn_ops \<Rightarrow> 'k lru_lib \<Rightarrow> Consistency \<Rightarrow> CommandControl \<Rightarrow> RawBuffer \<Rightarrow> cell_value list \<Rightarrow>
    ('c, 'k, ResultSet) session_io" where
  "Session_Execute_ctl ops K level ctl query args = Session_Execute ops K level (Some ctl) query args"

definition Session_BatchExecute :: "'c conn_ops \<Rightarrow> 'k lru_lib \<Rightarrow> BatchQueryStore \<Rightarrow> ('c, 'k, ResultSet) session_io" where
  "Session_BatchExecute ops K store = SessionImpl_BatchExecute ops K store None"

definition Session_BatchExecute_ctl :: "'c conn_ops \<Rightarrow> 'k lru_lib \<Rightarrow> BatchQueryStore \<Rightarrow> CommandControl \<Rightarrow>
    ('c, 'k, ResultSet) session_io" where
  "Session_BatchExecute_ctl ops K store ctl = SessionImpl_BatchExecute ops K store (Some ctl)"

section \<open>The component\<close>

text \<open>
  The constructor of the component: \<open>secdist\<close> is the parsed secure configuration. The resolver, the task
  processor and the metrics it looks up are passed on unchanged and are part of \<open>outcome\<close>.
\<close>

abbreviation mk_Session :: "'c conn_ops \<Rightarrow> 'k lru_lib \<Rightarrow> (nat \<Rightarrow> 'c connect_task) \<Rightarrow> NodeDescription list \<Rightarrow>
    SessionSettings \<Rightarrow> ('c, 'k) SessionImpl res" where
  "mk_Session \<equiv> mk_SessionImpl"

definition mk_Cassandra :: "'y yaml_lib \<Rightarrow> 'c conn_ops \<Rightarrow> 'k lru_lib \<Rightarrow> (nat \<Rightarrow> 'c connect_task) \<Rightarrow> CassandraSecdist \<Rightarrow> 'y \<Rightarrow>
    ('c, 'k) SessionImpl res" where
  "mk_Cassandra Y ops K outcome secdist config =
     res_bind (yaml_As_string Y (yaml_member Y config ''keyspace'')) (\<lambda>keyspace.
     res_bind (GetShardedClusterDescription secdist keyspace) (\<lambda>cluster_desc.
     res_bind (As_optional (yaml_missing Y) (yaml_As_string Y) (yaml_member Y config ''blocking_task_processor'')) (\<lambda>_.
     res_bind (PoolSettings_Parse Y config) (\<lambda>pools.
     res_bind (ConnectionSettings_Parse Y config) (\<lambda>conns.
       mk_Session ops K outcome cluster_desc
         \<lparr>keyspace_name = keyspace, pool_settings = pools, connection_settings = conns\<rparr>)))))"

section \<open>What a new session looks like\<close>

lemma on_pool_front:
  "session_pools s = p # ps \<Longrightarrow> on_pool m s = (fst (m p), s\<lparr>session_pools := snd (m p) # ps\<rparr>)"
  by (simp add: on_pool_def FindPool_def split: prod.split)

lemma ConnectionPool_Create_async:
  assumes "lru_New K (prepared_statement_cache_ways settings) (prepared_statement_cache_way_size settings) = Inr k"
    and "min_size settings \<le> max_pool_size settings"
  shows "ConnectionPool_Create ops K outcome node keyspace kAsync settings conn_settings = Inr
    \<lparr>pool_description = node, pool_keyspace = keyspace, pool_connections = [], pool_heap = Map.empty,
     pool_prepared = k, pool_prepared_enabled = prepared_statement_cache_enabled settings, pool_wait_count = 0,
     pool_config = settings, pool_connection_settings = conn_settings, pool_connect_tasks = min_size settings,
     pool_maintain_running = True\<rparr>"
  using assms by (simp add: ConnectionPool_Create_def mk_ConnectionPool_def Init_def StartMaintainTask_def)

text \<open>A pool as a session creates it for a node.\<close>

definition fresh_pool :: "SessionSettings \<Rightarrow> ('c, 'k) ConnectionPool \<Rightarrow> bool" where
  "fresh_pool settings p \<longleftrightarrow> pool_keyspace p = keyspace_name settings \<and> pool_config p = pool_settings settings \<and>
     pool_connection_settings p = connection_settings settings \<and> pool_connections p = [] \<and> pool_heap p = Map.empty \<and>
     pool_prepared_enabled p = prepared_statement_cache_enabled (pool_settings settings) \<and>
     pool_connect_tasks p = min_size (pool_settings settings) \<and> pool_maintain_running p"

lemma Create_fresh:
  assumes "ConnectionPool_Create ops K outcome node (keyspace_name settings) kAsync (pool_settings settings)
      (connection_settings settings) = Inr p"
  shows "pool_description p = node \<and> fresh_pool settings p"
proof -
  from assms obtain impl where impl:
    "mk_ConnectionPool K node (keyspace_name settings) (pool_settings settings) (connection_settings settings) = Inr impl"
    "Init ops outcome kAsync impl = (Inr (), p)" by (rule ConnectionPool_Create_cases)
  from impl(1) show ?thesis
    using impl(2) by (auto simp: mk_ConnectionPool_def res_bind_eq_Inr Init_def StartMaintainTask_def fresh_pool_def split: if_splits)
qed

lemma CreateTopology_pools_fresh:
  "CreateTopology_pools ops K outcome settings nodes = Inr pools \<Longrightarrow>
     map pool_description pools = nodes \<and> (\<forall>p \<in> set pools. fresh_pool settings p)"
  by (induction nodes arbitrary: pools) (auto simp: res_bind_eq_Inr dest!: Create_fresh)

lemma CreateTopology_pools_total:
  assumes "lru_New K (prepared_statement_cache_ways (pool_settings settings)) (prepared_statement_cache_way_size (pool_settings settings)) = Inr k"
  shows "if nodes \<noteq> [] \<and> min_size (pool_settings settings) > max_pool_size (pool_settings settings)
    then CreateTopology_pools ops K outcome settings nodes =
      Inl (Throw (InvalidConfig ''Cassandra pool max size is less than requested initial size''))
    else \<exists>pools. CreateTopology_pools ops K outcome settings nodes = Inr pools"
proof (cases "min_size (pool_settings settings) > max_pool_size (pool_settings settings)")
  case True
  with assms show ?thesis
    by (cases nodes) (simp_all add: ConnectionPool_Create_def mk_ConnectionPool_def Init_def)
next
  case False
  then have le: "min_size (pool_settings settings) \<le> max_pool_size (pool_settings settings)" by simp
  have "\<exists>pools. CreateTopology_pools ops K outcome settings nodes = Inr pools"
    by (induction nodes) (auto simp: ConnectionPool_Create_async [OF assms le])
  with False show ?thesis by simp
qed

lemma mk_SessionImpl_fresh:
  assumes "mk_SessionImpl ops K outcome nodes settings = Inr s"
  shows "nodes \<noteq> [] \<and> session_settings s = settings \<and> map pool_description (session_pools s) = nodes \<and>
    (\<forall>p \<in> set (session_pools s). fresh_pool settings p)"
  using assms CreateTopology_pools_fresh [of ops K outcome settings nodes]
  by (auto simp: mk_SessionImpl_def CreateTopology_def res_bind_eq_Inr split: if_splits)

section \<open>Properties of sessions\<close>

text \<open>A configuration for the examples, with YAML values that are the JSON values above.\<close>

definition yaml_values :: "json yaml_lib" where
  "yaml_values = \<lparr>yaml_member = json_get, yaml_missing = (\<lambda>v. v = JMissing),
     yaml_As_size_t = (\<lambda>v. case v of JNumber n \<Rightarrow> Inr n | _ \<Rightarrow> json_type_error),
     yaml_As_int = (\<lambda>v. case v of JNumber n \<Rightarrow> Inr (int n) | _ \<Rightarrow> json_type_error),
     yaml_As_bool = (\<lambda>v. case v of JBool b \<Rightarrow> Inr b | _ \<Rightarrow> json_type_error),
     yaml_As_string = (\<lambda>v. case v of JString s \<Rightarrow> Inr s | _ \<Rightarrow> json_type_error)\<rparr>"

definition example_config :: json where
  "example_config = JObject [(''keyspace'', JString ''shop''), (''min-pool-size'', JNumber 1),
     (''persistent-prepared-statements'', JBool False), (''sync-start'', JBool True)]"

definition parsed_pools :: PoolSettings where
  "parsed_pools = \<lparr>min_size = 1, max_pool_size = 15, max_queue_size = 200, connecting_limit = 0,
     prepared_statement_cache_ways = 16, prepared_statement_cache_way_size = 200, prepared_statement_cache_enabled = True\<rparr>"

definition parsed_conns :: ConnectionSettings where
  "parsed_conns = \<lparr>max_ttl = None, recent_errors_threshold = 2\<rparr>"

definition example_session :: "(nat \<times> bool, RawBuffer \<rightharpoonup> RawBuffer) SessionImpl" where
  "example_session = \<lparr>session_settings = \<lparr>keyspace_name = ''shop'', pool_settings = parsed_pools, connection_settings = parsed_conns\<rparr>,
     session_pools = [new_pool\<lparr>pool_config := parsed_pools\<rparr>]\<rparr>"

lemmas example_config_defs = yaml_values_def example_config_def parsed_pools_def parsed_conns_def example_session_def

lemma example_parsed:
  "yaml_As_string yaml_values (yaml_member yaml_values example_config ''keyspace'') = Inr ''shop''"
  "As_optional (yaml_missing yaml_values) (yaml_As_string yaml_values)
     (yaml_member yaml_values example_config ''blocking_task_processor'') = Inr None"
  "PoolSettings_Parse yaml_values example_config = Inr parsed_pools"
  "ConnectionSettings_Parse yaml_values example_config = Inr parsed_conns"
  by (simp_all add: PoolSettings_Parse_def ConnectionSettings_Parse_def As_or_def As_optional_def example_config_defs
      kDefaultConnectingLimit_def)

lemma example_session_started:
  "mk_SessionImpl stub_ops map_cache stub_task [example_node] (session_settings example_session) = Inr example_session"
  by (simp add: mk_SessionImpl_def CreateTopology_def ConnectionPool_Create_def mk_ConnectionPool_def Init_def StartMaintainTask_def
      map_cache_def new_pool_def example_config_defs)

lemma example_component:
  "mk_Cassandra yaml_values stub_ops map_cache stub_task [''shop'' \<mapsto> [example_node]] example_config = Inr example_session"
  using example_session_started
  by (simp add: mk_Cassandra_def example_parsed GetShardedClusterDescription_def example_session_def)

text \<open>C24: Starting the component, for a configuration whose values parse: a keyspace without secure settings, a
  keyspace without nodes, and a minimum pool size above the maximum are rejected, each with its own
  exception; otherwise the session has one pool per node, in the order of the nodes, every pool with
  the configured settings, no connection yet, \<open>min_size\<close> connect tasks under way and maintenance running.\<close>

theorem component_start:
  assumes "yaml_As_string Y (yaml_member Y config ''keyspace'') = Inr keyspace"
    and "As_optional (yaml_missing Y) (yaml_As_string Y) (yaml_member Y config ''blocking_task_processor'') = Inr tp"
    and "PoolSettings_Parse Y config = Inr pools" "ConnectionSettings_Parse Y config = Inr conns"
    and "lru_New K (prepared_statement_cache_ways pools) (prepared_statement_cache_way_size pools) = Inr k"
  shows "case secdist keyspace of
      None \<Rightarrow> mk_Cassandra Y ops K outcome secdist config =
        Inl (Throw (SecdistError (''No cassandra secdist settings for keyspace '' @ [CHR 0x27] @ keyspace @ [CHR 0x27])))
    | Some [] \<Rightarrow> mk_Cassandra Y ops K outcome secdist config =
        Inl (Throw (SessionError ''Cannont create session from an empty node list''))
    | Some nodes \<Rightarrow>
        if min_size pools > max_pool_size pools
        then mk_Cassandra Y ops K outcome secdist config =
          Inl (Throw (InvalidConfig ''Cassandra pool max size is less than requested initial size''))
        else \<exists>s. mk_Cassandra Y ops K outcome secdist config = Inr s \<and> map pool_description (session_pools s) = nodes \<and>
          (\<forall>p \<in> set (session_pools s). pool_keyspace p = keyspace \<and> pool_config p = pools \<and> pool_connection_settings p = conns \<and>
             pool_connections p = [] \<and> pool_heap p = Map.empty \<and> pool_connect_tasks p = min_size pools \<and> pool_maintain_running p)"
proof -
  let ?settings = "\<lparr>keyspace_name = keyspace, pool_settings = pools, connection_settings = conns\<rparr>"
  have start: "mk_Cassandra Y ops K outcome secdist config =
      res_bind (GetShardedClusterDescription secdist keyspace) (\<lambda>nodes. mk_SessionImpl ops K outcome nodes ?settings)"
    using assms(1-4) by (simp add: mk_Cassandra_def)
  show ?thesis
  proof (cases "secdist keyspace")
    case None
    then show ?thesis by (simp add: start GetShardedClusterDescription_def)
  next
    case (Some nodes)
    have "\<exists>s. mk_SessionImpl ops K outcome nodes ?settings = Inr s" if "nodes \<noteq> []" "\<not> min_size pools > max_pool_size pools"
      using CreateTopology_pools_total [of K ?settings k nodes ops outcome] assms(5) that
      by (auto simp: mk_SessionImpl_def CreateTopology_def)
    moreover have "mk_SessionImpl ops K outcome nodes ?settings =
        Inl (Throw (InvalidConfig ''Cassandra pool max size is less than requested initial size''))"
      if "nodes \<noteq> []" "min_size pools > max_pool_size pools"
      using CreateTopology_pools_total [of K ?settings k nodes ops outcome] assms(5) that
      by (simp add: mk_SessionImpl_def CreateTopology_def)
    ultimately show ?thesis
      using Some mk_SessionImpl_fresh [of ops K outcome nodes ?settings]
      by (cases nodes) (auto simp: start GetShardedClusterDescription_def mk_SessionImpl_def CreateTopology_def fresh_pool_def)
  qed
qed

theorem component_start_witness:
  "mk_Cassandra yaml_values stub_ops map_cache stub_task Map.empty example_config =
     Inl (Throw (SecdistError (''No cassandra secdist settings for keyspace '' @ [CHR 0x27] @ ''shop'' @ [CHR 0x27]))) \<and>
   mk_Cassandra yaml_values stub_ops map_cache stub_task [''shop'' \<mapsto> []] example_config =
     Inl (Throw (SessionError ''Cannont create session from an empty node list'')) \<and>
   (\<exists>s. mk_Cassandra yaml_values stub_ops map_cache stub_task [''shop'' \<mapsto> [example_node]] example_config = Inr s \<and>
      map pool_description (session_pools s) = [example_node])"
proof -
  note start = component_start [OF example_parsed, where ops = stub_ops and K = map_cache and k = Map.empty and outcome = stub_task]
  have cache: "lru_New map_cache w n = Inr Map.empty" for w n by (simp add: map_cache_def)
  from start [OF cache, of Map.empty] start [OF cache, of "[''shop'' \<mapsto> []]"] start [OF cache, of "[''shop'' \<mapsto> [example_node]]"]
  show ?thesis by (auto simp: parsed_pools_def)
qed

text \<open>C31: A session is handed out before it can be used, and it only ever uses the first node: until a connect
  task of the first pool has finished, every statement and every batch dereferences a null pointer,
  whatever connections the pools of the other nodes hold by then.\<close>

theorem session_before_first_connection:
  assumes "mk_SessionImpl ops K outcome nodes settings = Inr s"
  shows "fst (Session_Execute ops K level ctl query args (s\<lparr>session_pools := hd (session_pools s) # others\<rparr>)) = Inl (UB NullDeref) \<and>
    fst (SessionImpl_BatchExecute ops K \<lparr>store_consistency = level, store_queries = queries\<rparr> ctl
      (s\<lparr>session_pools := hd (session_pools s) # others\<rparr>)) = Inl (UB NullDeref)"
proof -
  let ?p = "hd (session_pools s)"
  have "?p \<in> set (session_pools s)" using mk_SessionImpl_fresh [OF assms] by (metis hd_in_set list.map_disc_iff)
  then have "pool_connections ?p = []" "pool_heap ?p = Map.empty"
    using mk_SessionImpl_fresh [OF assms] by (auto simp: fresh_pool_def)
  then have null: "pool_ok ?p" "eligible_conns ops ?p = []" by (simp_all add: pool_ok_def eligible_conns_def live_conns_def)
  have params: "StaticQueryParameters_Write (length args) args = Inr (map enc_cell args)"
    by (simp add: StaticQueryParameters_Write_def Write_cells_fresh)
  show ?thesis
    using no_connection_null_deref [OF null]
    by (simp add: Session_Execute_def Session_DoExecute_def SessionImpl_Execute_def SessionImpl_BatchExecute_def on_pool_front
        io_bind_def io_simps params)
qed

theorem session_before_first_connection_witness:
  "fst (Session_Execute stub_ops map_cache kOne None [1] [VInt 7]
      (example_session\<lparr>session_pools := hd (session_pools example_session) # [example_pool]\<rparr>)) = Inl (UB NullDeref)"
  using session_before_first_connection [OF example_session_started] by blast

text \<open>C39: Some options of the configuration have no effect. With a configuration that the schema accepts, every
  pool caches prepared statements (the key that is read is not the documented one), its size semaphore
  does not limit it, the threshold of recent errors is 2, and the pools start asynchronously with no
  connection, whatever \<open>persistent-prepared-statements\<close> and \<open>sync-start\<close> say.\<close>

theorem config_options_without_effect:
  assumes "\<forall>key. key \<notin> set kFullStaticConfigSchema \<longrightarrow> yaml_missing Y (yaml_member Y config key)"
    and "mk_Cassandra Y ops K outcome secdist config = Inr s"
  shows "\<forall>p \<in> set (session_pools s). pool_prepared_enabled p \<and> size_semaphore_limit (pool_config p) = 2 ^ 64 - 1 \<and>
    recent_errors_threshold (pool_connection_settings p) = 2 \<and> pool_connections p = []"
proof -
  obtain keyspace nodes pools conns where parsed: "PoolSettings_Parse Y config = Inr pools" "ConnectionSettings_Parse Y config = Inr conns"
    and s: "mk_SessionImpl ops K outcome nodes \<lparr>keyspace_name = keyspace, pool_settings = pools, connection_settings = conns\<rparr> = Inr s"
    using assms(2) by (auto simp: mk_Cassandra_def res_bind_eq_Inr)
  have "yaml_missing Y (yaml_member Y config ''persistentprepared-statement'')"
    "yaml_missing Y (yaml_member Y config ''recent-errors-threshold'')"
    using assms(1) by (simp_all add: kFullStaticConfigSchema_def)
  then have "prepared_statement_cache_enabled pools" "connecting_limit pools = 0" "recent_errors_threshold conns = 2"
    using parsed by (auto simp: PoolSettings_Parse_def ConnectionSettings_Parse_def As_or_def res_bind_eq_Inr kDefaultConnectingLimit_def)
  with mk_SessionImpl_fresh [OF s] show ?thesis by (simp add: fresh_pool_def size_semaphore_limit_def)
qed

theorem config_options_without_effect_witness:
  "json_get example_config ''persistent-prepared-statements'' = JBool False \<and>
   pool_prepared_enabled (hd (session_pools example_session)) \<and>
   size_semaphore_limit (pool_config (hd (session_pools example_session))) = 2 ^ 64 - 1"
proof -
  have schema: "\<forall>key. key \<notin> set kFullStaticConfigSchema \<longrightarrow> yaml_missing yaml_values (yaml_member yaml_values example_config key)"
    by (auto simp: kFullStaticConfigSchema_def example_config_defs)
  have "hd (session_pools example_session) \<in> set (session_pools example_session)" by (simp add: example_session_def)
  with config_options_without_effect [OF schema example_component] show ?thesis by (auto simp: example_config_def)
qed

text \<open>C7: A query through all layers: on a session whose first pool has one usable connection, a statement that
  is not to be prepared goes out as a QUERY frame with a stream of its own; when the server answers a
  frame that reads back as exactly this statement with exactly these arguments with a set of rows, on the
  stream of the frame, the caller gets a result set from which the very values of the rows are
  extracted. The pools of other nodes are not touched.\<close>

theorem session_query_roundtrip:
  assumes "session_pools s = p # ps" "pool_connections p = [a]" "pool_heap p = [a \<mapsto> (c, w)]"
    and "\<not> CanPrepareStatement ctl (pool_prepared_enabled p)"
    and "queue_contract Q content capacity" "stream_reachable Q (conn_stream_pool c, held)" "length held < 1024"
    and "socket_contract E rx tx" "\<not> conn_broken c" "conn_expires_at c = None" "conn_compressor c = None"
    and "b = QueryMessage level query (map enc_cell args)" "wf_body b" "length (enc_body b) < 2 ^ 31"
    and "\<forall>i w1 frame h. tx w1 = tx w @ frame \<longrightarrow> FrameHeader_Parse frame = Inr h \<longrightarrow> Message_GetStreamId h = int i \<longrightarrow>
      read_request_body kQuery frame kHeaderSize = Inr (b, length frame) \<longrightarrow>
      (\<exists>w2. message_Pop E i (network_deadline ctl) w1 = (Some \<lparr>rsp_header = response_header kResult (int i) n,
         rsp_body = ResultMessage (ResultKind_value kRows) (RowPayload r)\<rparr>, w2))"
    and "rk_rows_content r = map (map enc_cell) rows" "rk_columns_count r = word_of_nat (length ts)"
    and "\<forall>vs \<in> set rows. map cell_type_of vs = ts" "length ts < 2 ^ 31"
  shows "\<exists>rs s'. Session_Execute (impl_ops E Q now) K level ctl query args s = (Inr rs, s') \<and>
    AsContainer ts rs = Inr rows \<and> tl (session_pools s') = ps"
proof -
  let ?ops = "impl_ops E Q now"
  obtain i w1 frame h c' where req: "0 \<le> i" "tx w1 = tx w @ frame" "FrameHeader_Parse frame = Inr h" "Message_GetStreamId h = i"
    "read_request_body (RequestBody_opcode b) frame kHeaderSize = Inr (b, length frame)"
    and call: "ExecuteMessageAsync E Q (mk_RequestMessage b) (network_deadline ctl) (c, w) =
      (case message_Pop E (nat i) (network_deadline ctl) w1 of
         (None, w2) \<Rightarrow> (Inl (Throw (ConnectionError ''Timeout'')), (c'\<lparr>conn_broken := True\<rparr>, w2))
       | (Some m, w2) \<Rightarrow> (res_bind (CheckError m) (\<lambda>_. Inr m), (c', w2)))"
    using ExecuteMessageAsync_wire [OF assms(5-8,11,13,14), of w "network_deadline ctl"] by blast
  have "RequestBody_opcode b = kQuery" using assms(12) by simp
  then obtain w2 where pop: "message_Pop E (nat i) (network_deadline ctl) w1 = (Some \<lparr>rsp_header = response_header kResult i n,
       rsp_body = ResultMessage (ResultKind_value kRows) (RowPayload r)\<rparr>, w2)"
    using assms(15) req by (metis int_nat_eq)
  let ?rs = "Some \<lparr>rows_content = rk_rows_content r, columns_count = rk_columns_count r, rows_count = rk_rows_count r\<rparr>"
  have exec: "Connection_Execute E Q level query (map enc_cell args) ctl (c, w) = (Inr ?rs, (c', w2))"
    using call pop assms(12)
    by (simp add: Connection_Execute_def io_bind_def io_simps CheckError_def expect_result_def GetResultSet_def)
  have "pool_ok p" using assms(2,3) by (simp add: pool_ok_def)
  from Acquire_eq [OF this, of ?ops] have acq: "Acquire ?ops False p = (Inr (Some a), p)"
    using assms(2,3,9,10)
    by (simp add: eligible_conns_def live_conns_def keep_conn_def impl_ops_def IsBroken_def IsExpired_def)
  have params: "StaticQueryParameters_Write (length args) args = Inr (map enc_cell args)"
    by (simp add: StaticQueryParameters_Write_def Write_cells_fresh)
  have "\<exists>p'. Pool_Execute ?ops K level query (map enc_cell args) ctl p = (Inr ?rs, p')"
    using acq assms(3,4) exec
    by (simp add: Pool_Execute_def io_bind_def Pool_Execute_on_def with_ptr_def with_conn_def impl_ops_def)
  then have "\<exists>s'. Session_Execute ?ops K level ctl query args s = (Inr ?rs, s') \<and> tl (session_pools s') = ps"
    using assms(1)
    by (auto simp: Session_Execute_def Session_DoExecute_def SessionImpl_Execute_def on_pool_front io_bind_def io_simps params)
  moreover have "AsContainer ts ?rs = Inr rows"
    using AsContainer_values [of rows ts "\<lambda>_. []" 0] assms(16-19) by (simp add: AsContainer_def)
  ultimately show ?thesis by blast
qed

text \<open>A server for the example: it answers every request with one row.\<close>

definition one_row :: RowKind where
  "one_row = \<lparr>rk_flags = 0, rk_columns_count = 1, rk_paging_state = [], rk_global_key_space = [], rk_global_table = [],
     rk_columns = [], rk_rows_count = 1, rk_rows_content = [[enc_cell (VInt 7)]]\<rparr>"

definition row_server :: "(unit, pipe) userver" where
  "row_server = pipe_runtime\<lparr>message_Pop := (\<lambda>i _ w. (Some \<lparr>rsp_header = response_header kResult (int i) 0,
     rsp_body = ResultMessage (ResultKind_value kRows) (RowPayload one_row)\<rparr>, w))\<rparr>"

definition row_session :: "((int list \<times> nat) ConnectionImpl \<times> pipe, RawBuffer \<rightharpoonup> RawBuffer) SessionImpl" where
  "row_session = \<lparr>session_settings = session_settings example_session, session_pools = [pipe_pool\<lparr>pool_prepared_enabled := False,
     pool_connections := [3], pool_heap := [3 \<mapsto> (mk_ConnectionImpl list_queue, ([], [], Map.empty))]\<rparr>]\<rparr>"

lemma row_server_contract: "socket_contract row_server fst (\<lambda>(rx, tx, mail). tx)"
  using pipe_socket_contract by (simp add: socket_contract_def row_server_def)

theorem session_query_roundtrip_witness:
  "\<exists>rs s'. Session_Execute (impl_ops row_server list_queue (\<lambda>_. 0)) map_cache kOne None (str ''SELECT'') [VInt 1] row_session = (Inr rs, s') \<and>
    AsContainer [TInt] rs = Inr [[VInt 7]] \<and> tl (session_pools s') = []"
  by (rule session_query_roundtrip [OF _ _ _ _ list_queue_contract _ _ row_server_contract, where
        p = "hd (session_pools row_session)" and held = "[]" and b = "QueryMessage kOne (str ''SELECT'') (map enc_cell [VInt 1])"
        and a = 3 and c = "mk_ConnectionImpl list_queue" and w = "([], [], Map.empty)" and r = one_row and n = 0])
     (simp_all add: row_session_def row_server_def one_row_def mk_ConnectionImpl_def CanPrepareStatement_def pipe_pool_def
       stream_reachable.init wf_long_string_def wf_list_def enc_long_string_def enc_int_len_def enc_list_def enc_short_len_def
       enc_query_params_def)

end
