(* ===== verification/Cql_Database.thy ===== *)
theory Cql_Database
  imports Cql_Session
begin

text \<open>
  A session as the database behind it: what a connection to a database promises is the locale
  \<open>database_connection\<close>, and over any such connection the statements and batches of a session run as
  the database runs them. The connections of \<open>Cql_Connection\<close>, with a server that reads their frames, are an instance.
\<close>

section \<open>The interface\<close>

text \<open>A request that fits into a frame.\<close>

definition sendable :: "RequestBody \<Rightarrow> bool" where
  "sendable b \<longleftrightarrow> wf_body b \<and> length (enc_body b) < 2 ^ 31"

text \<open>
  \<open>run q ps d\<close> is what the database in state \<open>d\<close> does on the statement \<open>q\<close> with the cells \<open>ps\<close>: the result and
  the new state. A connection in order (\<open>ok\<close>) hands statements to the database \<open>db\<close> behind it, by their text or by an identifier
  it has issued for the text. \<open>run_batch\<close> is what the database does on a batch of statements.
\<close>

locale database_connection =
  fixes ops :: "'c conn_ops" and issued :: "RawBuffer \<Rightarrow> RawBuffer \<Rightarrow> bool" and db :: "'c \<Rightarrow> 'd" and ok :: "'c \<Rightarrow> bool"
    and run :: "RawBuffer \<Rightarrow> RawBuffer list \<Rightarrow> 'd \<Rightarrow> ResultSet \<times> 'd" and run_batch :: "BatchQuery list \<Rightarrow> 'd \<Rightarrow> 'd"
  assumes healthy: "ok c \<Longrightarrow> \<not> co_IsBroken ops c \<and> \<not> co_IsExpired ops c"
    and execute: "ok c \<Longrightarrow> sendable (QueryMessage l q ps) \<Longrightarrow>
      \<exists>c'. co_Execute ops l q ps ctl c = (Inr (fst (run q ps (db c))), c') \<and> db c' = snd (run q ps (db c)) \<and> ok c'"
    and prepare: "ok c \<Longrightarrow> sendable (PrepareMessage q) \<Longrightarrow>
      \<exists>i c'. co_Prepare ops q c = (Inr i, c') \<and> issued q i \<and> db c' = db c \<and> ok c'"
    and execute_prepared: "ok c \<Longrightarrow> issued q i \<Longrightarrow> sendable (ExecuteMessage l i ps) \<Longrightarrow>
      \<exists>c'. co_ExecutePrepared ops l i ps ctl c = (Inr (fst (run q ps (db c))), c') \<and> db c' = snd (run q ps (db c)) \<and> ok c'"
    and batch: "ok c \<Longrightarrow> list_all2 (names_text issued) els sts \<Longrightarrow> sendable (BatchMessage sts l) \<Longrightarrow>
      \<exists>rs c'. co_BatchExecute ops l sts ctl c = (Inr rs, c') \<and> db c' = run_batch els (db c) \<and> ok c'"

text \<open>A pool with one connection in order and a sound cache, and a session whose first pool is one.\<close>

definition pool_serves :: "('k \<Rightarrow> RawBuffer \<rightharpoonup> RawBuffer) \<Rightarrow> (RawBuffer \<Rightarrow> RawBuffer \<Rightarrow> bool) \<Rightarrow> ('c \<Rightarrow> 'd) \<Rightarrow> ('c \<Rightarrow> bool) \<Rightarrow>
    'd \<Rightarrow> ('c, 'k) ConnectionPool \<Rightarrow> bool" where
  "pool_serves view issued db ok d p \<longleftrightarrow> cache_sound view issued p \<and>
     (\<exists>a c. pool_connections p = [a] \<and> pool_heap p = [a \<mapsto> c] \<and> ok c \<and> db c = d)"

definition session_serves :: "('k \<Rightarrow> RawBuffer \<rightharpoonup> RawBuffer) \<Rightarrow> (RawBuffer \<Rightarrow> RawBuffer \<Rightarrow> bool) \<Rightarrow> ('c \<Rightarrow> 'd) \<Rightarrow> ('c \<Rightarrow> bool) \<Rightarrow>
    'd \<Rightarrow> ('c, 'k) SessionImpl \<Rightarrow> bool" where
  "session_serves view issued db ok d s \<longleftrightarrow> session_pools s \<noteq> [] \<and> pool_serves view issued db ok d (hd (session_pools s))"

text \<open>Statements and batches that fit into frames, whichever way they are sent.\<close>

definition statement_fits :: "(RawBuffer \<Rightarrow> RawBuffer \<Rightarrow> bool) \<Rightarrow> RawBuffer \<Rightarrow> RawBuffer list \<Rightarrow> bool" where
  "statement_fits issued q ps \<longleftrightarrow> sendable (PrepareMessage q) \<and>
     (\<forall>l. sendable (QueryMessage l q ps) \<and> (\<forall>i. issued q i \<longrightarrow> sendable (ExecuteMessage l i ps)))"

definition batch_fits :: "(RawBuffer \<Rightarrow> RawBuffer \<Rightarrow> bool) \<Rightarrow> BatchQuery list \<Rightarrow> bool" where
  "batch_fits issued els \<longleftrightarrow> (\<forall>el \<in> set els. sendable (PrepareMessage (bq_query el))) \<and>
     (\<forall>l sts. list_all2 (names_text issued) els sts \<longrightarrow> sendable (BatchMessage sts l))"

context database_connection
begin

lemma acquire_serves:
  assumes "pool_connections p = [a]" "pool_heap p = [a \<mapsto> c]" "ok c"
  shows "Acquire ops False p = (Inr (Some a), p)"
  using assms healthy [OF assms(3)] by (simp add: Acquire_def)

text \<open>A call on the connection: the pool keeps serving, with the new state of the database.\<close>

lemma call_serves:
  assumes "pool_connections p = [a]" "pool_heap p = [a \<mapsto> c]" "m c = (r, c')" "ok c'" "cache_sound view issued p"
  shows "\<exists>p'. with_ptr (Some a) m p = (r, p') \<and> pool_serves view issued db ok (db c') p' \<and> pool_connections p' = [a] \<and>
    pool_heap p' = [a \<mapsto> c'] \<and> pool_prepared p' = pool_prepared p \<and> pool_prepared_enabled p' = pool_prepared_enabled p"
  using assms by (auto simp: with_ptr_def with_conn_def pool_serves_def cache_sound_def)

lemma prepare_serves:
  assumes K: "lru_contract K view" and p: "pool_connections p = [a]" "pool_heap p = [a \<mapsto> c]" "ok c" "cache_sound view issued p"
    and q: "sendable (PrepareMessage q)"
  shows "\<exists>i p' c'. io_bind (cache_Get K q) (\<lambda>v. case v of Some i \<Rightarrow> f i
      | None \<Rightarrow> io_bind (with_ptr (Some a) (co_Prepare ops q)) (\<lambda>i. io_bind (cache_Put K q i) (\<lambda>_. f i))) p = f i p' \<and>
    issued q i \<and> pool_connections p' = [a] \<and> pool_heap p' = [a \<mapsto> c'] \<and> ok c' \<and> db c' = db c \<and> cache_sound view issued p' \<and>
    pool_prepared_enabled p' = pool_prepared_enabled p"
proof -
  obtain r p1 where get: "cache_Get K q p = (r, p1)" by fastforce
  have p1: "p1 = p\<lparr>pool_prepared := pool_prepared p1\<rparr>" using get by (auto simp: cache_Get_def split: prod.splits)
  obtain v where v: "r = Inr v" "cache_sound view issued p1" "\<forall>i. v = Some i \<longrightarrow> issued q i"
    using cache_Get_sound [OF K p(4) get] by blast
  have p1': "pool_connections p1 = [a]" "pool_heap p1 = [a \<mapsto> c]" "pool_prepared_enabled p1 = pool_prepared_enabled p"
    using p(1,2) by (subst p1, simp)+
  show ?thesis
  proof (cases v)
    case (Some i)
    with get v p1' p show ?thesis by (auto simp: io_bind_def intro!: exI [of _ i] exI [of _ p1])
  next
    case None
    obtain i c' where c': "co_Prepare ops q c = (Inr i, c')" "issued q i" "db c' = db c" "ok c'" using prepare [OF p(3) q] by blast
    obtain p2 where p2: "with_ptr (Some a) (co_Prepare ops q) p1 = (Inr i, p2)" "pool_connections p2 = [a]" "pool_heap p2 = [a \<mapsto> c']"
      "pool_prepared p2 = pool_prepared p1" "pool_prepared_enabled p2 = pool_prepared_enabled p1"
      using call_serves [where m = "co_Prepare ops q", OF p1'(1,2) c'(1,4) v(2)] by blast
    obtain u p3 where put: "cache_Put K q i p2 = (u, p3)" by fastforce
    have p3: "u = Inr ()" "pool_connections p3 = [a]" "pool_heap p3 = [a \<mapsto> c']" "pool_prepared_enabled p3 = pool_prepared_enabled p"
      using put p2 p1'(3) by (auto simp: cache_Put_def)
    have "cache_sound view issued p2" using v(2) p2(4) by (simp add: cache_sound_def)
    then have "cache_sound view issued p3" using cache_Put_sound [where issued = issued, OF K] c'(2) put by blast
    with get v(1) None p2(1) put p3 c' show ?thesis by (auto simp: io_bind_def intro!: exI [of _ i] exI [of _ p3])
  qed
qed

lemma pool_execute:
  assumes K: "lru_contract K view" and p: "pool_serves view issued db ok d p" and q: "statement_fits issued q ps"
  shows "\<exists>p'. Pool_Execute ops K l q ps ctl p = (Inr (fst (run q ps d)), p') \<and> pool_serves view issued db ok (snd (run q ps d)) p'"
proof -
  obtain a c where c: "pool_connections p = [a]" "pool_heap p = [a \<mapsto> c]" "ok c" "cache_sound view issued p" and d: "db c = d"
    using p by (auto simp: pool_serves_def)
  have fits: "sendable (PrepareMessage q)" "sendable (QueryMessage l q ps)" "issued q i \<Longrightarrow> sendable (ExecuteMessage l i ps)" for i
    using q by (simp_all add: statement_fits_def)
  show ?thesis
  proof (cases "CanPrepareStatement ctl (pool_prepared_enabled p)")
    case True
    obtain i p1 c1 where on: "Pool_Execute_on ops K l q ps ctl (Some a) p = with_ptr (Some a) (co_ExecutePrepared ops l i ps ctl) p1"
      and p1: "pool_connections p1 = [a]" "pool_heap p1 = [a \<mapsto> c1]" "ok c1" "issued q i" "db c1 = db c" "cache_sound view issued p1"
      using prepare_serves [OF K c fits(1), of "\<lambda>i. with_ptr (Some a) (co_ExecutePrepared ops l i ps ctl)"] True
      by (auto simp: Pool_Execute_on_def)
    obtain c2 where c2: "co_ExecutePrepared ops l i ps ctl c1 = (Inr (fst (run q ps (db c1))), c2)" "db c2 = snd (run q ps (db c1))" "ok c2"
      using execute_prepared [OF p1(3,4) fits(3) [OF p1(4)]] by blast
    from call_serves [where m = "co_ExecutePrepared ops l i ps ctl", OF p1(1,2) c2(1,3) p1(6)] acquire_serves [OF c(1-3)] on c2 p1(5) d show ?thesis
      by (auto simp: Pool_Execute_def io_bind_def)
  next
    case False
    obtain c2 where c2: "co_Execute ops l q ps ctl c = (Inr (fst (run q ps (db c))), c2)" "db c2 = snd (run q ps (db c))" "ok c2"
      using execute [OF c(3) fits(2)] by blast
    from call_serves [where m = "co_Execute ops l q ps ctl", OF c(1,2) c2(1,3) c(4)] acquire_serves [OF c(1-3)] False c2 d show ?thesis
      by (auto simp: Pool_Execute_def Pool_Execute_on_def io_bind_def)
  qed
qed

lemma prepare_batch_serves:
  assumes K: "lru_contract K view" and "pool_connections p = [a]" "pool_heap p = [a \<mapsto> c]" "ok c" "cache_sound view issued p"
    and "\<forall>el \<in> set els. sendable (PrepareMessage (bq_query el))"
  shows "\<exists>sts p' c'. prepare_batch ops K (Some a) els p = (Inr sts, p') \<and> list_all2 (names_text issued) els sts \<and>
    pool_connections p' = [a] \<and> pool_heap p' = [a \<mapsto> c'] \<and> ok c' \<and> db c' = db c \<and> cache_sound view issued p'"
  using assms(2-)
proof (induction els arbitrary: p c)
  case (Cons el els)
  let ?st = "\<lambda>i. BatchStatement_of_id i (bq_params el)"
  obtain i p1 c1 where one: "io_bind (cache_Get K (bq_query el)) (\<lambda>v. case v of Some i \<Rightarrow> io_ret (?st i)
      | None \<Rightarrow> io_bind (with_ptr (Some a) (co_Prepare ops (bq_query el))) (\<lambda>i. io_bind (cache_Put K (bq_query el) i) (\<lambda>_. io_ret (?st i)))) p =
      io_ret (?st i) p1"
    and p1: "pool_connections p1 = [a]" "pool_heap p1 = [a \<mapsto> c1]" "ok c1" "db c1 = db c" "cache_sound view issued p1" "issued (bq_query el) i"
    using prepare_serves [OF K Cons.prems(1-4), of "bq_query el" "\<lambda>i. io_ret (?st i)"] Cons.prems(5) by auto
  have "\<forall>el \<in> set els. sendable (PrepareMessage (bq_query el))" using Cons.prems(5) by simp
  from Cons.IH [OF p1(1-3,5) this] obtain sts p2 c2 where rest: "prepare_batch ops K (Some a) els p1 = (Inr sts, p2)" "list_all2 (names_text issued) els sts"
      "pool_connections p2 = [a]" "pool_heap p2 = [a \<mapsto> c2]" "ok c2" "db c2 = db c1" "cache_sound view issued p2"
    by blast
  have "prepare_batch ops K (Some a) (el # els) p = (Inr (?st i # sts), p2)"
    using one rest(1) by (auto simp: io_bind_def io_simps split: prod.splits sum.splits option.splits)
  moreover have "list_all2 (names_text issued) (el # els) (?st i # sts)" using rest(2) p1(6) by (auto simp: names_text_def [of issued el])
  ultimately show ?case using rest(3-7) p1(4) by metis
qed auto

lemma pool_batch:
  assumes K: "lru_contract K view" and p: "pool_serves view issued db ok d p" and els: "batch_fits issued (store_queries store)"
  shows "\<exists>rs p'. Pool_BatchExecute ops K store ctl p = (Inr rs, p') \<and>
    pool_serves view issued db ok (run_batch (store_queries store) d) p'"
proof -
  obtain a c where c: "pool_connections p = [a]" "pool_heap p = [a \<mapsto> c]" "ok c" "cache_sound view issued p" and d: "db c = d"
    using p by (auto simp: pool_serves_def)
  let ?texts = "map (\<lambda>el. BatchStatement_of_string (bq_query el) (bq_params el)) (store_queries store)"
  have fits: "\<forall>el \<in> set (store_queries store). sendable (PrepareMessage (bq_query el))"
    "list_all2 (names_text issued) (store_queries store) sts \<Longrightarrow> sendable (BatchMessage sts (store_consistency store))" for sts
    using els by (simp_all add: batch_fits_def)
  have "\<exists>sts p1 c1. (if CanPrepareStatement ctl (pool_prepared_enabled p) then prepare_batch ops K (Some a) (store_queries store)
      else io_ret ?texts) p = (Inr sts, p1) \<and> list_all2 (names_text issued) (store_queries store) sts \<and>
    pool_connections p1 = [a] \<and> pool_heap p1 = [a \<mapsto> c1] \<and> ok c1 \<and> db c1 = db c \<and> cache_sound view issued p1"
    using prepare_batch_serves [OF K c fits(1)] c by (auto simp: io_simps list_all2_conv_all_nth names_text_def)
  then obtain sts p1 c1 where sts: "(if CanPrepareStatement ctl (pool_prepared_enabled p) then prepare_batch ops K (Some a) (store_queries store)
      else io_ret ?texts) p = (Inr sts, p1)" "list_all2 (names_text issued) (store_queries store) sts"
    and p1: "pool_connections p1 = [a]" "pool_heap p1 = [a \<mapsto> c1]" "ok c1" "db c1 = db c" "cache_sound view issued p1" by blast
  obtain rs c2 where c2: "co_BatchExecute ops (store_consistency store) sts ctl c1 = (Inr rs, c2)"
    "db c2 = run_batch (store_queries store) (db c1)" "ok c2"
    using batch [OF p1(3) sts(2) fits(2) [OF sts(2)]] by blast
  from call_serves [where m = "co_BatchExecute ops (store_consistency store) sts ctl", OF p1(1,2) c2(1,3) p1(5)]
  obtain p' where "with_ptr (Some a) (co_BatchExecute ops (store_consistency store) sts ctl) p1 = (Inr rs, p')"
    "pool_serves view issued db ok (db c2) p'" by blast
  with acquire_serves [OF c(1-3)] sts(1) c2(2) p1(4) d show ?thesis
    by (simp add: Pool_BatchExecute_def Pool_BatchExecute_on_def io_bind_def)
qed

lemma session_execute:
  assumes K: "lru_contract K view" and s: "session_serves view issued db ok d s" and q: "statement_fits issued q (map enc_cell args)"
  shows "\<exists>s'. Session_Execute ops K l ctl q args s = (Inr (fst (run q (map enc_cell args) d)), s') \<and>
    session_serves view issued db ok (snd (run q (map enc_cell args) d)) s'"
proof -
  obtain p ps where sp: "session_pools s = p # ps" "pool_serves view issued db ok d p"
    using s by (cases "session_pools s") (auto simp: session_serves_def)
  obtain p' where "Pool_Execute ops K l q (map enc_cell args) ctl p = (Inr (fst (run q (map enc_cell args) d)), p')"
    "pool_serves view issued db ok (snd (run q (map enc_cell args) d)) p'" using pool_execute [OF K sp(2) q] by blast
  moreover have "StaticQueryParameters_Write (length args) args = Inr (map enc_cell args)"
    by (simp add: StaticQueryParameters_Write_def Write_cells_fresh)
  ultimately show ?thesis using sp(1)
    by (auto simp: Session_Execute_def Session_DoExecute_def SessionImpl_Execute_def on_pool_front io_bind_def io_simps session_serves_def)
qed

lemma session_batch:
  assumes K: "lru_contract K view" and s: "session_serves view issued db ok d s" and els: "batch_fits issued (store_queries store)"
  shows "\<exists>rs s'. Session_BatchExecute ops K store s = (Inr rs, s') \<and>
    session_serves view issued db ok (run_batch (store_queries store) d) s'"
proof -
  obtain p ps where sp: "session_pools s = p # ps" "pool_serves view issued db ok d p"
    using s by (cases "session_pools s") (auto simp: session_serves_def)
  obtain rs p' where "Pool_BatchExecute ops K store None p = (Inr rs, p')"
    "pool_serves view issued db ok (run_batch (store_queries store) d) p'" using pool_batch [OF K sp(2) els] by blast
  with sp(1) show ?thesis
    by (auto simp: Session_BatchExecute_def SessionImpl_BatchExecute_def on_pool_front session_serves_def)
qed

end

section \<open>Connections to a server that reads frames\<close>

text \<open>
  The other end of the wire: a server that collects the bytes a connection sends and answers the request
  they encode. The identifier of a statement is its text.
\<close>

record 'd server_world =
  srv_sent :: RawBuffer
  srv_db :: 'd

definition result_body :: "ResultSet \<Rightarrow> ResponseBody" where
  "result_body rs =
     (case rs of
        None \<Rightarrow> ResultMessage (ResultKind_value kVoid) VoidPayload
      | Some r \<Rightarrow> ResultMessage (ResultKind_value kRows) (RowPayload \<lparr>rk_flags = 0, rk_columns_count = columns_count r,
          rk_paging_state = [], rk_global_key_space = [], rk_global_table = [], rk_columns = [],
          rk_rows_count = rows_count r, rk_rows_content = rows_content r\<rparr>))"

definition batch_query_of :: "BatchStatement \<Rightarrow> BatchQuery" where
  "batch_query_of st = \<lparr>bq_query = (case bs_query st of LongStringText q \<Rightarrow> q | ShortBytesId i \<Rightarrow> i), bq_params = bs_params st\<rparr>"

fun serve :: "(RawBuffer \<Rightarrow> RawBuffer list \<Rightarrow> 'd \<Rightarrow> ResultSet \<times> 'd) \<Rightarrow> (BatchQuery list \<Rightarrow> 'd \<Rightarrow> 'd) \<Rightarrow> RequestBody \<Rightarrow> 'd \<Rightarrow> ResponseBody \<times> 'd" where
  "serve run run_batch OptionsMessage d = (SupportMessage [], d)"
| "serve run run_batch (StartupMessage options) d = (ReadyMessage, d)"
| "serve run run_batch (QueryMessage l q ps) d = (result_body (fst (run q ps d)), snd (run q ps d))"
| "serve run run_batch (PrepareMessage q) d = (ResultMessage (ResultKind_value kPrepared) (PreparedPayload \<lparr>pk_id = q, pk_flags = 0,
     pk_column_count = 0, pk_partition_key_count = 0, pk_partition_key_indexes = [], pk_global_key_space = [],
     pk_global_table = [], pk_columns = []\<rparr>), d)"
| "serve run run_batch (ExecuteMessage l i ps) d = (result_body (fst (run i ps d)), snd (run i ps d))"
| "serve run run_batch (BatchMessage sts l) d = (result_body None, run_batch (map batch_query_of sts) d)"

definition read_frame :: "RawBuffer \<Rightarrow> RequestBody res" where
  "read_frame frame = res_bind (FrameHeader_Parse frame) (\<lambda>h.
     case Opcode_of (hdr_opcode h) of
       None \<Rightarrow> Inl (Throw (std_runtime_error ''opcode''))
     | Some op \<Rightarrow> res_bind (read_request_body op frame kHeaderSize) (\<lambda>(b, _). Inr b))"

definition server_runtime :: "(RawBuffer \<Rightarrow> RawBuffer list \<Rightarrow> 'd \<Rightarrow> ResultSet \<times> 'd) \<Rightarrow> (BatchQuery list \<Rightarrow> 'd \<Rightarrow> 'd) \<Rightarrow> (unit, 'd server_world) userver" where
  "server_runtime run run_batch = \<lparr>socket_Connect = (\<lambda>_ _ w. (Inr (), w)),
     socket_RecvAll = (\<lambda>n _ w. (Inr [], w)),
     socket_SendAll = (\<lambda>b _ w. (Inr (length b), w\<lparr>srv_sent := srv_sent w @ b\<rparr>)),
     message_Push = (\<lambda>i m _ w. (True, w)),
     message_Pop = (\<lambda>i _ w.
       case read_frame (srv_sent w) of
         Inl _ \<Rightarrow> (None, w)
       | Inr b \<Rightarrow> (Some \<lparr>rsp_header = response_header kResult (int i) 0, rsp_body = fst (serve run run_batch b (srv_db w))\<rparr>,
           \<lparr>srv_sent = [], srv_db = snd (serve run run_batch b (srv_db w))\<rparr>)),
     task_ShouldCancel = (\<lambda>w. (False, w)), receiver_Start = (\<lambda>w. w), receiver_Stop = (\<lambda>w. w), socket_Release = (\<lambda>w. w)\<rparr>"

definition server_ok :: "'q queue_lib \<Rightarrow> ('q, 'd server_world) conn_state \<Rightarrow> bool" where
  "server_ok Q s \<longleftrightarrow> stream_reachable Q (conn_stream_pool (fst s), []) \<and> \<not> conn_broken (fst s) \<and> conn_expires_at (fst s) = None \<and>
     conn_compressor (fst s) = None \<and> srv_sent (snd s) = []"

lemma server_call:
  assumes Q: "queue_contract Q content capacity" and ok: "server_ok Q (c, w)" and b: "sendable b"
    and body: "fst (serve run run_batch b (srv_db w)) = ResultMessage kind payload"
  shows "\<exists>h c'. ExecuteMessageAsync (server_runtime run run_batch) Q (mk_RequestMessage b) deadline (c, w) =
      (Inr \<lparr>rsp_header = h, rsp_body = ResultMessage kind payload\<rparr>, (c', \<lparr>srv_sent = [], srv_db = snd (serve run run_batch b (srv_db w))\<rparr>)) \<and>
    server_ok Q (c', \<lparr>srv_sent = [], srv_db = snd (serve run run_batch b (srv_db w))\<rparr>)"
proof -
  have c: "stream_reachable Q (conn_stream_pool c, [])" "conn_compressor c = None" "srv_sent w = []" using ok by (simp_all add: server_ok_def)
  obtain i q where acq: "StreamPool_Acquire Q (conn_stream_pool c) = Inr (i, q)" and i: "0 \<le> i" "i < 1024"
    and free: "stream_reachable Q (snd (StreamPool_Release Q i q), [])"
    by (rule stream_of_request [OF Q c(1)]) simp_all
  define m where "m = (mk_RequestMessage b)\<lparr>req_header := Message_SetStreamId i (req_header (mk_RequestMessage b))\<rparr>"
  have wf: "wf_body b" "length (enc_body b) < 2 ^ 31" using b by (simp_all add: sendable_def)
  obtain frame h where frame: "RequestMessage_Serialize None m [] = Inr (m, frame)" "FrameHeader_Parse frame = Inr h"
    "Opcode_of (hdr_opcode h) = Some (RequestBody_opcode b)"
    "read_request_body (RequestBody_opcode b) frame kHeaderSize = Inr (b, length frame)"
    by (rule frame_of_request [OF wf i m_def])
  have read: "read_frame frame = Inr b" using frame(2-4) by (simp add: read_frame_def)
  let ?c1 = "c\<lparr>conn_stream_pool := q\<rparr>" and ?w1 = "w\<lparr>srv_sent := frame\<rparr>"
  have send: "SendMessage (server_runtime run run_batch) (conn_compressor c) m deadline (?c1, w) = (Inr (), (?c1, ?w1))"
    using frame(1) c(2,3) by (simp add: SendMessage_def io_bind_def io_simps on_world_def server_runtime_def)
  let ?r = "\<lparr>rsp_header = response_header kResult i 0, rsp_body = ResultMessage kind payload\<rparr>"
    and ?w2 = "\<lparr>srv_sent = [], srv_db = snd (serve run run_batch b (srv_db w))\<rparr>"
  have "(i < 0 \<or> kMaxStreams < nat i) = False" using i by auto
  then have "wait_response (server_runtime run run_batch) i deadline (?c1, ?w1) = (Inr ?r, (?c1, ?w2))"
    using i(1) read body by (simp add: wait_response_def on_world_def server_runtime_def io_bind_def io_simps CheckError_def)
  then have "ExecuteMessageAsync (server_runtime run run_batch) Q (mk_RequestMessage b) deadline (c, w) = (Inr ?r, StreamGuard_release Q i (?c1, ?w2))"
    using acq send by (intro ExecuteMessageAsync_acquired [where q = q and v = "Inr ()" and ?s1.0 = "(?c1, ?w1)"]) (simp_all add: m_def)
  then show ?thesis using free ok by (auto simp: StreamGuard_release_def server_ok_def)
qed

lemma expect_result_body: "expect_result GetResultSet \<lparr>rsp_header = h, rsp_body = result_body rs\<rparr> = Inr rs"
  by (cases rs) (simp_all add: expect_result_def result_body_def GetResultSet_def)

lemma result_body_ResultMessage: "\<exists>kind payload. result_body rs = ResultMessage kind payload"
  by (cases rs) (simp_all add: result_body_def)

text \<open>The batch a server reads, by texts or by identifiers, is the batch of the texts.\<close>

lemma named_batch: "list_all2 (names_text (\<lambda>q i. i = q)) els sts \<Longrightarrow> map batch_query_of sts = els"
  by (induction rule: list_all2_induct)
     (auto simp: names_text_def batch_query_of_def BatchStatement_of_string_def BatchStatement_of_id_def)

lemma server_database:
  assumes Q: "queue_contract Q content capacity"
  shows "database_connection (impl_ops (server_runtime run run_batch) Q now) (\<lambda>q i. i = q) (\<lambda>s. srv_db (snd s)) (server_ok Q) run run_batch"
proof (unfold_locales, goal_cases)
  case (1 s)
  then show ?case by (simp add: impl_ops_def server_ok_def IsBroken_def IsExpired_def)
next
  case (2 s l q ps ctl)
  from result_body_ResultMessage obtain kind payload where r: "result_body (fst (run q ps (srv_db (snd s)))) = ResultMessage kind payload" by blast
  from server_call [OF Q, of "fst s" "snd s" "QueryMessage l q ps" run run_batch kind payload "network_deadline ctl"] 2 r
  show ?case using expect_result_body [of _ "fst (run q ps (srv_db (snd s)))"]
    by (auto simp: impl_ops_def Connection_Execute_def io_bind_def io_simps)
next
  case (3 s q)
  from server_call [OF Q, of "fst s" "snd s" "PrepareMessage q" run run_batch _ _ "Some 3000"] 3
  show ?case by (fastforce simp: impl_ops_def Connection_Prepare_def io_bind_def io_simps expect_result_def GetPreparedStatementId_def)
next
  case (4 s q i l ps ctl)
  from result_body_ResultMessage obtain kind payload where r: "result_body (fst (run q ps (srv_db (snd s)))) = ResultMessage kind payload" by blast
  from server_call [OF Q, of "fst s" "snd s" "ExecuteMessage l i ps" run run_batch kind payload "network_deadline ctl"] 4 r
  show ?case using expect_result_body [of _ "fst (run q ps (srv_db (snd s)))"]
    by (auto simp: impl_ops_def Connection_ExecutePrepared_def io_bind_def io_simps)
next
  case (5 s els sts l ctl)
  from result_body_ResultMessage obtain kind payload where r: "result_body None = ResultMessage kind payload" by blast
  from server_call [OF Q, of "fst s" "snd s" "BatchMessage sts l" run run_batch kind payload "network_deadline ctl"] 5 r
  show ?case using expect_result_body [of _ None] named_batch [OF 5(2)]
    by (auto simp: impl_ops_def Connection_BatchExecute_def io_bind_def io_simps)
qed

interpretation server: database_connection "impl_ops (server_runtime run run_batch) list_queue now" "\<lambda>q i. i = q" "\<lambda>s. srv_db (snd s)"
    "server_ok list_queue" run run_batch for run :: "RawBuffer \<Rightarrow> RawBuffer list \<Rightarrow> 'd \<Rightarrow> ResultSet \<times> 'd" and run_batch and now
  by (rule server_database [OF list_queue_contract])

abbreviation server_session :: "'q queue_lib \<Rightarrow> ('k \<Rightarrow> RawBuffer \<rightharpoonup> RawBuffer) \<Rightarrow> 'd \<Rightarrow>
    (('q, 'd server_world) conn_state, 'k) SessionImpl \<Rightarrow> bool" where
  "server_session Q view \<equiv> session_serves view (\<lambda>q i. i = q) (\<lambda>s. srv_db (snd s)) (server_ok Q)"

section \<open>What fits into a frame\<close>

abbreviation params_size :: "RawBuffer list \<Rightarrow> nat" where
  "params_size ps \<equiv> \<Sum>p\<leftarrow>ps. length p + 4"

lemma length_enc_params: "length (enc_list enc_short_len enc_bytes ps) = params_size ps + 2"
  by (simp add: enc_list_def enc_long_string_def length_concat comp_def add.commute)

lemma wf_paramsI: "length ps < 2 ^ 16 \<Longrightarrow> params_size ps < 2 ^ 31 \<Longrightarrow> wf_params ps"
proof -
  assume "length ps < 2 ^ 16" "params_size ps < 2 ^ 31"
  moreover have "length p \<le> params_size ps" if "p \<in> set ps" for p
    using member_le_sum_list [of "length p + 4" "map (\<lambda>p. length p + 4) ps"] that by auto
  ultimately show ?thesis by (fastforce simp: wf_list_def wf_long_string_def)
qed

lemma statement_fitsI:
  assumes "length q < 2 ^ 16" "length ps < 2 ^ 16" "params_size ps < 2 ^ 30"
  shows "statement_fits (\<lambda>q i. i = q) q ps"
  using assms wf_paramsI [of ps]
  by (auto simp: statement_fits_def sendable_def wf_string_def wf_long_string_def enc_query_params_def length_enc_params
      enc_long_string_def enc_string_def)

lemma batch_fitsI:
  assumes "length els < 2 ^ 16" "\<forall>el \<in> set els. length (bq_query el) < 2 ^ 16 \<and> length (bq_params el) < 2 ^ 16"
    and "(\<Sum>el\<leftarrow>els. length (bq_query el) + params_size (bq_params el) + 7) < 2 ^ 30"
  shows "batch_fits (\<lambda>q i. i = q) els"
proof -
  have "sendable (BatchMessage sts l)" if sts: "list_all2 (names_text (\<lambda>q i. i = q)) els sts" for sts l
  proof -
    have size: "length (enc_batch_statement st) \<le> length (bq_query el) + params_size (bq_params el) + 7 \<and>
        (length (bq_query el) < 2 ^ 16 \<and> length (bq_params el) < 2 ^ 16 \<and> params_size (bq_params el) < 2 ^ 31 \<longrightarrow> wf_statement st)"
      if "names_text (\<lambda>q i. i = q) el st" for el st
      using that wf_paramsI [of "bq_params el"]
      by (auto simp: names_text_def enc_batch_statement_def length_enc_params BatchStatement_of_string_def BatchStatement_of_id_def
          enc_long_string_def enc_string_def  wf_statement_def wf_string_def wf_long_string_def)
    have "(\<Sum>st\<leftarrow>sts. length (enc_batch_statement st)) \<le> (\<Sum>el\<leftarrow>els. length (bq_query el) + params_size (bq_params el) + 7) \<and>
        length sts = length els \<and> ((\<Sum>el\<leftarrow>els. length (bq_query el) + params_size (bq_params el) + 7) < 2 ^ 30 \<longrightarrow>
        (\<forall>el \<in> set els. length (bq_query el) < 2 ^ 16 \<and> length (bq_params el) < 2 ^ 16) \<longrightarrow> (\<forall>st \<in> set sts. wf_statement st))"
      using sts by (induction rule: list_all2_induct) (use size in fastforce)+
    with assms show ?thesis
      by (auto simp: sendable_def wf_list_def enc_list_def  length_concat comp_def)
  qed
  moreover have "sendable (PrepareMessage (bq_query el))" if "el \<in> set els" for el
    using assms(2) that by (auto simp: sendable_def wf_long_string_def enc_long_string_def enc_int_len_def)
  ultimately show ?thesis by (simp add: batch_fits_def)
qed

section \<open>An instance\<close>

text \<open>A session with one fresh connection and caching enabled; a database that logs the statements it runs.\<close>

definition db_session :: "'d \<Rightarrow> ((int list \<times> nat, 'd server_world) conn_state, RawBuffer \<rightharpoonup> RawBuffer) SessionImpl" where
  "db_session d = \<lparr>session_settings = session_settings example_session, session_pools = [
     \<lparr>pool_description = example_node, pool_keyspace = ''shop'', pool_connections = [3],
      pool_heap = [3 \<mapsto> (mk_ConnectionImpl list_queue, \<lparr>srv_sent = [], srv_db = d\<rparr>)],
      pool_prepared = Map.empty, pool_prepared_enabled = True, pool_wait_count = 0, pool_config = example_settings,
      pool_connection_settings = \<lparr>max_ttl = None, recent_errors_threshold = 2\<rparr>, pool_connect_tasks = 0,
      pool_maintain_running = True\<rparr>]\<rparr>"

lemma db_session_serves: "server_session list_queue (\<lambda>m. m) d (db_session d)"
  by (auto simp: session_serves_def pool_serves_def db_session_def cache_sound_def server_ok_def mk_ConnectionImpl_def stream_reachable.init
      intro!: exI [of _ 3] exI [of _ "mk_ConnectionImpl list_queue"] exI [of _ "\<lparr>srv_sent = [], srv_db = d\<rparr>"])

definition log_run :: "RawBuffer \<Rightarrow> RawBuffer list \<Rightarrow> RawBuffer list \<Rightarrow> ResultSet \<times> RawBuffer list" where
  "log_run q ps d = (None, d @ [q])"

definition log_batch :: "BatchQuery list \<Rightarrow> RawBuffer list \<Rightarrow> RawBuffer list" where
  "log_batch els d = d @ map bq_query els"

section \<open>Properties\<close>

text \<open>C6: A session is the database behind it. With a session whose first pool has one working connection to
  a server that reads frames, executing a statement runs exactly this statement with exactly these
  arguments on the database, once, and returns its result; executing a batch hands the database exactly
  the statements of the batch with their arguments, in their order and once. This holds whether the statement is sent as text, prepared first or found in the cache of
  prepared statements, and the session can go on with the new state of the database.\<close>

theorem session_refines_database:
  assumes "queue_contract Q content capacity" "lru_contract K view" "server_session Q view d s"
    and "statement_fits (\<lambda>q i. i = q) query (map enc_cell args)" "batch_fits (\<lambda>q i. i = q) (store_queries store)"
  shows "(\<exists>s'. Session_Execute (impl_ops (server_runtime run run_batch) Q now) K level ctl query args s =
      (Inr (fst (run query (map enc_cell args) d)), s') \<and> server_session Q view (snd (run query (map enc_cell args) d)) s') \<and>
    (\<exists>rs s'. Session_BatchExecute (impl_ops (server_runtime run run_batch) Q now) K store s = (Inr rs, s') \<and>
      server_session Q view (run_batch (store_queries store) d) s')"
  using database_connection.session_execute [OF server_database [OF assms(1)] assms(2-4)]
    database_connection.session_batch [OF server_database [OF assms(1)] assms(2,3,5)]
  by simp

theorem session_refines_database_witness:
  "(\<exists>s'. Session_Execute (impl_ops (server_runtime log_run log_batch) list_queue (\<lambda>_. 0)) map_cache kOne None (str ''A'') [VInt 7] (db_session []) =
      (Inr None, s') \<and> server_session list_queue (\<lambda>m. m) [str ''A''] s') \<and>
   (\<exists>rs s'. Session_BatchExecute (impl_ops (server_runtime log_run log_batch) list_queue (\<lambda>_. 0)) map_cache
        \<lparr>store_consistency = kOne, store_queries = [\<lparr>bq_query = str ''B'', bq_params = []\<rparr>, \<lparr>bq_query = str ''C'', bq_params = [[1]]\<rparr>]\<rparr>
        (db_session []) = (Inr rs, s') \<and> server_session list_queue (\<lambda>m. m) [str ''B'', str ''C''] s')"
proof -
  have "statement_fits (\<lambda>q i. i = q) (str ''A'') (map enc_cell [VInt 7])" by (rule statement_fitsI) simp_all
  moreover have "batch_fits (\<lambda>q i. i = q) (store_queries \<lparr>store_consistency = kOne,
      store_queries = [\<lparr>bq_query = str ''B'', bq_params = []\<rparr>, \<lparr>bq_query = str ''C'', bq_params = [[1]]\<rparr>]\<rparr>)"
    by (rule batch_fitsI) simp_all
  ultimately show ?thesis
    using session_refines_database [OF list_queue_contract map_cache_contract db_session_serves, where run = log_run and run_batch = log_batch and d = "[]"]
    by (fastforce simp: log_run_def log_batch_def)
qed

end
