(* ===== verification/Cql_Samples.thy ===== *)
theory Cql_Samples
  imports Cql_Database "HOL-Library.AList"
begin

text \<open>
  The sample services (\<open>samples/example_service/main.cpp\<close>, \<open>samples/bench_service/main.cpp\<close>): HTTP handlers that use a
  session. They show the driver as its clients use it, through all layers down to the frames.
\<close>

section \<open>Requests and responses\<close>

text \<open>The JSON values of userver, as far as the handlers read them.\<close>

record 'v request_json =
  rj_member :: "'v \<Rightarrow> string \<Rightarrow> 'v res"
  rj_As_int :: "'v \<Rightarrow> 32 word res"
  rj_As_string :: "'v \<Rightarrow> RawBuffer res"
  rj_elements :: "'v \<Rightarrow> 'v list res"

text \<open>\<open>json[k].As<T>()\<close>: both the member access and the conversion may throw.\<close>

definition rj_int :: "'v request_json \<Rightarrow> 'v \<Rightarrow> string \<Rightarrow> 32 word res" where
  "rj_int J v k = res_bind (rj_member J v k) (rj_As_int J)"

definition rj_string :: "'v request_json \<Rightarrow> 'v \<Rightarrow> string \<Rightarrow> RawBuffer res" where
  "rj_string J v k = res_bind (rj_member J v k) (rj_As_string J)"

definition rj_array :: "'v request_json \<Rightarrow> 'v \<Rightarrow> string \<Rightarrow> 'v list res" where
  "rj_array J v k = res_bind (rj_member J v k) (rj_elements J)"

datatype out_json = ONull | OInt int | OText RawBuffer | OArray "out_json list" | OObject "(string \<times> out_json) list"

datatype HttpStatus = HttpOk | NotFound | InternalServerError

type_synonym response = "HttpStatus \<times> out_json"

text \<open>A handler holds a pointer to the session, which may be null.\<close>

type_synonym ('c, 'k, 'a) handler_io = "(('c, 'k) SessionImpl option, 'a) io"

definition via_session :: "('c, 'k, 'a) session_io \<Rightarrow> ('c, 'k, 'a) handler_io" where
  "via_session m st =
     (case st of
        None \<Rightarrow> (Inl (UB NullDeref), None)
      | Some s \<Rightarrow> (case m s of (r, s') \<Rightarrow> (r, Some s')))"

definition null_session_response :: response where
  "null_session_response = (InternalServerError, OObject [(''message'', OText (str ''session_ptr is nullptr''))])"

section \<open>The example service\<close>

definition kInsertQuery :: RawBuffer where
  "kInsertQuery = str ''insert into benchmark_ks.my_table (id, name) values (?, ?)''"

definition kSelectByIdQuery :: RawBuffer where
  "kSelectByIdQuery = str ''select id, name from benchmark_ks.my_table where id = ? ALLOW FILTERING''"

definition kSelectLimitQuery :: RawBuffer where
  "kSelectLimitQuery = str ''select id, name from benchmark_ks.my_table LIMIT ?''"

definition kTruncQuery :: RawBuffer where
  "kTruncQuery = str ''TRUNCATE TABLE benchmark_ks.my_table''"

record MyRow =
  row_id :: "32 word"
  row_name :: RawBuffer

definition MyRow_types :: "cell_type list" where
  "MyRow_types = [TInt, TString]"

text \<open>The struct that an extraction at \<open>MyRow_types\<close> fills.\<close>

definition MyRow_of :: "cell_value list \<Rightarrow> MyRow" where
  "MyRow_of vs = (case vs of [VInt i, VString n] \<Rightarrow> \<lparr>row_id = i, row_name = n\<rparr> | _ \<Rightarrow> \<lparr>row_id = 0, row_name = []\<rparr>)"

definition MyRow_Parse :: "'v request_json \<Rightarrow> 'v \<Rightarrow> MyRow res" where
  "MyRow_Parse J row =
     res_bind (rj_int J row ''id'') (\<lambda>i.
     res_bind (rj_string J row ''name'') (\<lambda>n. Inr \<lparr>row_id = i, row_name = n\<rparr>))"

definition MyRow_Serialize :: "MyRow \<Rightarrow> out_json" where
  "MyRow_Serialize row = OObject [(''id'', OInt (sint (row_id row))), (''name'', OText (row_name row))]"

definition Cassandra_HandleRequest :: "'c conn_ops \<Rightarrow> 'k lru_lib \<Rightarrow> 'v request_json \<Rightarrow> 'v \<Rightarrow> ('c, 'k, response) handler_io" where
  "Cassandra_HandleRequest ops K J request_json st =
     (if st \<noteq> None
      then io_bind (io_lift (rj_int J request_json ''id'')) (\<lambda>i.
           io_bind (io_lift (rj_string J request_json ''name'')) (\<lambda>name.
           io_bind (via_session (Session_Execute_plain ops K kLocalOne kInsertQuery [VInt i, VString name])) (\<lambda>result.
           io_bind (via_session (Session_Execute_plain ops K kLocalOne kSelectByIdQuery [VInt i])) (\<lambda>select_result.
           io_bind (io_lift (RowsAffected select_result)) (\<lambda>rows.
           if rows = 0 then io_ret (NotFound, ONull)
           else io_bind (io_lift (AsSingleRow_Row MyRow_types select_result)) (\<lambda>row.
                io_ret (HttpOk, MyRow_Serialize (MyRow_of row)))))))) st
      else (Inr null_session_response, st))"

text \<open>The handler for batches.\<close>

fun parse_rows :: "'v request_json \<Rightarrow> 'v list \<Rightarrow> MyRow list res" where
  "parse_rows J [] = Inr []"
| "parse_rows J (v # vs) = res_bind (MyRow_Parse J v) (\<lambda>r. res_bind (parse_rows J vs) (\<lambda>rs. Inr (r # rs)))"

fun add_rows :: "MyRow list \<Rightarrow> BatchQueryStore \<Rightarrow> BatchQueryStore res" where
  "add_rows [] store = Inr store"
| "add_rows (r # rs) store =
     res_bind (AddQuery kInsertQuery [VInt (row_id r), VString (row_name r)] store) (add_rows rs)"

definition CassandraBatch_HandleRequest :: "'c conn_ops \<Rightarrow> 'k lru_lib \<Rightarrow> 'v request_json \<Rightarrow> 'v \<Rightarrow> ('c, 'k, response) handler_io" where
  "CassandraBatch_HandleRequest ops K J request_json st =
     (if st \<noteq> None
      then io_bind (via_session (Session_Execute_plain ops K kLocalOne kTruncQuery [])) (\<lambda>_.
           io_bind (io_lift (res_bind (rj_array J request_json ''data'') (parse_rows J))) (\<lambda>data.
           io_bind (io_lift (add_rows data (mk_BatchQueryStore kLocalOne))) (\<lambda>batch_store.
           io_bind (via_session (Session_BatchExecute ops K batch_store)) (\<lambda>batch_result.
           io_bind (via_session (Session_Execute_plain ops K kLocalOne kSelectLimitQuery
               [VInt (word_of_nat (length data))])) (\<lambda>select_result.
           io_bind (io_lift (AsContainer MyRow_types select_result)) (\<lambda>rows.
             io_ret (HttpOk, OArray (map (\<lambda>row. MyRow_Serialize (MyRow_of row)) rows)))))))) st
      else (Inr null_session_response, st))"

section \<open>The bench service\<close>

definition bench_control :: CommandControl where
  "bench_control = mk_CommandControl 10000 10000 kDisabled"

fun bench_inserts :: "'c conn_ops \<Rightarrow> 'k lru_lib \<Rightarrow> RawBuffer \<Rightarrow> nat list \<Rightarrow> ('c, 'k, unit) handler_io" where
  "bench_inserts ops K data [] st = (Inr (), st)"
| "bench_inserts ops K data (i # is) st =
     io_bind (via_session (Session_Execute_ctl ops K kLocalOne bench_control kInsertQuery [VInt (word_of_nat i), VString data]))
       (\<lambda>_. bench_inserts ops K data is) st"

text \<open>\<open>elapsed\<close> gives the milliseconds the clock measures in each turn; \<open>vector<int>\<close> keeps 32 bits of them.\<close>

fun bench_turns :: "'c conn_ops \<Rightarrow> 'k lru_lib \<Rightarrow> (nat \<Rightarrow> int) \<Rightarrow> RawBuffer \<Rightarrow> nat \<Rightarrow> nat list \<Rightarrow> ('c, 'k, (32 word) list) handler_io" where
  "bench_turns ops K elapsed data loops [] st = (Inr [], st)"
| "bench_turns ops K elapsed data loops (turn # turns) st =
     io_bind (via_session (Session_Execute_plain ops K kLocalOne kTruncQuery [])) (\<lambda>_.
     io_bind (bench_inserts ops K data [0..<loops]) (\<lambda>_.
     io_bind (bench_turns ops K elapsed data loops turns) (\<lambda>results.
       io_ret (word_of_int (elapsed turn) # results)))) st"

definition Bench_HandleRequest :: "'c conn_ops \<Rightarrow> 'k lru_lib \<Rightarrow> (nat \<Rightarrow> int) \<Rightarrow> 'v request_json \<Rightarrow> 'v \<Rightarrow> ('c, 'k, response) handler_io" where
  "Bench_HandleRequest ops K elapsed J request_json st =
     (if st \<noteq> None
      then io_bind (io_lift (rj_int J request_json ''turnCount'')) (\<lambda>turn_count.
           io_bind (io_lift (rj_int J request_json ''loopCount'')) (\<lambda>loops.
           io_bind (bench_turns ops K elapsed (str ''name'') (nat (sint loops)) [0..<nat (sint turn_count)]) (\<lambda>results.
             io_ret (HttpOk, OObject [(''durations'', OArray (map (\<lambda>r. OInt (sint r)) results))])))) st
      else (Inr null_session_response, st))"

section \<open>The table\<close>

text \<open>
  What the statements of the samples do to the table of a database: \<open>rows\<close> lists it, one row per key, in the
  order in which the database returns them.
\<close>

definition table_result :: "(32 word \<times> RawBuffer) list \<Rightarrow> ResultSet" where
  "table_result rs = Some \<lparr>rows_content = map (\<lambda>(i, n). [enc_int i, n]) rs, columns_count = 2, rows_count = word_of_nat (length rs)\<rparr>"

abbreviation row_pair :: "MyRow \<Rightarrow> 32 word \<times> RawBuffer" where
  "row_pair r \<equiv> (row_id r, row_name r)"

definition row_query :: "MyRow \<Rightarrow> BatchQuery" where
  "row_query r = \<lparr>bq_query = kInsertQuery, bq_params = [enc_int (row_id r), row_name r]\<rparr>"

definition table_contract :: "(RawBuffer \<Rightarrow> RawBuffer list \<Rightarrow> 'd \<Rightarrow> ResultSet \<times> 'd) \<Rightarrow>
    (BatchQuery list \<Rightarrow> 'd \<Rightarrow> 'd) \<Rightarrow> ('d \<Rightarrow> (32 word \<times> RawBuffer) list) \<Rightarrow> bool" where
  "table_contract run run_batch rows \<longleftrightarrow>
     (\<forall>d. distinct (map fst (rows d))) \<and>
     (\<forall>d i n. map_of (rows (snd (run kInsertQuery [enc_int i, n] d))) = (map_of (rows d))(i \<mapsto> n)) \<and>
     (\<forall>d data. distinct (map row_id data) \<longrightarrow>
       map_of (rows (run_batch (map row_query data) d)) = map_of (map row_pair data @ rows d)) \<and>
     (\<forall>d. rows (snd (run kTruncQuery [] d)) = []) \<and>
     (\<forall>d i. run kSelectByIdQuery [enc_int i] d = (table_result (filter (\<lambda>r. fst r = i) (rows d)), d)) \<and>
     (\<forall>d. \<forall>n :: 32 word. 0 < sint n \<longrightarrow> run kSelectLimitQuery [enc_int n] d = (table_result (take (nat (sint n)) (rows d)), d))"

lemma table_contractD:
  assumes "table_contract run run_batch rows"
  shows "distinct (map fst (rows d))" "map_of (rows (snd (run kInsertQuery [enc_int i, n] d))) = (map_of (rows d))(i \<mapsto> n)"
    "rows (snd (run kTruncQuery [] d)) = []"
    "run kSelectByIdQuery [enc_int i] d = (table_result (filter (\<lambda>r. fst r = i) (rows d)), d)"
    "distinct (map row_id data) \<Longrightarrow> map_of (rows (run_batch (map row_query data) d)) = map_of (map row_pair data @ rows d)"
    "0 < sint (k :: 32 word) \<Longrightarrow> run kSelectLimitQuery [enc_int k] d = (table_result (take (nat (sint k)) (rows d)), d)"
  using assms unfolding table_contract_def by blast+

lemma table_values:
  "AsContainer MyRow_types (table_result rs) = Inr (map (\<lambda>(i, n). [VInt i, VString n]) rs)"
  "AsSingleRow_Row MyRow_types (table_result ((i, n) # rs)) = Inr [VInt i, VString n]"
proof -
  have table: "table_result rs = Some \<lparr>rows_content = map (\<lambda>vs. map enc_cell vs @ []) (map (\<lambda>(i, n). [VInt i, VString n]) rs),
      columns_count = word_of_nat (length MyRow_types + 0), rows_count = word_of_nat (length (map (\<lambda>(i, n). [VInt i, VString n]) rs))\<rparr>" for rs
    by (simp add: table_result_def MyRow_types_def case_prod_unfold)
  have types: "\<forall>vs \<in> set (map (\<lambda>(i, n). [VInt i, VString n]) rs). map cell_type_of vs = MyRow_types \<and> length ([] :: RawBuffer list) = 0"
    for rs by (auto simp: MyRow_types_def)
  have "length MyRow_types + 0 < 2 ^ 31" by (simp add: MyRow_types_def)
  note read_back = AsContainer_values [OF types this, folded table]
  show "AsContainer MyRow_types (table_result rs) = Inr (map (\<lambda>(i, n). [VInt i, VString n]) rs)" using read_back by blast
  show "AsSingleRow_Row MyRow_types (table_result ((i, n) # rs)) = Inr [VInt i, VString n]" using read_back [of "(i, n) # rs"] by simp
qed

lemma MyRow_of_values [simp]: "MyRow_of [VInt i, VString n] = \<lparr>row_id = i, row_name = n\<rparr>"
  by (simp add: MyRow_of_def)

section \<open>Handlers over a table\<close>

lemma filter_key: "distinct (map fst xs) \<Longrightarrow> map_of xs i = Some n \<Longrightarrow> filter (\<lambda>r. fst r = i) xs = [(i, n)]"
proof (induction xs)
  case (Cons x xs)
  have "filter (\<lambda>r. fst r = i) xs = []" if "fst x = i" using Cons.prems(1) that by (auto simp: filter_empty_conv image_iff)
  with Cons show ?case by (cases x) (auto split: if_splits)
qed simp

abbreviation server_ops :: "(RawBuffer \<Rightarrow> RawBuffer list \<Rightarrow> 'd \<Rightarrow> ResultSet \<times> 'd) \<Rightarrow> (BatchQuery list \<Rightarrow> 'd \<Rightarrow> 'd) \<Rightarrow> 'q queue_lib \<Rightarrow> ('d server_world \<Rightarrow> int) \<Rightarrow>
    ('q, 'd server_world) conn_state conn_ops" where
  "server_ops run run_batch Q now \<equiv> impl_ops (server_runtime run run_batch) Q now"

lemma insert_fits:
  "length n < 2 ^ 29 \<Longrightarrow> statement_fits (\<lambda>q i. i = q) kInsertQuery (map enc_cell [VInt i, VString n])"
  by (rule statement_fitsI) (simp_all add: kInsertQuery_def str_def)

lemma trunc_fits: "statement_fits (\<lambda>q i. i = q) kTruncQuery (map enc_cell [])"
  by (rule statement_fitsI) (simp_all add: kTruncQuery_def str_def)

lemma select_fits:
  "statement_fits (\<lambda>q i. i = q) kSelectByIdQuery (map enc_cell [VInt i])"
  "statement_fits (\<lambda>q i. i = q) kSelectLimitQuery (map enc_cell [VInt i])"
  by (rule statement_fitsI; simp add: kSelectByIdQuery_def kSelectLimitQuery_def str_def)+

lemma add_rows_eq: "add_rows data store = Inr (store\<lparr>store_queries := store_queries store @ map row_query data\<rparr>)"
  by (induction data arbitrary: store)
     (simp_all add: AddQuery_def mk_BatchQuery_def DynamicQueryParameters_Write_fresh row_query_def)

lemma rows_fit:
  assumes "length data < 2 ^ 16" "(\<Sum>r\<leftarrow>data. length (row_name r) + 100) < 2 ^ 30"
  shows "batch_fits (\<lambda>q i. i = q) (map row_query data)"
proof (rule batch_fitsI)
  have "(\<Sum>el\<leftarrow>map row_query data. length (bq_query el) + params_size (bq_params el) + 7) \<le> (\<Sum>r\<leftarrow>data. length (row_name r) + 100)"
    unfolding map_map by (rule sum_list_mono) (simp add: row_query_def kInsertQuery_def str_def)
  with assms(2) show "(\<Sum>el\<leftarrow>map row_query data. length (bq_query el) + params_size (bq_params el) + 7) < 2 ^ 30" by linarith
qed (use assms(1) in \<open>auto simp: row_query_def kInsertQuery_def str_def\<close>)

lemma distinct_keys_length:
  assumes "distinct (map fst xs)" "map_of xs = map_of ys"
  shows "length xs \<le> length ys"
proof -
  have "length xs = card (dom (map_of xs))" using distinct_card [OF assms(1)] by (simp add: dom_map_of_conv_image_fst)
  also have "\<dots> \<le> length ys" using card_length [of "map fst ys"] by (simp add: assms(2) dom_map_of_conv_image_fst)
  finally show ?thesis .
qed

text \<open>The keys a counter from 0 below \<open>n\<close> runs through.\<close>

lemma word_range: "i \<in> word_of_nat ` {0..<nat (sint n)} \<longleftrightarrow> 0 \<le> sint i \<and> sint i < sint n" for i n :: "32 word"
proof
  have n: "sint n < 2 ^ 31" using sint_lt [of n] by simp
  assume "i \<in> word_of_nat ` {0..<nat (sint n)}"
  then obtain k where k: "i = word_of_nat k" "int k < sint n" by auto
  with n show "0 \<le> sint i \<and> sint i < sint n" by (simp add: sint_int_of_nat)
next
  assume "0 \<le> sint i \<and> sint i < sint n"
  then have "i = word_of_nat (nat (sint i))" "nat (sint i) < nat (sint n)" by simp_all
  then show "i \<in> word_of_nat ` {0..<nat (sint n)}" by (metis atLeastLessThan_iff image_eqI zero_le)
qed

text \<open>
  What the handlers rely on: a queue of streams, a cache and a database that keep their contracts. Every
  statement of a handler then leaves a session that serves the new table.
\<close>

locale table_service =
  fixes Q :: "'q queue_lib" and content :: "'q \<Rightarrow> int multiset" and capacity :: "'q \<Rightarrow> nat"
    and K :: "'k lru_lib" and view :: "'k \<Rightarrow> RawBuffer \<rightharpoonup> RawBuffer"
    and run :: "RawBuffer \<Rightarrow> RawBuffer list \<Rightarrow> 'd \<Rightarrow> ResultSet \<times> 'd" and run_batch :: "BatchQuery list \<Rightarrow> 'd \<Rightarrow> 'd"
    and rows :: "'d \<Rightarrow> (32 word \<times> RawBuffer) list"
  assumes queue: "queue_contract Q content capacity" and cache: "lru_contract K view" and table: "table_contract run run_batch rows"
begin

lemma via_execute:
  assumes "server_session Q view d s" "statement_fits (\<lambda>q i. i = q) q (map enc_cell args)"
  shows "\<exists>s'. via_session (Session_Execute (server_ops run run_batch Q now) K l ctl q args) (Some s) =
      (Inr (fst (run q (map enc_cell args) d)), Some s') \<and> server_session Q view (snd (run q (map enc_cell args) d)) s'"
  using database_connection.session_execute [OF server_database [OF queue] cache assms, of run run_batch now l ctl]
  by (auto simp: via_session_def)

lemma via_insert:
  assumes "server_session Q view d s" "length n < 2 ^ 29"
  shows "\<exists>r s' d'. via_session (Session_Execute (server_ops run run_batch Q now) K l ctl kInsertQuery [VInt i, VString n]) (Some s) = (Inr r, Some s') \<and>
    server_session Q view d' s' \<and> map_of (rows d') = (map_of (rows d))(i \<mapsto> n)"
  using via_execute [OF assms(1) insert_fits [OF assms(2)], of now l ctl i] table_contractD(2) [OF table, of i n d] by fastforce

lemma via_trunc:
  assumes "server_session Q view d s"
  shows "\<exists>r s' d'. via_session (Session_Execute (server_ops run run_batch Q now) K l ctl kTruncQuery []) (Some s) = (Inr r, Some s') \<and>
    server_session Q view d' s' \<and> rows d' = []"
  using via_execute [OF assms trunc_fits, of now l ctl] table_contractD(3) [OF table, of d] by fastforce

lemma insert_select:
  assumes s: "server_session Q view d s" and "rj_int J v ''id'' = Inr i"
    and "rj_string J v ''name'' = Inr n" "length n < 2 ^ 29"
  shows "\<exists>s' d'. Cassandra_HandleRequest (server_ops run run_batch Q now) K J v (Some s) =
      (Inr (HttpOk, OObject [(''id'', OInt (sint i)), (''name'', OText n)]), Some s') \<and>
    server_session Q view d' s' \<and> map_of (rows d') = (map_of (rows d))(i \<mapsto> n)"
proof -
  obtain r s1 d1 where ins: "via_session (Session_Execute_plain (server_ops run run_batch Q now) K kLocalOne kInsertQuery [VInt i, VString n]) (Some s) = (Inr r, Some s1)"
    and s1: "server_session Q view d1 s1" "map_of (rows d1) = (map_of (rows d))(i \<mapsto> n)"
    using via_insert [OF s assms(4)] unfolding Session_Execute_plain_def by blast
  have "filter (\<lambda>r. fst r = i) (rows d1) = [(i, n)]"
    using s1(2) table_contractD(1) [OF table, of d1] by (intro filter_key) simp_all
  then have sel: "run kSelectByIdQuery (map enc_cell [VInt i]) d1 = (table_result [(i, n)], d1)"
    using table_contractD(4) [OF table, of i d1] by simp
  obtain s2 where "via_session (Session_Execute_plain (server_ops run run_batch Q now) K kLocalOne kSelectByIdQuery [VInt i]) (Some s1) =
      (Inr (table_result [(i, n)]), Some s2)" "server_session Q view d1 s2"
    using via_execute [OF s1(1) select_fits(1)] sel unfolding Session_Execute_plain_def by (metis fst_conv snd_conv)
  then show ?thesis using ins assms(2,3) s1(2) table_values(2) [of i n "[]"]
    by (auto simp: Cassandra_HandleRequest_def io_bind_def io_simps RowsAffected_def table_result_def MyRow_Serialize_def)
qed

lemma batch_replaces:
  assumes s: "server_session Q view d s"
  shows "case res_bind (rj_array J v ''data'') (parse_rows J) of
      Inl f \<Rightarrow> \<exists>s' d'. CassandraBatch_HandleRequest (server_ops run run_batch Q now) K J v (Some s) = (Inl f, Some s') \<and>
        server_session Q view d' s' \<and> rows d' = []
    | Inr data \<Rightarrow> data \<noteq> [] \<longrightarrow> distinct (map row_id data) \<longrightarrow> length data < 2 ^ 16 \<longrightarrow> (\<Sum>r\<leftarrow>data. length (row_name r) + 100) < 2 ^ 30 \<longrightarrow>
        (\<exists>s' d'. CassandraBatch_HandleRequest (server_ops run run_batch Q now) K J v (Some s) =
            (Inr (HttpOk, OArray (map (\<lambda>(i, n). OObject [(''id'', OInt (sint i)), (''name'', OText n)]) (rows d'))), Some s') \<and>
          server_session Q view d' s' \<and> map_of (rows d') = map_of (map row_pair data))"
proof -
  obtain r s1 d1 where trunc: "via_session (Session_Execute_plain (server_ops run run_batch Q now) K kLocalOne kTruncQuery []) (Some s) = (Inr r, Some s1)"
    and s1: "server_session Q view d1 s1" "rows d1 = []"
    using via_trunc [OF s] unfolding Session_Execute_plain_def by blast
  show ?thesis
  proof (cases "res_bind (rj_array J v ''data'') (parse_rows J)")
    case (Inl f)
    with trunc s1 show ?thesis by (auto simp: CassandraBatch_HandleRequest_def io_bind_def io_simps)
  next
    case (Inr data)
    have "\<exists>s' d'. CassandraBatch_HandleRequest (server_ops run run_batch Q now) K J v (Some s) =
            (Inr (HttpOk, OArray (map (\<lambda>(i, n). OObject [(''id'', OInt (sint i)), (''name'', OText n)]) (rows d'))), Some s') \<and>
          server_session Q view d' s' \<and> map_of (rows d') = map_of (map row_pair data)"
      if data: "data \<noteq> []" "distinct (map row_id data)" "length data < 2 ^ 16" "(\<Sum>r\<leftarrow>data. length (row_name r) + 100) < 2 ^ 30"
    proof -
      define store where "store = \<lparr>store_consistency = kLocalOne, store_queries = map row_query data\<rparr>"
      define d2 where "d2 = run_batch (map row_query data) d1"
      have fits: "batch_fits (\<lambda>q i. i = q) (store_queries store)" using rows_fit [OF data(3,4)] by (simp add: store_def)
      obtain rs s2 where batch: "via_session (Session_BatchExecute (server_ops run run_batch Q now) K store) (Some s1) = (Inr rs, Some s2)"
        and s2: "server_session Q view d2 s2"
        using database_connection.session_batch [OF server_database [OF queue] cache s1(1) fits, of run run_batch now]
        by (auto simp: via_session_def store_def d2_def)
      have d2: "map_of (rows d2) = map_of (map row_pair data)" using table_contractD(5) [OF table data(2), of d1] s1(2) by (simp add: d2_def)
      have n: "sint (word_of_nat (length data) :: 32 word) = int (length data)"
        using data(3) by (simp add: sint_int_of_nat)
      have "length (rows d2) \<le> length data"
        using distinct_keys_length [OF table_contractD(1) [OF table] d2] by simp
      then have "run kSelectLimitQuery (map enc_cell [VInt (word_of_nat (length data))]) d2 = (table_result (rows d2), d2)"
        using table_contractD(6) [OF table, of "word_of_nat (length data)" d2] data(1) n by simp
      then obtain s3 where sel: "via_session (Session_Execute_plain (server_ops run run_batch Q now) K kLocalOne kSelectLimitQuery
          [VInt (word_of_nat (length data))]) (Some s2) = (Inr (table_result (rows d2)), Some s3)" and s3: "server_session Q view d2 s3"
        using via_execute [OF s2 select_fits(2)] unfolding Session_Execute_plain_def by (metis fst_conv snd_conv)
      have add: "add_rows data (mk_BatchQueryStore kLocalOne) = Inr store" by (simp add: add_rows_eq mk_BatchQueryStore_def store_def)
      show ?thesis
        using trunc Inr add batch sel s3 d2 table_values(1) [of "rows d2"]
        by (intro exI [of _ s3] exI [of _ d2])
           (simp add: CassandraBatch_HandleRequest_def io_bind_def io_simps MyRow_Serialize_def case_prod_unfold)
    qed
    with Inr show ?thesis by simp
  qed
qed

lemma bench_inserts_rows:
  assumes "server_session Q view d s" "length data < 2 ^ 29"
  shows "\<exists>s' d'. bench_inserts (server_ops run run_batch Q now) K data is (Some s) = (Inr (), Some s') \<and> server_session Q view d' s' \<and>
    map_of (rows d') = (\<lambda>i. if i \<in> word_of_nat ` set is then Some data else map_of (rows d) i)"
  using assms(1)
proof (induction "is" arbitrary: s d)
  case (Cons i "is")
  obtain r s1 d1 where ins: "via_session (Session_Execute_ctl (server_ops run run_batch Q now) K kLocalOne bench_control kInsertQuery
      [VInt (word_of_nat i), VString data]) (Some s) = (Inr r, Some s1)"
    and s1: "server_session Q view d1 s1" "map_of (rows d1) = (map_of (rows d))(word_of_nat i \<mapsto> data)"
    using via_insert [OF Cons.prems assms(2)] unfolding Session_Execute_ctl_def by blast
  obtain s' d' where "bench_inserts (server_ops run run_batch Q now) K data is (Some s1) = (Inr (), Some s')" "server_session Q view d' s'"
    "map_of (rows d') = (\<lambda>i. if i \<in> word_of_nat ` set is then Some data else map_of (rows d1) i)" using Cons.IH [OF s1(1)] by blast
  with ins s1(2) show ?case by (intro exI [of _ s'] exI [of _ d']) (auto simp: io_bind_def)
qed auto

lemma bench_turns_rows:
  assumes "server_session Q view d s" "length data < 2 ^ 29"
  shows "\<exists>s' d'. bench_turns (server_ops run run_batch Q now) K elapsed data n turns (Some s) =
      (Inr (map (\<lambda>i. word_of_int (elapsed i)) turns), Some s') \<and> server_session Q view d' s' \<and>
    map_of (rows d') = (if turns = [] then map_of (rows d) else (\<lambda>i. if i \<in> word_of_nat ` {0..<n} then Some data else None))"
  using assms(1)
proof (induction turns arbitrary: s d)
  case (Cons turn turns)
  obtain r s1 d1 where trunc: "via_session (Session_Execute_plain (server_ops run run_batch Q now) K kLocalOne kTruncQuery []) (Some s) = (Inr r, Some s1)"
    and s1: "server_session Q view d1 s1" "rows d1 = []"
    using via_trunc [OF Cons.prems] unfolding Session_Execute_plain_def by blast
  obtain s2 d2 where inserts: "bench_inserts (server_ops run run_batch Q now) K data [0..<n] (Some s1) = (Inr (), Some s2)"
    and s2: "server_session Q view d2 s2" "map_of (rows d2) = (\<lambda>i. if i \<in> word_of_nat ` {0..<n} then Some data else None)"
    using bench_inserts_rows [OF s1(1) assms(2), of now "[0..<n]"] unfolding s1(2) map_of.simps set_upt by blast
  obtain s3 d3 where "bench_turns (server_ops run run_batch Q now) K elapsed data n turns (Some s2) =
      (Inr (map (\<lambda>i. word_of_int (elapsed i)) turns), Some s3)" "server_session Q view d3 s3"
    "map_of (rows d3) = (if turns = [] then map_of (rows d2) else (\<lambda>i. if i \<in> word_of_nat ` {0..<n} then Some data else None))"
    using Cons.IH [OF s2(1)] by blast
  with trunc inserts s2(2) show ?case by (intro exI [of _ s3] exI [of _ d3]) (simp add: io_bind_def io_simps)
qed auto

lemma bench_fills:
  assumes s: "server_session Q view d s" and "rj_int J v ''turnCount'' = Inr t"
    and "rj_int J v ''loopCount'' = Inr n" and "0 < sint t"
  shows "\<exists>s' d'. Bench_HandleRequest (server_ops run run_batch Q now) K elapsed J v (Some s) =
      (Inr (HttpOk, OObject [(''durations'', OArray (map (\<lambda>i. OInt (sint (word_of_int (elapsed i) :: 32 word))) [0..<nat (sint t)]))]), Some s') \<and>
    server_session Q view d' s' \<and> map_of (rows d') = (\<lambda>i. if 0 \<le> sint i \<and> sint i < sint n then Some (str ''name'') else None)"
proof -
  have "length (str ''name'') < 2 ^ 29" by (simp add: str_def)
  from bench_turns_rows [OF s this, of now elapsed "nat (sint n)" "[0..<nat (sint t)]"] assms(4)
  obtain s' d' where "bench_turns (server_ops run run_batch Q now) K elapsed (str ''name'') (nat (sint n)) [0..<nat (sint t)] (Some s) =
      (Inr (map (\<lambda>i. word_of_int (elapsed i)) [0..<nat (sint t)]), Some s')" "server_session Q view d' s'"
    "map_of (rows d') = (\<lambda>i. if i \<in> word_of_nat ` {0..<nat (sint n)} then Some (str ''name'') else None)" by auto
  with assms(2,3) show ?thesis unfolding word_range
    by (intro exI [of _ s'] exI [of _ d']) (simp add: Bench_HandleRequest_def io_bind_def io_simps)
qed

end

section \<open>An instance\<close>

text \<open>A database that keeps the table as an association list, and JSON values with what the handlers read of them.\<close>

abbreviation key_of :: "RawBuffer \<Rightarrow> 32 word" where
  "key_of c \<equiv> word_of_nat (be_dec c)"

type_synonym table = "(32 word \<times> RawBuffer) list"

fun table_run :: "RawBuffer \<Rightarrow> RawBuffer list \<Rightarrow> table \<Rightarrow> ResultSet \<times> table" where
  "table_run q [i, n] d = (None, if q = kInsertQuery then (key_of i, n) # d else d)"
| "table_run q [i] d =
     (if q = kSelectByIdQuery then (table_result (filter (\<lambda>r. fst r = key_of i) (AList.clearjunk d)), d)
      else if q = kSelectLimitQuery then (table_result (take (nat (sint (key_of i))) (AList.clearjunk d)), d)
      else (None, d))"
| "table_run q ps d = (None, if q = kTruncQuery then [] else d)"

definition table_batch :: "BatchQuery list \<Rightarrow> table \<Rightarrow> table" where
  "table_batch = fold (\<lambda>el d. snd (table_run (bq_query el) (bq_params el) d))"

lemma key_of_enc [simp]: "key_of (enc_int i) = i"
  by (rule be_word_roundtrip) simp

lemma table_batch_rows: "table_batch (map row_query data) d = rev (map row_pair data) @ d"
  by (induction data arbitrary: d) (simp_all add: table_batch_def row_query_def)

lemma map_of_rev_keys: "distinct (map fst xs) \<Longrightarrow> map_of (rev xs) = map_of xs"
  using map_of_inject_set [of "rev xs" xs] by (simp add: rev_map [symmetric])

lemma table_database: "table_contract table_run table_batch AList.clearjunk"
proof -
  have "map_of (rev (map row_pair data)) = map_of (map row_pair data)" if "distinct (map row_id data)" for data
    using that by (intro map_of_rev_keys) (simp add: comp_def)
  moreover have "kSelectLimitQuery \<noteq> kSelectByIdQuery" by (simp add: kSelectByIdQuery_def kSelectLimitQuery_def str_def)
  ultimately show ?thesis by (simp add: table_contract_def map_of_clearjunk table_batch_rows AList.delete_conv')
qed

interpretation table: table_service list_queue "\<lambda>(xs, n). mset xs" snd map_cache "\<lambda>m. m" table_run table_batch AList.clearjunk
  by (rule table_service.intro) (rule list_queue_contract map_cache_contract table_database)+

definition request_values :: "out_json request_json" where
  "request_values = \<lparr>
     rj_member = (\<lambda>v k. case v of OObject kvs \<Rightarrow> Inr (case map_of kvs k of Some w \<Rightarrow> w | None \<Rightarrow> ONull)
       | _ \<Rightarrow> Inl (Throw (std_runtime_error ''type''))),
     rj_As_int = (\<lambda>v. case v of OInt z \<Rightarrow> if - (2 ^ 31) \<le> z \<and> z < 2 ^ 31 then Inr (word_of_int z) else Inl (Throw (std_runtime_error ''range''))
       | _ \<Rightarrow> Inl (Throw (std_runtime_error ''type''))),
     rj_As_string = (\<lambda>v. case v of OText t \<Rightarrow> Inr t | _ \<Rightarrow> Inl (Throw (std_runtime_error ''type''))),
     rj_elements = (\<lambda>v. case v of OArray vs \<Rightarrow> Inr vs | _ \<Rightarrow> Inl (Throw (std_runtime_error ''type'')))\<rparr>"

lemma request_values_simps [simp]:
  "rj_member request_values (OObject kvs) k = Inr (case map_of kvs k of Some w \<Rightarrow> w | None \<Rightarrow> ONull)"
  "rj_As_int request_values (OInt z) = (if - (2 ^ 31) \<le> z \<and> z < 2 ^ 31 then Inr (word_of_int z) else Inl (Throw (std_runtime_error ''range'')))"
  "rj_As_string request_values (OText x) = Inr x"
  "rj_elements request_values (OArray vs) = Inr vs"
  "rj_elements request_values (OText x) = Inl (Throw (std_runtime_error ''type''))"
  by (simp_all add: request_values_def)

section \<open>Properties\<close>





text \<open>C34: The handler of the bench service reports one duration per turn, each the measured milliseconds reduced to an
  \<open>int\<close>, and after at least one turn the table holds exactly the ids from 0 below the loop count, each with the
  name the benchmark writes; with a loop count that is not positive it is empty.\<close>

theorem bench_fills_table:
  assumes "queue_contract Q content capacity" "lru_contract K view" "table_contract run run_batch rows" "server_session Q view d s"
    and "rj_int J v ''turnCount'' = Inr t" "rj_int J v ''loopCount'' = Inr n" "0 < sint t"
  shows "\<exists>s' d'. Bench_HandleRequest (server_ops run run_batch Q now) K elapsed J v (Some s) =
      (Inr (HttpOk, OObject [(''durations'', OArray (map (\<lambda>i. OInt (sint (word_of_int (elapsed i) :: 32 word))) [0..<nat (sint t)]))]), Some s') \<and>
    server_session Q view d' s' \<and> map_of (rows d') = (\<lambda>i. if 0 \<le> sint i \<and> sint i < sint n then Some (str ''name'') else None)"
  by (rule table_service.bench_fills [OF table_service.intro [OF assms(1-3)] assms(4-7)])

theorem bench_fills_table_witness:
  "\<exists>s' d'. Bench_HandleRequest (server_ops table_run table_batch list_queue (\<lambda>_. 0)) map_cache (\<lambda>i. int i + 9) request_values
      (OObject [(''turnCount'', OInt 2), (''loopCount'', OInt 100)]) (Some (db_session [(- 5, str ''Bob'')])) =
      (Inr (HttpOk, OObject [(''durations'', OArray [OInt 9, OInt 10])]), Some s') \<and>
    server_session list_queue (\<lambda>m. m) d' s' \<and>
    map_of (AList.clearjunk d') = (\<lambda>i. if 0 \<le> sint i \<and> sint i < 100 then Some (str ''name'') else None)"
  using bench_fills_table [OF list_queue_contract map_cache_contract table_database db_session_serves,
      where J = request_values and v = "OObject [(''turnCount'', OInt 2), (''loopCount'', OInt 100)]" and t = 2 and n = 100
      and d = "[(- 5, str ''Bob'')]" and now = "\<lambda>_. 0" and elapsed = "\<lambda>i. int i + 9"]
  by (simp add: upt_rec rj_int_def)

end
