(* ===== verification/Cql_Multiplex.thy ===== *)
theory Cql_Multiplex
  imports Cql_Connection
begin

text \<open>
  Many requests on one connection. \<open>ExecuteMessageAsync\<close> is taken apart into what happens before the frame
  is sent, the send, and what happens when the answer is there; requests, the server and the receiver
  task take these steps in any order.
\<close>

section \<open>The parts of a request\<close>

definition request_acquire :: "'q queue_lib \<Rightarrow> (('q, 'w) conn_state, int) io" where
  "request_acquire Q s =
     (case StreamPool_Acquire Q (conn_stream_pool (fst s)) of
        Inl f \<Rightarrow> (Inl f, s)
      | Inr (stream_id, q) \<Rightarrow> (Inr stream_id, ((fst s)\<lparr>conn_stream_pool := q\<rparr>, snd s)))"

definition request_send :: "('addr, 'w) userver \<Rightarrow> RequestMessage \<Rightarrow> int \<Rightarrow> deadline \<Rightarrow> (('q, 'w) conn_state, unit) io" where
  "request_send E message stream_id deadline s =
     (case SendMessage E (conn_compressor (fst s))
         (message\<lparr>req_header := Message_SetStreamId stream_id (req_header message)\<rparr>) deadline s of
        (Inl (UB u), s) \<Rightarrow> (Inl (UB u), s)
      | (_, s) \<Rightarrow> (Inr (), s))"

definition request_end :: "('addr, 'w) userver \<Rightarrow> 'q queue_lib \<Rightarrow> int \<Rightarrow> deadline \<Rightarrow> (('q, 'w) conn_state, ResponseMessage) io" where
  "request_end E Q stream_id deadline s =
     (case wait_response E stream_id deadline s of (r, s) \<Rightarrow> (r, StreamGuard_release Q stream_id s))"

lemma ExecuteMessageAsync_parts:
  "ExecuteMessageAsync E Q message deadline =
     io_bind (request_acquire Q) (\<lambda>i. io_bind (request_send E message i deadline) (\<lambda>_. request_end E Q i deadline))"
  by (rule ext)
     (auto simp: ExecuteMessageAsync_def request_acquire_def request_send_def request_end_def io_bind_def Let_def
       split: sum.split prod.split fault.split)

section \<open>Interleaving\<close>

text \<open>
  The state: the connection and its world, the requests that have a stream but are not sent, those that
  are sent but not answered, the answers on their way (with their bytes) and the answers that wait in
  the queue of their stream. A request is the number of its stream and its body. The lists are ghost state:
  the program has only the connection and the world.
\<close>

record ('q, 'w) mux =
  mux_conn :: "'q ConnectionImpl"
  mux_world :: 'w
  mux_unsent :: "(int \<times> RequestBody) list"
  mux_unanswered :: "(int \<times> RequestBody) list"
  mux_flight :: "(int \<times> RequestBody \<times> ResponseMessage \<times> RawBuffer) list"
  mux_arrived :: "(int \<times> RequestBody \<times> ResponseMessage) list"

abbreviation flight_key :: "int \<times> RequestBody \<times> ResponseMessage \<times> RawBuffer \<Rightarrow> int \<times> RequestBody" where
  "flight_key x \<equiv> (fst x, fst (snd x))"

abbreviation arrived_key :: "int \<times> RequestBody \<times> ResponseMessage \<Rightarrow> int \<times> RequestBody" where
  "arrived_key x \<equiv> (fst x, fst (snd x))"

definition mux_running :: "('q, 'w) mux \<Rightarrow> (int \<times> RequestBody) list" where
  "mux_running s = mux_unsent s @ mux_unanswered s @ map flight_key (mux_flight s) @ map arrived_key (mux_arrived s)"

text \<open>
  A frame that answers request \<open>b\<close> on stream \<open>i\<close> with the message \<open>m\<close>: it has the number of the stream, an
  opcode of a response, and a body that parses; \<open>answers\<close> says what the server may answer.
\<close>

definition answer_frame :: "(RequestBody \<Rightarrow> ResponseMessage \<Rightarrow> bool) \<Rightarrow> lz4_lib option \<Rightarrow> int \<Rightarrow> RequestBody \<Rightarrow>
    ResponseMessage \<Rightarrow> RawBuffer \<Rightarrow> bool" where
  "answer_frame answers compressor i b m bytes \<longleftrightarrow> answers b m \<and> Message_GetStreamId (rsp_header m) = i \<and>
     (\<exists>payload cl. bytes = enc_header (rsp_header m) @ payload \<and> hdr_length (rsp_header m) = word_of_nat (length payload) \<and>
        length payload < 2 ^ 31 \<and> GetResponseMessageFromHeader (rsp_header m) = Inr cl \<and>
        ParseBody compressor cl payload = Inr (rsp_body m))"

definition request_message :: "int \<Rightarrow> RequestBody \<Rightarrow> RequestMessage" where
  "request_message i b = (mk_RequestMessage b)\<lparr>req_header := Message_SetStreamId i (req_header (mk_RequestMessage b))\<rparr>"

inductive mux_step :: "('addr, 'w) userver \<Rightarrow> 'q queue_lib \<Rightarrow> ('w \<Rightarrow> RawBuffer) \<Rightarrow> ('w \<Rightarrow> nat \<rightharpoonup> ResponseMessage) \<Rightarrow>
    (RequestBody \<Rightarrow> ResponseMessage \<Rightarrow> bool) \<Rightarrow> ('q, 'w) mux \<Rightarrow> ('q, 'w) mux \<Rightarrow> bool"
  for E Q rx mail answers where
  acquire: "request_acquire Q (mux_conn s, mux_world s) = (Inr i, (c', w')) \<Longrightarrow>
    mux_step E Q rx mail answers s (s\<lparr>mux_conn := c', mux_world := w', mux_unsent := (i, b) # mux_unsent s\<rparr>)"
| send: "(i, b) \<in> set (mux_unsent s) \<Longrightarrow>
    RequestMessage_Serialize (conn_compressor (mux_conn s)) (request_message i b) [] = Inr frame \<Longrightarrow>
    request_send E (mk_RequestMessage b) i d (mux_conn s, mux_world s) = (Inr (), (c', w')) \<Longrightarrow>
    mux_step E Q rx mail answers s (s\<lparr>mux_conn := c', mux_world := w', mux_unsent := remove1 (i, b) (mux_unsent s),
      mux_unanswered := (i, b) # mux_unanswered s\<rparr>)"
| answer: "(i, b) \<in> set (mux_unanswered s) \<Longrightarrow> answer_frame answers (conn_compressor (mux_conn s)) i b m bytes \<Longrightarrow>
    rx w' = rx (mux_world s) @ bytes \<Longrightarrow> mail w' = mail (mux_world s) \<Longrightarrow>
    mux_step E Q rx mail answers s (s\<lparr>mux_world := w', mux_unanswered := remove1 (i, b) (mux_unanswered s),
      mux_flight := mux_flight s @ [(i, b, m, bytes)]\<rparr>)"
| receive: "mux_flight s = (i, b, m, bytes) # rest \<Longrightarrow> ReceiverLoop_round E (mux_conn s, mux_world s) = (r, (c', w')) \<Longrightarrow>
    mux_step E Q rx mail answers s (s\<lparr>mux_conn := c', mux_world := w', mux_flight := rest, mux_arrived := (i, b, m) # mux_arrived s\<rparr>)"
| finish: "(i, b, m) \<in> set (mux_arrived s) \<Longrightarrow> request_end E Q i d (mux_conn s, mux_world s) = (r, (c', w')) \<Longrightarrow>
    mux_step E Q rx mail answers s (s\<lparr>mux_conn := c', mux_world := w', mux_arrived := remove1 (i, b, m) (mux_arrived s)\<rparr>)"

text \<open>A connection as the handshake leaves it: nothing is under way.\<close>

definition mux_init :: "'q queue_lib \<Rightarrow> ('w \<Rightarrow> RawBuffer) \<Rightarrow> ('w \<Rightarrow> nat \<rightharpoonup> ResponseMessage) \<Rightarrow> ('q, 'w) mux \<Rightarrow> bool" where
  "mux_init Q rx mail s \<longleftrightarrow> conn_stream_pool (mux_conn s) = StreamPool Q \<and> \<not> conn_broken (mux_conn s) \<and>
     rx (mux_world s) = [] \<and> mail (mux_world s) = Map.empty \<and> mux_running s = []"

inductive mux_reachable :: "('addr, 'w) userver \<Rightarrow> 'q queue_lib \<Rightarrow> ('w \<Rightarrow> RawBuffer) \<Rightarrow> ('w \<Rightarrow> nat \<rightharpoonup> ResponseMessage) \<Rightarrow>
    (RequestBody \<Rightarrow> ResponseMessage \<Rightarrow> bool) \<Rightarrow> ('q, 'w) mux \<Rightarrow> bool"
  for E Q rx mail answers where
  init: "mux_init Q rx mail s \<Longrightarrow> mux_reachable E Q rx mail answers s"
| step: "mux_reachable E Q rx mail answers s \<Longrightarrow> mux_step E Q rx mail answers s s' \<Longrightarrow> mux_reachable E Q rx mail answers s'"

section \<open>The runtime a connection needs\<close>

text \<open>
  A socket that works, a receiver task that is not cancelled, and a queue of capacity one per stream: a
  push into an empty queue succeeds, a pop from a full one gives its message, and from one that stays empty
  until the deadline it gives none. Sending and receiving leave
  the queues alone.
\<close>

locale multiplexed_runtime =
  fixes E :: "('addr, 'w) userver" and rx tx :: "'w \<Rightarrow> RawBuffer" and mail :: "'w \<Rightarrow> nat \<rightharpoonup> ResponseMessage"
  assumes socket: "socket_contract E rx tx"
    and recv_mail: "mail (snd (socket_RecvAll E n d w)) = mail w"
    and send_mail: "mail (snd (socket_SendAll E bs d w)) = mail w"
    and running: "task_ShouldCancel E w = (False, w)"
    and push: "mail w i = None \<Longrightarrow> \<exists>w'. message_Push E i m d w = (True, w') \<and> mail w' = (mail w)(i \<mapsto> m) \<and> rx w' = rx w"
    and pop: "mail w i = Some m \<Longrightarrow> \<exists>w'. message_Pop E i d w = (Some m, w') \<and> mail w' = (mail w)(i := None) \<and> rx w' = rx w"
    and pop_empty: "mail w i = None \<Longrightarrow> \<exists>w'. message_Pop E i d w = (None, w') \<and> mail w' = mail w \<and> rx w' = rx w"
begin

lemma send_world:
  assumes "request_send E message i d (c, w) = (r, (c', w'))"
  shows "c' = c \<and> rx w' = rx w \<and> mail w' = mail w"
proof -
  obtain v s1 where v: "SendMessage E (conn_compressor c)
      (message\<lparr>req_header := Message_SetStreamId i (req_header message)\<rparr>) d (c, w) = (v, s1)" by (rule prod.exhaust)
  then have "s1 = (c', w')" using assms by (auto simp: request_send_def split: sum.splits fault.splits)
  moreover have "fst s1 = c \<and> rx (snd s1) = rx w \<and> mail (snd s1) = mail w"
  proof (cases "RequestMessage_Serialize (conn_compressor c) (message\<lparr>req_header := Message_SetStreamId i (req_header message)\<rparr>) []")
    case (Inl f)
    with v show ?thesis by (auto simp: SendMessage_def io_bind_def io_simps)
  next
    case (Inr x)
    obtain m' frame where x: "x = (m', frame)" by fastforce
    obtain w2 where w2: "socket_SendAll E frame d w = (Inr (length frame), w2)" "rx w2 = rx w"
      using socket_send [OF socket] by blast
    have "mail w2 = mail w" using send_mail [of frame d w] w2(1) by simp
    with v Inr x w2 show ?thesis by (auto simp: SendMessage_def io_bind_def io_simps on_world_def)
  qed
  ultimately show ?thesis by auto
qed

lemma receive_world:
  assumes rx: "rx w = bytes @ rest" and a: "answer_frame answers (conn_compressor c) i b m bytes"
    and i: "0 \<le> i" "i < 1024" "mail w (nat i) = None"
  obtains w' where "ReceiverLoop_round E (c, w) = (Inr True, (c, w'))" "rx w' = rest" "mail w' = (mail w)(nat i \<mapsto> m)"
proof -
  obtain payload cl where p: "bytes = enc_header (rsp_header m) @ payload" "hdr_length (rsp_header m) = word_of_nat (length payload)"
    "length payload < 2 ^ 31" "GetResponseMessageFromHeader (rsp_header m) = Inr cl"
    "ParseBody (conn_compressor c) cl payload = Inr (rsp_body m)" "Message_GetStreamId (rsp_header m) = i"
    using a by (auto simp: answer_frame_def)
  have "rx w = enc_header (rsp_header m) @ payload @ rest" using rx p(1) by simp
  from ReadFrame_wire [OF socket this p(2,3,4)] obtain w1 where
    w1: "ReadFrame E None (conn_compressor c) (c, w) = (Inr m, (c, w1))" "rx w1 = rest"
    using p(5) by (metis res_bind_simps(2) ResponseMessage.surjective old.unit.exhaust)
  have "mail w1 = mail w"
    using world_ReadFrame [of "\<lambda>w'. mail w' = mail w", OF _ _ w1(1)] recv_mail by simp
  with push [of w1 "nat i" m "Some 30000"] i obtain w2 where
    "message_Push E (nat i) m (Some 30000) w1 = (True, w2)" "mail w2 = (mail w)(nat i \<mapsto> m)" "rx w2 = rest"
    using w1(2) by auto
  moreover from this have "ReceiverLoop_round E (c, w) = (Inr True, (c, w2))"
    using w1(1) i p(6) by (simp add: ReceiverLoop_round_def on_world_def running Let_def)
  ultimately show ?thesis by (intro that)
qed

lemma end_world:
  assumes "mail w (nat i) = Some m" "0 \<le> i" "i < 1024"
  obtains w' where "request_end E Q i d (c, w) =
      (res_bind (CheckError m) (\<lambda>_. Inr m), (c\<lparr>conn_stream_pool := snd (StreamPool_Release Q i (conn_stream_pool c))\<rparr>, w'))"
    "rx w' = rx w" "mail w' = (mail w)(nat i := None)"
proof -
  obtain w' where w': "message_Pop E (nat i) d w = (Some m, w')" "mail w' = (mail w)(nat i := None)" "rx w' = rx w"
    using pop [OF assms(1)] by blast
  then have "request_end E Q i d (c, w) =
      (res_bind (CheckError m) (\<lambda>_. Inr m), (c\<lparr>conn_stream_pool := snd (StreamPool_Release Q i (conn_stream_pool c))\<rparr>, w'))"
    using assms(2,3)
    by (auto simp: request_end_def wait_response_def on_world_def StreamGuard_release_def io_bind_def io_simps res_bind_def
        split: sum.splits)
  with w' show ?thesis by (intro that)
qed

lemma timeout_world:
  assumes "mail w (nat i) = None" "0 \<le> i" "i < 1024"
  obtains w' where "request_end E Q i d (c, w) = (Inl (Throw (ConnectionError ''Timeout'')),
      (c\<lparr>conn_broken := True, conn_stream_pool := snd (StreamPool_Release Q i (conn_stream_pool c))\<rparr>, w'))"
    "rx w' = rx w" "mail w' = mail w"
proof -
  obtain w' where w': "message_Pop E (nat i) d w = (None, w')" "mail w' = mail w" "rx w' = rx w" using pop_empty [OF assms(1)] by blast
  moreover have "(i < 0 \<or> kMaxStreams < nat i) = False" using assms(2,3) by auto
  ultimately have "request_end E Q i d (c, w) = (Inl (Throw (ConnectionError ''Timeout'')),
      (c\<lparr>conn_broken := True, conn_stream_pool := snd (StreamPool_Release Q i (conn_stream_pool c))\<rparr>, w'))"
    by (simp add: request_end_def wait_response_def on_world_def StreamGuard_release_def MarkBroken_def)
  with w'(2,3) show ?thesis by (intro that)
qed

end

section \<open>Invariant\<close>

text \<open>
  Every running request holds a stream of its own; the bytes to be received are the frames on their way;
  and the queue of a stream holds exactly the answer that has arrived for the request of that stream.
\<close>

abbreviation queue_entry :: "int \<times> RequestBody \<times> ResponseMessage \<Rightarrow> nat \<times> ResponseMessage" where
  "queue_entry x \<equiv> (nat (fst x), snd (snd x))"

definition mux_inv :: "('q \<Rightarrow> int multiset) \<Rightarrow> ('q \<Rightarrow> nat) \<Rightarrow> ('w \<Rightarrow> RawBuffer) \<Rightarrow> ('w \<Rightarrow> nat \<rightharpoonup> ResponseMessage) \<Rightarrow>
    (RequestBody \<Rightarrow> ResponseMessage \<Rightarrow> bool) \<Rightarrow> ('q, 'w) mux \<Rightarrow> bool" where
  "mux_inv content capacity rx mail answers s \<longleftrightarrow>
     stream_inv content capacity (conn_stream_pool (mux_conn s), map fst (mux_running s)) \<and> \<not> conn_broken (mux_conn s) \<and>
     rx (mux_world s) = concat (map (\<lambda>(i, b, m, bytes). bytes) (mux_flight s)) \<and>
     (\<forall>(i, b, m, bytes) \<in> set (mux_flight s). answer_frame answers (conn_compressor (mux_conn s)) i b m bytes) \<and>
     mail (mux_world s) = map_of (map queue_entry (mux_arrived s)) \<and>
     (\<forall>(i, b, m) \<in> set (mux_arrived s). answers b m \<and> Message_GetStreamId (rsp_header m) = i)"

lemma stream_inv_mset: "stream_inv content capacity (q, held) \<Longrightarrow> mset held = mset held' \<Longrightarrow> stream_inv content capacity (q, held')"
  by (simp add: stream_inv_def del: mset_map)

lemma mux_inv_streams:
  assumes "mux_inv content capacity rx mail answers s"
  shows "distinct (map fst (mux_running s))" "x \<in> set (mux_running s) \<Longrightarrow> 0 \<le> fst x \<and> fst x < 1024"
  using stream_inv_held(1,2) [of content capacity "conn_stream_pool (mux_conn s)" "map fst (mux_running s)"] assms
  by (auto simp: mux_inv_def)

lemma mset_remove1_split: "x \<in> set xs \<Longrightarrow> mset xs = add_mset x (mset (remove1 x xs))"
  by simp

text \<open>The streams after a request has moved on.\<close>

lemma mset_running:
  "mset (map fst (mux_running s)) = image_mset fst (mset (mux_unsent s)) + image_mset fst (mset (mux_unanswered s)) +
     image_mset fst (mset (mux_flight s)) + image_mset fst (mset (mux_arrived s))"
  by (simp add: mux_running_def image_mset.compositionality comp_def)

lemma acquire_inv:
  assumes Q: "queue_contract Q content capacity" and inv: "mux_inv content capacity rx mail answers s"
    and acq: "request_acquire Q (mux_conn s, mux_world s) = (Inr i, (c', w'))"
  shows "mux_inv content capacity rx mail answers (s\<lparr>mux_conn := c', mux_world := w', mux_unsent := (i, b) # mux_unsent s\<rparr>)"
proof -
  obtain q where q: "StreamPool_Acquire Q (conn_stream_pool (mux_conn s)) = Inr (i, q)"
    "c' = (mux_conn s)\<lparr>conn_stream_pool := q\<rparr>" "w' = mux_world s"
    using acq by (auto simp: request_acquire_def split: sum.splits)
  have "stream_inv content capacity (q, i # map fst (mux_running s))"
    using inv by (intro stream_inv_step [OF Q _ stream_step.acquire [OF q(1)]]) (simp add: mux_inv_def)
  then show ?thesis using inv q by (simp add: mux_inv_def mux_running_def)
qed

lemma mux_inv_moved:
  assumes "mux_inv content capacity rx mail answers s" "mset (map fst (mux_running s')) = mset (map fst (mux_running s))"
  shows "stream_inv content capacity (conn_stream_pool (mux_conn s), map fst (mux_running s'))"
  by (rule stream_inv_mset [OF _ assms(2) [symmetric]]) (use assms(1) in \<open>simp add: mux_inv_def\<close>)

text \<open>The queues of two requests are different.\<close>

lemma map_of_remove1:
  assumes "distinct (map f xs)" "x \<in> set xs"
  shows "map_of (map (\<lambda>y. (f y, g y)) (remove1 x xs)) = (map_of (map (\<lambda>y. (f y, g y)) xs))(f x := None)"
  using assms
proof (induction xs)
  case (Cons y ys)
  then show ?case
  proof (cases "x = y")
    case True
    with Cons.prems have "map_of (map (\<lambda>y. (f y, g y)) ys) (f x) = None" by (force simp: map_of_eq_None_iff)
    with True show ?thesis by (auto simp: fun_eq_iff)
  next
    case False
    with Cons.prems have "f y \<noteq> f x" by auto
    with False Cons show ?thesis by (auto simp: fun_eq_iff)
  qed
qed simp

lemma mux_inv_queues:
  assumes "mux_inv content capacity rx mail answers s"
  shows "distinct (map (\<lambda>x. nat (fst x)) (mux_arrived s))"
    "(i, b) \<in> set (mux_running s) \<Longrightarrow> mail (mux_world s) (nat i) = Some m \<longleftrightarrow> (i, b, m) \<in> set (mux_arrived s)"
proof -
  have d: "distinct (map fst (mux_arrived s))"
    using mux_inv_streams(1) [OF assms] by (simp add: mux_running_def comp_def)
  have pos: "0 \<le> fst x" if "x \<in> set (mux_arrived s)" for x
    using mux_inv_streams(2) [OF assms, of "arrived_key x"] that by (simp add: mux_running_def)
  from d show q: "distinct (map (\<lambda>x. nat (fst x)) (mux_arrived s))"
    using pos unfolding distinct_map inj_on_def by (metis eq_nat_nat_iff)
  assume ib: "(i, b) \<in> set (mux_running s)"
  have mail: "mail (mux_world s) (nat i) = Some m \<longleftrightarrow> (nat i, m) \<in> queue_entry ` set (mux_arrived s)"
    using assms q map_of_eq_Some_iff [of "map queue_entry (mux_arrived s)"] by (simp add: mux_inv_def comp_def)
  have same: "b' = b" if "(i, b', m) \<in> set (mux_arrived s)" for b'
  proof -
    have "(i, b') \<in> set (mux_running s)" using that by (force simp: mux_running_def)
    then show ?thesis using ib mux_inv_streams(1) [OF assms] by (meson eq_key_imp_eq_value)
  qed
  have "x = (i, b, m)" if "x \<in> set (mux_arrived s)" "(nat i, m) = queue_entry x" for x
  proof -
    have "fst x = i" using mux_inv_streams(2) [OF assms ib] pos [OF that(1)] that(2) by (simp add: eq_nat_nat_iff)
    with same that show ?thesis by (cases x) auto
  qed
  then show "mail (mux_world s) (nat i) = Some m \<longleftrightarrow> (i, b, m) \<in> set (mux_arrived s)"
    unfolding mail image_iff by force
qed

context multiplexed_runtime
begin

lemma send_inv:
  assumes inv: "mux_inv content capacity rx mail answers s" and ib: "(i, b) \<in> set (mux_unsent s)"
    and send: "request_send E message i d (mux_conn s, mux_world s) = (r, (c', w'))"
  shows "mux_inv content capacity rx mail answers (s\<lparr>mux_conn := c', mux_world := w', mux_unsent := remove1 (i, b) (mux_unsent s),
      mux_unanswered := (i, b) # mux_unanswered s\<rparr>)" (is "mux_inv _ _ _ _ _ ?s'")
proof -
  note w' = send_world [OF send]
  have "mset (map fst (mux_running ?s')) = mset (map fst (mux_running s))"
    using arg_cong [OF mset_remove1_split [OF ib], of "image_mset fst"] by (simp only: mset_running) simp
  from mux_inv_moved [OF inv this] inv w' show ?thesis by (simp add: mux_inv_def)
qed

lemma answer_inv:
  assumes inv: "mux_inv content capacity rx mail answers s" and ib: "(i, b) \<in> set (mux_unanswered s)"
    and a: "answer_frame answers (conn_compressor (mux_conn s)) i b m bytes"
    and w': "rx w' = rx (mux_world s) @ bytes" "mail w' = mail (mux_world s)"
  shows "mux_inv content capacity rx mail answers (s\<lparr>mux_world := w', mux_unanswered := remove1 (i, b) (mux_unanswered s),
      mux_flight := mux_flight s @ [(i, b, m, bytes)]\<rparr>)" (is "mux_inv _ _ _ _ _ ?s'")
proof -
  have "mset (map fst (mux_running ?s')) = mset (map fst (mux_running s))"
    using arg_cong [OF mset_remove1_split [OF ib], of "image_mset fst"] by (simp only: mset_running) simp
  from mux_inv_moved [OF inv this] inv w' a show ?thesis by (auto simp: mux_inv_def)
qed

text \<open>The next frame on its way is received, and its queue was empty.\<close>

lemma flight_front:
  assumes inv: "mux_inv content capacity rx mail answers s" and f: "mux_flight s = (i, b, m, bytes) # rest"
  obtains w' where "ReceiverLoop_round E (mux_conn s, mux_world s) = (Inr True, (mux_conn s, w'))"
    "rx w' = concat (map (\<lambda>(i, b, m, bytes). bytes) rest)" "mail w' = (mail (mux_world s))(nat i \<mapsto> m)"
proof -
  have mem: "(i, b) \<in> set (mux_running s)" using f by (simp add: mux_running_def)
  have i: "0 \<le> i" "i < 1024" using mux_inv_streams(2) [OF inv mem] by simp_all
  have "(i, b, m') \<notin> set (mux_arrived s)" for m'
    using mux_inv_streams(1) [OF inv] unfolding mux_running_def f by (auto simp: image_iff)
  then have "mail (mux_world s) (nat i) = None" using mux_inv_queues(2) [OF inv mem] by (metis not_None_eq)
  moreover have "rx (mux_world s) = bytes @ concat (map (\<lambda>(i, b, m, bytes). bytes) rest)"
    "answer_frame answers (conn_compressor (mux_conn s)) i b m bytes" using inv f by (auto simp: mux_inv_def)
  ultimately show ?thesis using receive_world i that by blast
qed

lemma receive_inv:
  assumes inv: "mux_inv content capacity rx mail answers s" and f: "mux_flight s = (i, b, m, bytes) # rest"
    and r: "ReceiverLoop_round E (mux_conn s, mux_world s) = (r, (c', w'))"
  shows "mux_inv content capacity rx mail answers (s\<lparr>mux_conn := c', mux_world := w', mux_flight := rest,
      mux_arrived := (i, b, m) # mux_arrived s\<rparr>)" (is "mux_inv _ _ _ _ _ ?s'")
proof -
  have w': "c' = mux_conn s" "rx w' = concat (map (\<lambda>(i, b, m, bytes). bytes) rest)" "mail w' = (mail (mux_world s))(nat i \<mapsto> m)"
    using flight_front [OF inv f] r by auto
  have "mset (map fst (mux_running ?s')) = mset (map fst (mux_running s))" by (simp only: mset_running) (simp add: f)
  note streams = mux_inv_moved [OF inv this]
  show ?thesis using streams inv f w' by (auto simp: mux_inv_def answer_frame_def)
qed

lemma finish_inv:
  assumes Q: "queue_contract Q content capacity" and inv: "mux_inv content capacity rx mail answers s"
    and a: "(i, b, m) \<in> set (mux_arrived s)"
    and e: "request_end E Q i d (mux_conn s, mux_world s) = (r, (c', w'))"
  shows "mux_inv content capacity rx mail answers (s\<lparr>mux_conn := c', mux_world := w',
      mux_arrived := remove1 (i, b, m) (mux_arrived s)\<rparr>)" (is "mux_inv _ _ _ _ _ ?s'")
proof -
  have i: "(i, b) \<in> set (mux_running s)" using a by (force simp: mux_running_def)
  have m: "mail (mux_world s) (nat i) = Some m" using mux_inv_queues(2) [OF inv i] a by simp
  have w': "c' = (mux_conn s)\<lparr>conn_stream_pool := snd (StreamPool_Release Q i (conn_stream_pool (mux_conn s)))\<rparr>"
    "rx w' = rx (mux_world s)" "mail w' = (mail (mux_world s))(nat i := None)"
    using end_world [OF m, of Q d "mux_conn s"] mux_inv_streams(2) [OF inv i] e by auto
  have "mset (map fst (mux_running s)) = add_mset i (mset (map fst (mux_running ?s')))"
    using arg_cong [OF mset_remove1_split [OF a], of "image_mset fst"] by (simp only: mset_running) simp
  moreover have "stream_inv content capacity (conn_stream_pool c', remove1 i (map fst (mux_running s)))"
  proof (rule stream_inv_step [OF Q])
    show "stream_inv content capacity (conn_stream_pool (mux_conn s), map fst (mux_running s))" using inv by (simp add: mux_inv_def)
    show "stream_step Q (conn_stream_pool (mux_conn s), map fst (mux_running s)) (conn_stream_pool c', remove1 i (map fst (mux_running s)))"
      by (rule stream_step.release [of i _ _ _ "fst (StreamPool_Release Q i (conn_stream_pool (mux_conn s)))"])
         (use i w'(1) in \<open>force+\<close>)
  qed
  ultimately have "stream_inv content capacity (conn_stream_pool c', map fst (mux_running ?s'))"
    by (rule_tac stream_inv_mset) (assumption, simp)
  moreover have "mail w' = map_of (map queue_entry (remove1 (i, b, m) (mux_arrived s)))"
    using map_of_remove1 [OF mux_inv_queues(1) [OF inv] a, of "\<lambda>x. snd (snd x)"] w'(3) inv by (simp add: mux_inv_def)
  ultimately show ?thesis using inv w'(1,2) set_remove1_subset [of "(i, b, m)" "mux_arrived s"] unfolding mux_inv_def by auto
qed

lemma mux_step_inv:
  assumes Q: "queue_contract Q content capacity" and "mux_step E Q rx mail answers s s'" "mux_inv content capacity rx mail answers s"
  shows "mux_inv content capacity rx mail answers s'"
  using assms(2,3)
  by cases (auto intro: acquire_inv [OF Q] send_inv answer_inv receive_inv finish_inv [OF Q])

lemma mux_reachable_inv:
  assumes Q: "queue_contract Q content capacity" and "mux_reachable E Q rx mail answers s"
  shows "mux_inv content capacity rx mail answers s"
  using assms(2)
proof induction
  case (init s)
  then show ?case using stream_inv_init [OF Q] by (simp add: mux_init_def mux_inv_def mux_running_def)
next
  case (step s s')
  then show ?case using mux_step_inv [OF Q] by blast
qed

text \<open>Requests move forward: whatever is ahead of an answer in the stream of bytes is received first.\<close>

lemma flight_arrives:
  assumes "mux_inv content capacity rx mail answers s" "mux_flight s = before @ (i, b, m, bytes) # rest"
  shows "\<exists>s'. (mux_step E Q rx mail answers)\<^sup>*\<^sup>* s s' \<and> mail (mux_world s') (nat i) = Some m"
  using assms
proof (induction before arbitrary: s)
  case Nil
  obtain w' where r: "ReceiverLoop_round E (mux_conn s, mux_world s) = (Inr True, (mux_conn s, w'))"
    and m: "mail w' = (mail (mux_world s))(nat i \<mapsto> m)" using flight_front [OF Nil.prems(1)] Nil.prems(2) by force
  from mux_step.receive [OF _ r] Nil.prems(2) m show ?case by (fastforce intro!: r_into_rtranclp)
next
  case (Cons x before)
  obtain j c n bs where x: "x = (j, c, n, bs)" by (cases x) auto
  obtain w' where r: "ReceiverLoop_round E (mux_conn s, mux_world s) = (Inr True, (mux_conn s, w'))"
    using flight_front [OF Cons.prems(1)] Cons.prems(2) x by force
  let ?s1 = "s\<lparr>mux_conn := mux_conn s, mux_world := w', mux_flight := before @ (i, b, m, bytes) # rest,
    mux_arrived := (j, c, n) # mux_arrived s\<rparr>"
  have f: "mux_flight s = (j, c, n, bs) # before @ (i, b, m, bytes) # rest" using Cons.prems(2) x by simp
  have "mux_step E Q rx mail answers s ?s1" by (rule mux_step.receive [OF f r])
  moreover have "\<exists>s'. (mux_step E Q rx mail answers)\<^sup>*\<^sup>* ?s1 s' \<and> mail (mux_world s') (nat i) = Some m"
    by (rule Cons.IH [OF receive_inv [OF Cons.prems(1) f r]]) simp
  ultimately show ?case by (meson converse_rtranclp_into_rtranclp)
qed

end

interpretation pipe_mux: multiplexed_runtime pipe_runtime fst "\<lambda>(rx, tx, mail). tx" "\<lambda>(rx, tx, mail). mail"
  by unfold_locales (auto simp: pipe_socket_contract, auto simp: pipe_runtime_def split: prod.split)

section \<open>Two requests\<close>

text \<open>
  Two requests have a stream, the second is sent first, and its answer is received while the first is
  not even sent.
\<close>

definition ready_on :: "int \<Rightarrow> ResponseMessage" where
  "ready_on i = \<lparr>rsp_header = response_header kReady i 0, rsp_body = ReadyMessage\<rparr>"

definition options_bytes :: RawBuffer where
  "options_bytes = enc_header (Message_SetStreamId 1 (FrameHeader_init kOptions))"

definition two_requests :: "(int \<times> RequestBody) list \<Rightarrow> (int \<times> RequestBody \<times> ResponseMessage) list \<Rightarrow>
    (nat \<rightharpoonup> ResponseMessage) \<Rightarrow> (int list \<times> nat, pipe) mux" where
  "two_requests waiting arrived mail =
     \<lparr>mux_conn = (mk_ConnectionImpl list_queue)\<lparr>conn_stream_pool := (map int [2..<kMaxStreams], kMaxStreams)\<rparr>,
      mux_world = ([], options_bytes, mail),
      mux_unsent = [(0, PrepareMessage (str ''SELECT''))], mux_unanswered = waiting, mux_flight = [], mux_arrived = arrived\<rparr>"

abbreviation ready_answers :: "RequestBody \<Rightarrow> ResponseMessage \<Rightarrow> bool" where
  "ready_answers b m \<equiv> rsp_body m = ReadyMessage"

abbreviation pipe_reachable :: "(int list \<times> nat, pipe) mux \<Rightarrow> bool" where
  "pipe_reachable \<equiv> mux_reachable pipe_runtime list_queue fst (\<lambda>(rx, tx, mail). mail) ready_answers"

lemma list_queue_StreamPool: "StreamPool list_queue = (0 # 1 # map int [2..<kMaxStreams], kMaxStreams)"
proof -
  have "map int [0..<kMaxStreams] = 0 # 1 # map int [2..<kMaxStreams]"
    by (subst upt_rec, subst upt_rec) (simp add: numeral_2_eq_2 del: upt_rec_numeral)
  moreover have "queue_Create list_queue kMaxStreams = ([], kMaxStreams)" by (simp add: list_queue_def)
  ultimately show ?thesis
    using list_queue_fill [of "[]" "map int [0..<kMaxStreams]" kMaxStreams]
    by (simp add: StreamPool_def del: upt_rec_numeral StreamPool_fill.simps)
qed

lemma ready_frame: "answer_frame ready_answers None 1 b (ready_on 1) (enc_header (response_header kReady 1 0))"
  by (auto simp: answer_frame_def ready_on_def GetResponseMessageFromHeader_def Opcode_of_def Opcodes_def ParseBody_def
      Message_GetStreamId_def)

lemma options_frame:
  "RequestMessage_Serialize None (request_message 1 OptionsMessage) [] = Inr (request_message 1 OptionsMessage, options_bytes)"
  using Serialize_uncompressed [of OptionsMessage "Message_SetStreamId 1 (FrameHeader_init kOptions)"]
  by (simp add: request_message_def mk_RequestMessage_def options_bytes_def Message_SetStreamId_def FrameHeader_init_def)

lemma mux_stepI:
  assumes "(i, b) \<in> set (mux_unsent s)" "RequestMessage_Serialize (conn_compressor (mux_conn s)) (request_message i b) [] = Inr frame"
    and "request_send E (mk_RequestMessage b) i d (mux_conn s, mux_world s) = (Inr (), (c', w'))"
    and "s' = s\<lparr>mux_conn := c', mux_world := w', mux_unsent := remove1 (i, b) (mux_unsent s), mux_unanswered := (i, b) # mux_unanswered s\<rparr>"
  shows "mux_step E Q rx mail answers s s'"
  unfolding assms(4) by (rule mux_step.send [OF assms(1-3)])

lemma ready_received:
  assumes "conn_compressor c = None"
  shows "ReceiverLoop_round pipe_runtime (c, (enc_header (response_header kReady 1 0), tx, Map.empty)) =
    (Inr True, (c, ([], tx, [1 \<mapsto> ready_on 1])))"
proof -
  let ?w = "(enc_header (response_header kReady 1 0), tx, Map.empty) :: pipe"
  obtain w' where w': "ReadFrame pipe_runtime None None (c, ?w) = (Inr (ready_on 1), (c, w'))"
    "fst w' = []" "(\<lambda>(rx, tx, mail). tx) w' = tx"
    by (rule ReadFrame_wire [OF pipe_socket_contract, of ?w "response_header kReady 1 0" "[]" "[]" ReadyClass None None c])
       (simp_all add: GetResponseMessageFromHeader_def Opcode_of_def Opcodes_def ParseBody_def ready_on_def)
  moreover have "(\<lambda>(rx, tx, mail). mail) w' = Map.empty"
    using world_ReadFrame [of "\<lambda>w. (\<lambda>(rx, tx, mail). mail) w = Map.empty", OF _ _ w'(1)] pipe_mux.recv_mail by simp
  ultimately have "w' = ([], tx, Map.empty)" by (cases w') auto
  with w'(1) assms have "ReadFrame pipe_runtime None (conn_compressor c) (c, ?w) = (Inr (ready_on 1), (c, ([], tx, Map.empty)))" by simp
  moreover have "Message_GetStreamId (rsp_header (ready_on 1)) = 1" by (simp add: ready_on_def Message_GetStreamId_def)
  moreover have "on_world (task_ShouldCancel pipe_runtime) (c, ?w) = (False, (c, ?w))" by (simp add: on_world_def pipe_runtime_def)
  moreover have "on_world (\<lambda>w. case message_Push pipe_runtime (Suc 0) (ready_on 1) (Some 30000) w of (ok, w') \<Rightarrow> (Inr ok, w'))
      (c, ([], tx, Map.empty)) = (Inr True, (c, ([], tx, [1 \<mapsto> ready_on 1])))" by (simp add: on_world_def pipe_runtime_def)
  ultimately show ?thesis by (simp only: ReceiverLoop_round_def Let_def prod.case sum.case) simp
qed

lemma two_requests_sent: "pipe_reachable (two_requests [(1, OptionsMessage)] [] Map.empty)"
proof -
  let ?conn = "\<lambda>xs. (mk_ConnectionImpl list_queue)\<lparr>conn_stream_pool := (xs, kMaxStreams)\<rparr>"
  let ?s = "\<lambda>xs sent unsent unanswered. \<lparr>mux_conn = ?conn xs, mux_world = ([], sent, Map.empty), mux_unsent = unsent,
    mux_unanswered = unanswered, mux_flight = [], mux_arrived = []\<rparr>"
  have "pipe_reachable (?s (0 # 1 # map int [2..<kMaxStreams]) [] [] [])"
    by (rule mux_reachable.init)
       (simp add: mux_init_def mux_running_def list_queue_StreamPool mk_ConnectionImpl_def del: upt_rec_numeral)
  then have "pipe_reachable (?s (1 # map int [2..<kMaxStreams]) [] [(0, PrepareMessage (str ''SELECT''))] [])"
    by (rule mux_reachable.step)
       (use mux_step.acquire [where s = "?s (0 # 1 # map int [2..<kMaxStreams]) [] [] []"] in
         \<open>force simp: request_acquire_def StreamPool_Acquire_def list_queue_def simp del: upt_rec_numeral\<close>)
  then have reach: "pipe_reachable (?s (map int [2..<kMaxStreams]) [] [(1, OptionsMessage), (0, PrepareMessage (str ''SELECT''))] [])"
    by (rule mux_reachable.step)
       (use mux_step.acquire [where s = "?s (1 # map int [2..<kMaxStreams]) [] [(0, PrepareMessage (str ''SELECT''))] []"] in
         \<open>force simp: request_acquire_def StreamPool_Acquire_def list_queue_def simp del: upt_rec_numeral\<close>)
  have "request_send pipe_runtime (mk_RequestMessage OptionsMessage) 1 None (?conn xs, ([], [], Map.empty)) =
      (Inr (), (?conn xs, ([], options_bytes, Map.empty)))" for xs
    by (simp add: request_send_def SendMessage_def request_message_def [symmetric] options_frame io_bind_def io_simps on_world_def
        pipe_runtime_def mk_ConnectionImpl_def del: upt_rec_numeral)
  note send = this [of "map int [2..<kMaxStreams]"]
  show ?thesis
    by (rule mux_reachable.step [OF reach], rule mux_stepI [where i = 1 and b = OptionsMessage and d = None])
       (use send in \<open>simp_all add: two_requests_def options_frame mk_ConnectionImpl_def del: upt_rec_numeral\<close>)
qed

lemma two_requests_received: "pipe_reachable (two_requests [] [(1, OptionsMessage, ready_on 1)] [1 \<mapsto> ready_on 1])"
proof -
  let ?s = "two_requests [(1, OptionsMessage)] [] Map.empty"
  let ?bytes = "enc_header (response_header kReady 1 0)"
  let ?t = "?s\<lparr>mux_world := (?bytes, options_bytes, Map.empty), mux_unanswered := remove1 (1, OptionsMessage) (mux_unanswered ?s),
    mux_flight := mux_flight ?s @ [(1, OptionsMessage, ready_on 1, ?bytes)]\<rparr>"
  have conn: "conn_compressor (mux_conn ?s) = None" by (simp add: two_requests_def mk_ConnectionImpl_def del: upt_rec_numeral)
  have "pipe_reachable ?t"
    by (rule mux_reachable.step [OF two_requests_sent], rule mux_step.answer)
       (unfold conn, rule_tac [2] ready_frame, simp_all add: two_requests_def del: upt_rec_numeral)
  moreover have r: "ReceiverLoop_round pipe_runtime (mux_conn ?t, mux_world ?t) =
      (Inr True, (mux_conn ?s, ([], options_bytes, [1 \<mapsto> ready_on 1])))"
    using ready_received [OF conn] by simp
  have f: "mux_flight ?t = [(1, OptionsMessage, ready_on 1, ?bytes)]" by (simp add: two_requests_def)
  ultimately have "pipe_reachable (?t\<lparr>mux_conn := mux_conn ?s, mux_world := ([], options_bytes, [1 \<mapsto> ready_on 1]),
      mux_flight := [], mux_arrived := (1, OptionsMessage, ready_on 1) # mux_arrived ?t\<rparr>)"
    using mux_reachable.step [OF _ mux_step.receive [OF f r]] by blast
  then show ?thesis by (simp add: two_requests_def del: upt_rec_numeral)
qed

section \<open>Properties\<close>







end
