(* ===== verification/Cql_Row_Types.thy ===== *)
theory Cql_Row_Types
  imports Cql_Result_Set
begin

text \<open>
  Which C++ types a row can be extracted into (\<open>include/cassandra/io/row_types.hpp\<close>), and how \<open>Row::To\<close> fills the
  members of such a type in place (\<open>include/cassandra/row.hpp\<close>). The traits are computed by the compiler; a
  type is described by what the compiler and \<open>boost::pfr\<close> report about it, and a rejected instantiation
  (\<open>static_assert\<close>) is \<open>None\<close>.
\<close>

section \<open>Types as the compiler sees them\<close>

datatype extraction_tag = RowTag | FieldTag

datatype RowCategoryType = kNonRow | kTuple | kAggregate | kIntrusiveIntrospection

datatype compiler = Clang | Gcc

text \<open>
  \<open>ty_name\<close> is the name without qualifiers, as the compiler prints it; \<open>ty_tuple\<close> has the element types of an
  unqualified \<open>std::tuple\<close>; \<open>ty_reflectable\<close> and \<open>ty_members\<close> are the answers of \<open>boost::pfr\<close>.
\<close>

record cxx_type =
  ty_name :: string
  ty_const :: bool
  ty_volatile :: bool
  is_class :: bool
  is_union :: bool
  is_empty :: bool
  is_polymorphic :: bool
  ty_reflectable :: bool
  ty_tuple :: "cell_type list option"
  ty_members :: "cell_type list"

definition remove_cv :: "cxx_type \<Rightarrow> cxx_type" where
  "remove_cv t = t\<lparr>ty_const := False, ty_volatile := False\<rparr>"

section \<open>The namespace of a type\<close>

fun kExpectedPrefix :: "compiler \<Rightarrow> string" where
  "kExpectedPrefix Clang = ''io::traits::IsInNamespaceImpl(std::string_view) [T = ''"
| "kExpectedPrefix Gcc = ''io::traits::IsInNamespaceImpl(std::string_view) [with T = ''"

text \<open>\<open>std::string_view::find\<close>: the first position of a text, if any.\<close>

fun string_find :: "string \<Rightarrow> string \<Rightarrow> nat option" where
  "string_find pat s =
     (if take (length pat) s = pat then Some 0
      else case s of [] \<Rightarrow> None | _ # s' \<Rightarrow> map_option Suc (string_find pat s'))"

declare string_find.simps [simp del]

text \<open>
  \<open>fname\<close> is \<open>BOOST_CURRENT_FUNCTION\<close> inside the instance for a type, \<open>StartsWith\<close> is the function of userver.
\<close>

definition IsInNamespaceImpl :: "(string \<Rightarrow> string \<Rightarrow> bool) \<Rightarrow> compiler \<Rightarrow> string \<Rightarrow> string \<Rightarrow> bool" where
  "IsInNamespaceImpl StartsWith cc fname nsp =
     (case string_find (kExpectedPrefix cc) fname of
        None \<Rightarrow> False
      | Some pos \<Rightarrow>
          let fname_short = drop pos fname in
          StartsWith (drop (length (kExpectedPrefix cc)) fname_short) nsp \<and>
          StartsWith (drop (length (kExpectedPrefix cc) + length nsp) fname_short) ''::'')"

record toolchain =
  tc_compiler :: compiler
  tc_current_function :: "cxx_type \<Rightarrow> string"
  tc_StartsWith :: "string \<Rightarrow> string \<Rightarrow> bool"

definition IsInNamespace :: "toolchain \<Rightarrow> cxx_type \<Rightarrow> string \<Rightarrow> bool" where
  "IsInNamespace tc t = IsInNamespaceImpl (tc_StartsWith tc) (tc_compiler tc) (tc_current_function tc (remove_cv t))"

definition kIsInStdNamespace :: "toolchain \<Rightarrow> cxx_type \<Rightarrow> bool" where
  "kIsInStdNamespace tc t = IsInNamespace tc t ''std''"

definition kIsInBoostNamespace :: "toolchain \<Rightarrow> cxx_type \<Rightarrow> bool" where
  "kIsInBoostNamespace tc t = IsInNamespace tc t ''boost''"

section \<open>Categories\<close>

definition DetectIsSuitableRowType :: "toolchain \<Rightarrow> cxx_type \<Rightarrow> bool" where
  "DetectIsSuitableRowType tc t =
     (let ty = remove_cv t in
      is_class ty \<and> \<not> is_empty ty \<and> ty_reflectable ty \<and> \<not> is_polymorphic ty \<and> \<not> is_union ty \<and>
      \<not> kIsInStdNamespace tc ty \<and> \<not> kIsInBoostNamespace tc ty)"

text \<open>The specialization matches \<open>std::tuple\<close> itself, not a qualified one.\<close>

definition IsTuple :: "cxx_type \<Rightarrow> bool" where
  "IsTuple t \<longleftrightarrow> ty_tuple t \<noteq> None \<and> \<not> ty_const t \<and> \<not> ty_volatile t"

definition RowCategory :: "toolchain \<Rightarrow> cxx_type \<Rightarrow> RowCategoryType" where
  "RowCategory tc t = (if IsTuple t then kTuple else if DetectIsSuitableRowType tc t then kAggregate else kNonRow)"

definition AssertIsValidRowType :: "toolchain \<Rightarrow> cxx_type \<Rightarrow> unit option" where
  "AssertIsValidRowType tc t = (if RowCategory tc t \<noteq> kNonRow then Some () else None)"

definition kIsRowType :: "toolchain \<Rightarrow> cxx_type \<Rightarrow> bool" where
  "kIsRowType tc t \<longleftrightarrow> RowCategory tc t \<noteq> kNonRow"

definition kIsColumnType :: "toolchain \<Rightarrow> cxx_type \<Rightarrow> bool" where
  "kIsColumnType tc t \<longleftrightarrow> RowCategory tc t = kNonRow"

definition ExtractionTag :: "toolchain \<Rightarrow> cxx_type \<Rightarrow> extraction_tag" where
  "ExtractionTag tc t = (if kIsRowType tc t then RowTag else FieldTag)"

text \<open>\<open>TupleType\<close>: the element types of a tuple, the member types of an aggregate.\<close>

definition RowTypeImpl :: "cxx_type \<Rightarrow> RowCategoryType \<Rightarrow> cell_type list option" where
  "RowTypeImpl t c =
     (case c of
        kTuple \<Rightarrow> ty_tuple t
      | kAggregate \<Rightarrow> Some (ty_members t)
      | _ \<Rightarrow> None)"

definition RowType :: "toolchain \<Rightarrow> cxx_type \<Rightarrow> cell_type list option" where
  "RowType tc t = RowTypeImpl t (RowCategory tc t)"

section \<open>Filling a row type in place\<close>

text \<open>
  The members of the target, \<open>None\<close> while they have no determinate value. \<open>GetTuple\<close> gives references to them: the
  tuple itself, or for an aggregate the tuple of references of \<open>boost::pfr::structure_tie\<close>; each read is
  assigned before the next one, so a fault leaves the members before it assigned.
\<close>

type_synonym members = "cell_value option list"

fun ExtractTuple_refs :: "RawBuffer list \<Rightarrow> nat \<Rightarrow> cell_type list \<Rightarrow> members \<Rightarrow> unit res \<times> members" where
  "ExtractTuple_refs buffer_view column_index [] val = (Inr (), val)"
| "ExtractTuple_refs buffer_view column_index (t # ts) val =
     (if column_index < length buffer_view
      then (case Read_cell t (buffer_view ! column_index) of
              Inl f \<Rightarrow> (Inl f, val)
            | Inr v \<Rightarrow> ExtractTuple_refs buffer_view (Suc column_index) ts (val[column_index := Some v]))
      else (Inl (UB OutOfBounds), val))"

definition Row_To_RowTag :: "cell_type list \<Rightarrow> Row \<Rightarrow> members \<Rightarrow> unit res \<times> members" where
  "Row_To_RowTag ts row val =
     (if length ts > Row_Size row
      then (Inl (Throw (Error (''Row size ('' @ fmt_nat (Row_Size row) @ '') is less than the number of data members in C++ user datatype ('' @
         fmt_nat (length ts) @ '')''))), val)
      else ExtractTuple_refs (row_content row) 0 ts val)"

text \<open>\<open>ExtractValues\<close> fills separate variables the same way, without a check of the size of the row.\<close>

definition ExtractValues :: "cell_type list \<Rightarrow> Row \<Rightarrow> members \<Rightarrow> unit res \<times> members" where
  "ExtractValues ts row val = ExtractTuple_refs (row_content row) 0 ts val"

text \<open>\<open>Row::As(RowTag)\<close>: a value whose members are not initialized is filled and returned.\<close>

definition Row_As :: "toolchain \<Rightarrow> cxx_type \<Rightarrow> Row \<Rightarrow> members res option" where
  "Row_As tc t row =
     map_option (\<lambda>ts. case Row_To_RowTag ts row (replicate (length ts) None) of
        (Inl f, _) \<Rightarrow> Inl f
      | (Inr _, val) \<Rightarrow> Inr val) (RowType tc (remove_cv t))"

section \<open>What the compiler prints\<close>

text \<open>
  The documented form of \<open>__PRETTY_FUNCTION__\<close>: the signature, then the template argument, then the end of the
  list of arguments (gcc lists further substitutions first).
\<close>

definition pretty_contract :: "toolchain \<Rightarrow> bool" where
  "pretty_contract tc \<longleftrightarrow>
     (\<forall>s p. tc_StartsWith tc s p \<longleftrightarrow> take (length p) s = p) \<and>
     (\<forall>t. \<exists>before after. tc_current_function tc t = before @ kExpectedPrefix (tc_compiler tc) @ ty_name t @ after \<and>
        CHR ''i'' \<notin> set before \<and> after \<noteq> [] \<and> hd after \<in> {CHR '';'', CHR '']''})"

lemma string_find_first:
  assumes "pat = c # pat'" "c \<notin> set before"
  shows "string_find pat (before @ pat @ rest) = Some (length before)"
  using assms(2)
proof (induction before)
  case Nil
  show ?case by (subst string_find.simps) simp
next
  case (Cons x before)
  have "take (length pat) (x # before @ pat @ rest) \<noteq> pat" using assms(1) Cons.prems by auto
  with Cons show ?case by (subst string_find.simps) simp
qed

lemma kExpectedPrefix_hd: "\<exists>pat'. kExpectedPrefix cc = CHR ''i'' # pat'"
  by (cases cc) simp_all

lemma take_append_delim:
  assumes "after \<noteq> []" "hd after \<notin> set p"
  shows "take (length p) (s @ after) = p \<longleftrightarrow> take (length p) s = p"
proof (cases "length p \<le> length s")
  case False
  have "p = s @ take (length p - length s) after \<Longrightarrow> hd after \<in> set p"
    using False assms(1) by (cases after) (auto simp: take_Cons' dest: arg_cong [of _ _ set])
  with False assms show ?thesis by auto
qed simp

lemma take_two_parts:
  "take (length p) s = p \<and> take (length q) (drop (length p) s) = q \<longleftrightarrow> take (length (p @ q)) s = p @ q"
  by (cases "length p \<le> length s") (auto simp: take_add)

lemma IsInNamespace_prefix:
  assumes "pretty_contract tc" "set nsp \<inter> {CHR '';'', CHR '']''} = {}"
  shows "IsInNamespace tc t nsp \<longleftrightarrow> take (length nsp + 2) (ty_name t) = nsp @ ''::''"
proof -
  obtain before after where f: "tc_current_function tc (remove_cv t) =
      before @ kExpectedPrefix (tc_compiler tc) @ ty_name t @ after" "CHR ''i'' \<notin> set before" "after \<noteq> []"
      "hd after \<in> {CHR '';'', CHR '']''}"
    using assms(1) by (metis pretty_contract_def remove_cv_def cxx_type.select_convs(1) cxx_type.surjective cxx_type.update_convs(2,3))
  have sw: "tc_StartsWith tc s p \<longleftrightarrow> take (length p) s = p" for s p using assms(1) by (simp add: pretty_contract_def)
  obtain pat' where pat: "kExpectedPrefix (tc_compiler tc) = CHR ''i'' # pat'" using kExpectedPrefix_hd by blast
  have "IsInNamespace tc t nsp \<longleftrightarrow> take (length nsp) (ty_name t @ after) = nsp \<and> take (length ''::'') (drop (length nsp) (ty_name t @ after)) = ''::''"
    using string_find_first [OF pat f(2), of "ty_name t @ after"] f(1)
    by (simp add: IsInNamespace_def IsInNamespaceImpl_def sw Let_def)
  also have "\<dots> \<longleftrightarrow> take (length (nsp @ ''::'')) (ty_name t @ after) = nsp @ ''::''"
    by (rule take_two_parts)
  also have "\<dots> \<longleftrightarrow> take (length (nsp @ ''::'')) (ty_name t) = nsp @ ''::''"
    by (rule take_append_delim) (use f(3,4) assms(2) in auto)
  finally show ?thesis by simp
qed

section \<open>Writing through references\<close>

lemma ExtractTuple_refs_eq:
  assumes "length val = i + length ts"
  shows "case ExtractTuple cells i ts of
      Inr vs \<Rightarrow> length vs = length ts \<and> ExtractTuple_refs cells i ts val = (Inr (), take i val @ map Some vs)
    | Inl f \<Rightarrow> \<exists>vs. length vs < length ts \<and>
        ExtractTuple_refs cells i ts val = (Inl f, take i val @ map Some vs @ drop (i + length vs) val) \<and>
        ExtractTuple cells i (take (length vs) ts) = Inr vs"
  using assms
proof (induction ts arbitrary: i val)
  case (Cons t ts)
  show ?case
  proof (cases "i < length cells \<and> \<not> isl (Read_cell t (cells ! i))")
    case False
    then show ?thesis by (cases "Read_cell t (cells ! i)") (auto intro!: exI [of _ "[]"] split: sum.splits)
  next
    case True
    then obtain v where v: "i < length cells" "Read_cell t (cells ! i) = Inr v" by (cases "Read_cell t (cells ! i)") auto
    have val: "take (Suc i) (val[i := Some v]) = take i val @ [Some v]" "length (val[i := Some v]) = Suc i + length ts"
      "drop (Suc (i + n)) (val[i := Some v]) = drop (Suc (i + n)) val" for n
      using Cons.prems by (simp_all add: take_Suc_conv_app_nth)
    show ?thesis
    proof (cases "ExtractTuple cells (Suc i) ts")
      case (Inr vs)
      then show ?thesis using Cons.IH [OF val(2)] v val(1) by simp
    next
      case (Inl f)
      then obtain vs where "length vs < length ts" "ExtractTuple cells (Suc i) (take (length vs) ts) = Inr vs"
        "ExtractTuple_refs cells (Suc i) ts (val[i := Some v]) = (Inl f, take (Suc i) (val[i := Some v]) @ map Some vs @ drop (Suc i + length vs) (val[i := Some v]))"
        using Cons.IH [OF val(2)] by auto
      then show ?thesis using Inl v val by (auto intro!: exI [of _ "v # vs"])
    qed
  qed
qed simp

section \<open>An instance\<close>

text \<open>gcc, and a struct of two members.\<close>

definition gcc_tools :: toolchain where
  "gcc_tools = \<lparr>tc_compiler = Gcc,
     tc_current_function = (\<lambda>t. ''constexpr bool cassandra::'' @ kExpectedPrefix Gcc @ ty_name t @
       ''; std::string_view = std::basic_string_view<char>]''),
     tc_StartsWith = (\<lambda>s p. take (length p) s = p)\<rparr>"

definition user_type :: cxx_type where
  "user_type = \<lparr>ty_name = ''app::User'', ty_const = False, ty_volatile = False, is_class = True, is_union = False,
     is_empty = False, is_polymorphic = False, ty_reflectable = True, ty_tuple = None, ty_members = [TInt, TString]\<rparr>"

lemma gcc_tools_contract: "pretty_contract gcc_tools"
  unfolding pretty_contract_def gcc_tools_def
  by (intro conjI allI exI [of _ "''constexpr bool cassandra::''"] exI [of _ "''; std::string_view = std::basic_string_view<char>]''"])
     simp_all

section \<open>Properties of row types\<close>

text \<open>C37: The traits sort the types as documented: an unqualified \<open>std::tuple\<close> is a row; any other type is a row
  exactly when it is a non-empty, reflectable class that is neither polymorphic nor a union and whose
  name is not in the namespaces \<open>std\<close> and \<open>boost\<close>, whatever its qualifiers; everything else is a column. The
  search in the text the compiler prints finds exactly these namespaces. The tag is that of a row
  exactly for the types that have a tuple of members, and for all others \<open>RowType\<close> does not
  compile.\<close>

theorem row_category_exact:
  assumes "pretty_contract tc"
  shows "RowCategory tc t =
      (if ty_tuple t \<noteq> None \<and> \<not> ty_const t \<and> \<not> ty_volatile t then kTuple
       else if is_class t \<and> \<not> is_empty t \<and> ty_reflectable t \<and> \<not> is_polymorphic t \<and> \<not> is_union t \<and>
         take 5 (ty_name t) \<noteq> ''std::'' \<and> take 7 (ty_name t) \<noteq> ''boost::'' then kAggregate
       else kNonRow) \<and>
    (ExtractionTag tc t = RowTag \<longleftrightarrow> RowType tc t \<noteq> None) \<and> (AssertIsValidRowType tc t = None \<longleftrightarrow> RowType tc t = None) \<and>
    (kIsColumnType tc t \<longleftrightarrow> ExtractionTag tc t = FieldTag)"
proof -
  have ns: "kIsInStdNamespace tc (remove_cv t) \<longleftrightarrow> take 5 (ty_name t) = ''std::''"
    "kIsInBoostNamespace tc (remove_cv t) \<longleftrightarrow> take 7 (ty_name t) = ''boost::''"
    using IsInNamespace_prefix [OF assms, of "''std''"] IsInNamespace_prefix [OF assms, of "''boost''"]
    by (simp_all add: kIsInStdNamespace_def kIsInBoostNamespace_def remove_cv_def eval_nat_numeral)
  then have "DetectIsSuitableRowType tc t \<longleftrightarrow> is_class t \<and> \<not> is_empty t \<and> ty_reflectable t \<and> \<not> is_polymorphic t \<and> \<not> is_union t \<and>
      take 5 (ty_name t) \<noteq> ''std::'' \<and> take 7 (ty_name t) \<noteq> ''boost::''"
    by (simp add: DetectIsSuitableRowType_def Let_def remove_cv_def)
  then show ?thesis
    by (auto simp: RowCategory_def IsTuple_def ExtractionTag_def kIsRowType_def kIsColumnType_def RowType_def RowTypeImpl_def
        AssertIsValidRowType_def)
qed

theorem row_category_exact_witness:
  "RowCategory gcc_tools user_type = kAggregate \<and> RowType gcc_tools user_type = Some [TInt, TString] \<and>
   RowCategory gcc_tools (user_type\<lparr>ty_name := ''std::pair<int, int>''\<rparr>) = kNonRow \<and>
   RowCategory gcc_tools (user_type\<lparr>ty_name := ''stdx::User''\<rparr>) = kAggregate"
  using row_category_exact [OF gcc_tools_contract, of user_type]
    row_category_exact [OF gcc_tools_contract, of "user_type\<lparr>ty_name := ''std::pair<int, int>''\<rparr>"]
    row_category_exact [OF gcc_tools_contract, of "user_type\<lparr>ty_name := ''stdx::User''\<rparr>"]
  by (simp add: user_type_def RowType_def RowTypeImpl_def)

text \<open>C36: Extracting a row into a row type fills the members in place, through references, and agrees with reading
  each cell at the type of its member: with enough columns every member of the value that is
  returned has been assigned from its own column, so none keeps an indeterminate value; at
  the first cell that does not parse the members before it are assigned and the others untouched; and
  with too few columns nothing is.\<close>

theorem row_members_filled:
  assumes "length cells < 2 ^ 31" "RowType tc (remove_cv t) = Some ts" "length val = length ts"
    and "row = \<lparr>row_content = cells, row_columns_count = word_of_nat (length cells)\<rparr>"
  shows "Row_As tc t row =
      Some (if length cells < length ts
        then Inl (Throw (Error (''Row size ('' @ fmt_nat (length cells) @ '') is less than the number of data members in C++ user datatype ('' @
          fmt_nat (length ts) @ '')'')))
        else res_bind (res_all (map2 Read_cell ts cells)) (\<lambda>vs. Inr (map Some vs))) \<and>
    (\<exists>vs. snd (Row_To_RowTag ts row val) = map Some vs @ drop (length vs) val \<and>
      res_all (map2 Read_cell (take (length vs) ts) cells) = Inr vs \<and>
      (length vs = length ts \<longleftrightarrow> \<not> isl (fst (Row_To_RowTag ts row val))) \<and> (length cells < length ts \<longrightarrow> vs = []))"
proof (cases "length cells < length ts")
  case True
  then show ?thesis using assms by (auto simp: Row_As_def Row_To_RowTag_def Row_Size_nat intro!: exI [of _ "[]"])
next
  case False
  have size: "Row_Size row = length cells" using assms(1,4) by (simp add: Row_Size_nat)
  have ref: "ExtractTuple cells 0 (take n ts) = res_all (map2 Read_cell (take n ts) cells)" for n
    using False ExtractTuple_res_all [of 0 "take n ts" cells] by simp
  have to: "Row_To_RowTag ts row v = ExtractTuple_refs cells 0 ts v" for v
    using False size assms(4) by (simp add: Row_To_RowTag_def)
  show ?thesis
  proof (cases "ExtractTuple cells 0 ts")
    case (Inl f)
    then have "res_all (map2 Read_cell ts cells) = Inl f" using ref [of "length ts"] by simp
    with Inl show ?thesis
      using ExtractTuple_refs_eq [of val 0 ts cells] ExtractTuple_refs_eq [of "replicate (length ts) None" 0 ts cells]
        ref assms(2,3) False by (auto simp: Row_As_def to)
  next
    case (Inr vs)
    then have "res_all (map2 Read_cell ts cells) = Inr vs" using ref [of "length ts"] by simp
    with Inr show ?thesis
      using ExtractTuple_refs_eq [of val 0 ts cells] ExtractTuple_refs_eq [of "replicate (length ts) None" 0 ts cells]
        assms(2,3) False by (auto simp: Row_As_def to intro!: exI [of _ vs])
  qed
qed

theorem row_members_filled_witness:
  "Row_As gcc_tools user_type \<lparr>row_content = [enc_int (7 :: 32 word), str ''ann'', [9]], row_columns_count = word_of_nat 3\<rparr> =
     Some (Inr [Some (VInt 7), Some (VString (str ''ann''))])"
proof -
  have "RowCategory gcc_tools (remove_cv user_type) = kAggregate" by code_simp
  then have "RowType gcc_tools (remove_cv user_type) = Some [TInt, TString]"
    by (simp add: RowType_def RowTypeImpl_def user_type_def remove_cv_def)
  from row_members_filled [OF _ this, where cells = "[enc_int (7 :: 32 word), str ''ann'', [9]]" and val = "[None, None]", OF _ _ refl]
  show ?thesis by (simp add: IntegralBinaryParser_Bytes_whole CommonStringBinaryParser_Bytes_def)
qed

end
