(* ===== verification/Cql_Batch_Heap.thy ===== *)
theory Cql_Batch_Heap
  imports Cql_Result_Set
begin

text \<open>
  Batches with their pointers (\<open>include/cassandra/batch_query.hpp\<close>, \<open>detail/query_parameters.hpp\<close>, \<open>query.hpp\<close>). A
  \<open>QueryParameters\<close> is a size and a pointer into the vector of a parameter holder; a \<open>BatchQuery\<close> keeps that
  vector alive with a shared pointer. This theory models the vectors as blocks of a heap with reference counts and shows that
  construction, copies, moves and destruction of batches behave like the plain values of \<open>Cql_Query\<close>.
\<close>

section \<open>Statements\<close>

text \<open>The constructors of \<open>Query\<close>; a C string is given by the memory from its first character on.\<close>

datatype query_source = FromQuery RawBuffer | FromView RawBuffer | FromLiteral RawBuffer | FromCString RawBuffer

fun mk_Query :: "query_source \<Rightarrow> RawBuffer res" where
  "mk_Query (FromQuery s) = Inr s"
| "mk_Query (FromView s) = Inr s"
| "mk_Query (FromLiteral s) = Inr s"
| "mk_Query (FromCString memory) = (if 0 \<in> set memory then Inr (takeWhile (\<lambda>c. c \<noteq> 0) memory) else Inl (UB OutOfBounds))"

section \<open>Shared vectors\<close>

text \<open>
  A vector with the number of shared pointers to it. \<open>resize\<close> may move the elements, which invalidates
  pointers to them: a pointer is the address of the vector and the number of resizes it has seen.
\<close>

record shared_vec =
  sv_refs :: nat
  sv_gen :: nat
  sv_cells :: "RawBuffer list"

type_synonym param_heap = "nat \<rightharpoonup> shared_vec"

definition shared_copy :: "nat option \<Rightarrow> param_heap \<Rightarrow> param_heap" where
  "shared_copy p h =
     (case p of
        None \<Rightarrow> h
      | Some a \<Rightarrow> h(a := map_option (\<lambda>v. v\<lparr>sv_refs := Suc (sv_refs v)\<rparr>) (h a)))"

definition shared_reset :: "nat option \<Rightarrow> param_heap \<Rightarrow> param_heap" where
  "shared_reset p h =
     (case p of
        None \<Rightarrow> h
      | Some a \<Rightarrow>
          (case h a of
             None \<Rightarrow> h
           | Some v \<Rightarrow> if sv_refs v \<le> 1 then h(a := None) else h(a \<mapsto> v\<lparr>sv_refs := sv_refs v - 1\<rparr>)))"

record ParamsView =
  qp_size :: nat
  qp_values :: "(nat \<times> nat) option"

text \<open>\<open>ParamBuffers()[i]\<close>\<close>

definition view_at :: "param_heap \<Rightarrow> ParamsView \<Rightarrow> nat \<Rightarrow> RawBuffer res" where
  "view_at h view i =
     (case qp_values view of
        None \<Rightarrow> Inl (UB NullDeref)
      | Some (a, gen) \<Rightarrow>
          (case h a of
             None \<Rightarrow> Inl (UB UseAfterFree)
           | Some v \<Rightarrow>
               if sv_gen v \<noteq> gen then Inl (UB UseAfterFree)
               else if i < length (sv_cells v) then Inr (sv_cells v ! i)
               else Inl (UB OutOfBounds)))"

definition ParamBuffers :: "param_heap \<Rightarrow> ParamsView \<Rightarrow> RawBuffer list res" where
  "ParamBuffers h view = res_all (map (view_at h view) [0..<qp_size view])"

section \<open>Batch queries\<close>

record BatchQuery_obj =
  bqo_query :: RawBuffer
  bqo_params :: ParamsView
  bqo_holder :: "nat option"

text \<open>
  The constructor: the holder makes its vector at address \<open>a\<close>, writes the arguments into it and is destroyed
  at the end; the view and the copy of its shared pointer stay.
\<close>

definition BatchQuery_ctor :: "nat \<Rightarrow> query_source \<Rightarrow> cell_value list \<Rightarrow> param_heap \<Rightarrow> (BatchQuery_obj \<times> param_heap) res" where
  "BatchQuery_ctor a query args h =
     res_bind (mk_Query query) (\<lambda>q.
     let h = h(a \<mapsto> \<lparr>sv_refs = 1, sv_gen = 0, sv_cells = []\<rparr>) in
     res_bind (DynamicQueryParameters_Write args []) (\<lambda>cells.
     let h = h(a \<mapsto> \<lparr>sv_refs = 1, sv_gen = 1, sv_cells = cells\<rparr>);
         params = \<lparr>qp_size = length cells, qp_values = Some (a, 1)\<rparr>;
         h = shared_copy (Some a) h;
         h = shared_reset (Some a) h
     in Inr (\<lparr>bqo_query = q, bqo_params = params, bqo_holder = Some a\<rparr>, h)))"

definition BatchQuery_copy :: "BatchQuery_obj \<Rightarrow> param_heap \<Rightarrow> BatchQuery_obj \<times> param_heap" where
  "BatchQuery_copy q h = (q, shared_copy (bqo_holder q) h)"

text \<open>The implicit move: the new object and what is left of the old one, whose view is not reset.\<close>

definition BatchQuery_move :: "BatchQuery_obj \<Rightarrow> BatchQuery_obj \<times> BatchQuery_obj" where
  "BatchQuery_move q = (q, q\<lparr>bqo_query := [], bqo_holder := None\<rparr>)"

definition BatchQuery_dtor :: "BatchQuery_obj \<Rightarrow> param_heap \<Rightarrow> param_heap" where
  "BatchQuery_dtor q h = shared_reset (bqo_holder q) h"

section \<open>Batch stores\<close>

record BatchStore_obj =
  so_consistency :: Consistency
  so_queries :: "BatchQuery_obj list"

text \<open>
  \<open>emplace_back\<close>: when the vector is full (\<open>full\<close>), the new element is constructed, the others are moved to the
  new memory and what is left of them is destroyed.
\<close>

definition AddQuery_obj :: "bool \<Rightarrow> nat \<Rightarrow> query_source \<Rightarrow> cell_value list \<Rightarrow> BatchStore_obj \<Rightarrow> param_heap \<Rightarrow>
    (BatchStore_obj \<times> param_heap) res" where
  "AddQuery_obj full a query args store h =
     res_bind (BatchQuery_ctor a query args h) (\<lambda>(bq, h).
     if full
     then let moved = map BatchQuery_move (so_queries store) in
          Inr (store\<lparr>so_queries := map fst moved @ [bq]\<rparr>, fold BatchQuery_dtor (map snd moved) h)
     else Inr (store\<lparr>so_queries := so_queries store @ [bq]\<rparr>, h))"

fun copy_all :: "BatchQuery_obj list \<Rightarrow> param_heap \<Rightarrow> BatchQuery_obj list \<times> param_heap" where
  "copy_all [] h = ([], h)"
| "copy_all (q # qs) h = (case BatchQuery_copy q h of (q', h) \<Rightarrow> case copy_all qs h of (qs', h) \<Rightarrow> (q' # qs', h))"

definition BatchStore_copy :: "BatchStore_obj \<Rightarrow> param_heap \<Rightarrow> BatchStore_obj \<times> param_heap" where
  "BatchStore_copy store h = (case copy_all (so_queries store) h of (qs, h) \<Rightarrow> (store\<lparr>so_queries := qs\<rparr>, h))"

definition BatchStore_dtor :: "BatchStore_obj \<Rightarrow> param_heap \<Rightarrow> param_heap" where
  "BatchStore_dtor store h = fold BatchQuery_dtor (so_queries store) h"

text \<open>The life of the batches of a program.\<close>

inductive batch_reachable :: "param_heap \<Rightarrow> BatchStore_obj list \<Rightarrow> bool" where
  init: "batch_reachable Map.empty []"
| create: "batch_reachable h stores \<Longrightarrow> batch_reachable h (\<lparr>so_consistency = level, so_queries = []\<rparr> # stores)"
| add: "batch_reachable h (xs @ store # ys) \<Longrightarrow> h a = None \<Longrightarrow> AddQuery_obj full a query args store h = Inr (store', h') \<Longrightarrow>
    batch_reachable h' (xs @ store' # ys)"
| copy: "batch_reachable h (xs @ store # ys) \<Longrightarrow> BatchStore_copy store h = (store', h') \<Longrightarrow>
    batch_reachable h' (store' # xs @ store # ys)"
| destroy: "batch_reachable h (xs @ store # ys) \<Longrightarrow> batch_reachable (BatchStore_dtor store h) (xs @ ys)"

section \<open>What the objects stand for\<close>

lemma res_all_snoc: "res_all (rs @ [r]) = res_bind (res_all rs) (\<lambda>xs. res_bind r (\<lambda>x. Inr (xs @ [x])))"
  by (induction rs) (auto simp: res_bind_def split: sum.splits)

definition abs_query :: "param_heap \<Rightarrow> BatchQuery_obj \<Rightarrow> BatchQuery res" where
  "abs_query h q = res_bind (ParamBuffers h (bqo_params q)) (\<lambda>params. Inr \<lparr>bq_query = bqo_query q, bq_params = params\<rparr>)"

definition abs_store :: "param_heap \<Rightarrow> BatchStore_obj \<Rightarrow> BatchQueryStore res" where
  "abs_store h store = res_bind (res_all (map (abs_query h) (so_queries store)))
     (\<lambda>qs. Inr \<lparr>store_consistency = so_consistency store, store_queries = qs\<rparr>)"

section \<open>Ownership\<close>

definition holder_list :: "BatchQuery_obj \<Rightarrow> nat list" where
  "holder_list q = (case bqo_holder q of None \<Rightarrow> [] | Some a \<Rightarrow> [a])"

definition holders :: "BatchQuery_obj list \<Rightarrow> nat list" where
  "holders qs = concat (map holder_list qs)"

lemma holders_simps [simp]: "holders [] = []" "holders (q # qs) = holder_list q @ holders qs" "holders (xs @ ys) = holders xs @ holders ys"
  by (simp_all add: holders_def)

abbreviation store_holders :: "BatchStore_obj list \<Rightarrow> nat list" where
  "store_holders stores \<equiv> holders (concat (map so_queries stores))"

text \<open>A block is live exactly while it has owners, and counts them.\<close>

definition counted :: "param_heap \<Rightarrow> nat list \<Rightarrow> bool" where
  "counted h owners \<longleftrightarrow> (\<forall>a. map_option sv_refs (h a) = (if count_list owners a = 0 then None else Some (count_list owners a)))"

definition query_ok :: "param_heap \<Rightarrow> BatchQuery_obj \<Rightarrow> bool" where
  "query_ok h q \<longleftrightarrow> (\<exists>a v. bqo_holder q = Some a \<and> h a = Some v \<and>
     bqo_params q = \<lparr>qp_size = length (sv_cells v), qp_values = Some (a, sv_gen v)\<rparr>)"

definition batch_inv :: "param_heap \<Rightarrow> BatchStore_obj list \<Rightarrow> bool" where
  "batch_inv h stores \<longleftrightarrow> counted h (store_holders stores) \<and> (\<forall>store \<in> set stores. \<forall>q \<in> set (so_queries store). query_ok h q)"

text \<open>Changes of the counts alone do not concern the views.\<close>

definition same_cells :: "param_heap \<Rightarrow> param_heap \<Rightarrow> nat \<Rightarrow> bool" where
  "same_cells h h' a \<longleftrightarrow> map_option (\<lambda>v. (sv_gen v, sv_cells v)) (h' a) = map_option (\<lambda>v. (sv_gen v, sv_cells v)) (h a)"

lemma query_ok_abs:
  assumes "query_ok h q" "bqo_holder q = Some a"
  shows "abs_query h q = Inr \<lparr>bq_query = bqo_query q, bq_params = sv_cells (the (h a))\<rparr>"
proof -
  obtain v where v: "h a = Some v" "bqo_params q = \<lparr>qp_size = length (sv_cells v), qp_values = Some (a, sv_gen v)\<rparr>"
    using assms by (auto simp: query_ok_def)
  have "map (view_at h (bqo_params q)) [0..<qp_size (bqo_params q)] = map Inr (sv_cells v)"
    by (rule nth_equalityI) (simp_all add: v view_at_def)
  then show ?thesis by (simp add: abs_query_def ParamBuffers_def res_all_Inr v(1))
qed

lemma query_ok_same:
  assumes "query_ok h q" "\<And>a. a \<in> set (holder_list q) \<Longrightarrow> same_cells h h' a"
  shows "query_ok h' q" "abs_query h' q = abs_query h q"
proof -
  obtain a v where v: "bqo_holder q = Some a" "h a = Some v"
    "bqo_params q = \<lparr>qp_size = length (sv_cells v), qp_values = Some (a, sv_gen v)\<rparr>"
    using assms(1) by (auto simp: query_ok_def)
  have "same_cells h h' a" using assms(2) v(1) by (simp add: holder_list_def)
  with v(2) obtain v' where v': "h' a = Some v'" "sv_gen v' = sv_gen v" "sv_cells v' = sv_cells v" by (auto simp: same_cells_def)
  with v show ok: "query_ok h' q" by (simp add: query_ok_def)
  show "abs_query h' q = abs_query h q"
    using query_ok_abs [OF ok v(1)] query_ok_abs [OF assms(1) v(1)] v(2) v'(1,3) by simp
qed

lemma store_ok_same:
  assumes "\<forall>q \<in> set (so_queries store). query_ok h q" "\<And>a. a \<in> set (holders (so_queries store)) \<Longrightarrow> same_cells h h' a"
  shows "\<forall>q \<in> set (so_queries store). query_ok h' q" "abs_store h' store = abs_store h store"
proof -
  have q: "query_ok h' q" "abs_query h' q = abs_query h q" if "q \<in> set (so_queries store)" for q
    using query_ok_same [of h q h'] assms that by (auto simp: holders_def)
  then show "\<forall>q \<in> set (so_queries store). query_ok h' q" by blast
  have "map (abs_query h') (so_queries store) = map (abs_query h) (so_queries store)" using q by simp
  then show "abs_store h' store = abs_store h store" by (simp only: abs_store_def)
qed

section \<open>The operations on the heap\<close>

lemma counted_None: "counted h owners \<Longrightarrow> h a = None \<longleftrightarrow> a \<notin> set owners"
  by (auto simp: counted_def count_list_0_iff dest: spec [of _ a] split: if_splits)

lemma counted_Some: "counted h owners \<Longrightarrow> h a = Some v \<Longrightarrow> sv_refs v = count_list owners a"
  by (auto simp: counted_def dest: spec [of _ a] split: if_splits)

lemma counted_perm: "counted h owners \<Longrightarrow> (\<And>a. count_list owners' a = count_list owners a) \<Longrightarrow> counted h owners'"
  by (simp add: counted_def)

lemma countedD: "counted h owners \<Longrightarrow> map_option sv_refs (h a) = (if count_list owners a = 0 then None else Some (count_list owners a))"
  by (simp add: counted_def)

text \<open>Only the count of one block changes.\<close>

lemma counted_update:
  assumes "counted h owners" "\<And>b. b \<noteq> a \<Longrightarrow> h' b = h b \<and> count_list owners' b = count_list owners b"
    and "map_option sv_refs (h' a) = (if count_list owners' a = 0 then None else Some (count_list owners' a))"
  shows "counted h' owners'"
  unfolding counted_def
proof
  fix b
  show "map_option sv_refs (h' b) = (if count_list owners' b = 0 then None else Some (count_list owners' b))"
    using assms(2) [of b] assms(3) countedD [OF assms(1), of b] by (cases "b = a") simp_all
qed

lemma shared_reset_counted:
  assumes "counted h (a # owners)"
  shows "counted (shared_reset (Some a) h) owners" "b \<in> set owners \<Longrightarrow> same_cells h (shared_reset (Some a) h) b"
proof -
  obtain v where v: "h a = Some v" "sv_refs v = Suc (count_list owners a)"
    using counted_None [OF assms, of a] counted_Some [OF assms, of a] by fastforce
  then show "counted (shared_reset (Some a) h) owners"
    by (intro counted_update [OF assms, of a]) (auto simp: shared_reset_def)
  show "same_cells h (shared_reset (Some a) h) b" if "b \<in> set owners"
    using v that by (auto simp: same_cells_def shared_reset_def count_list_0_iff)
qed

lemma dtor_counted:
  assumes "counted h (holders qs @ owners)"
  shows "counted (fold BatchQuery_dtor qs h) owners \<and> (\<forall>b \<in> set owners. same_cells h (fold BatchQuery_dtor qs h) b)"
  using assms
proof (induction qs arbitrary: h)
  case (Cons q qs)
  have "counted (BatchQuery_dtor q h) (holders qs @ owners) \<and> (\<forall>b \<in> set owners. same_cells h (BatchQuery_dtor q h) b)"
  proof (cases "bqo_holder q")
    case None
    with Cons.prems show ?thesis by (simp add: BatchQuery_dtor_def holder_list_def shared_reset_def same_cells_def)
  next
    case (Some a)
    with Cons.prems shared_reset_counted [of h a "holders qs @ owners"] show ?thesis by (simp add: BatchQuery_dtor_def holder_list_def)
  qed
  with Cons.IH [of "BatchQuery_dtor q h"] show ?case by (simp add: same_cells_def)
qed (simp add: same_cells_def)

lemma copy_all_counted:
  assumes "counted h owners" "set (holders qs) \<subseteq> set owners"
  shows "\<exists>h'. copy_all qs h = (qs, h') \<and> counted h' (holders qs @ owners) \<and> (\<forall>b. same_cells h h' b)"
  using assms
proof (induction qs arbitrary: h owners)
  case (Cons q qs)
  let ?h = "shared_copy (bqo_holder q) h"
  have "counted ?h (holder_list q @ owners)"
  proof (cases "bqo_holder q")
    case (Some a)
    then have "a \<in> set owners" using Cons.prems(2) by (simp add: holder_list_def)
    then have "count_list owners a \<noteq> 0" by (simp add: count_list_0_iff)
    with Some countedD [OF Cons.prems(1), of a] show ?thesis
      by (intro counted_update [OF Cons.prems(1), of a]) (auto simp: shared_copy_def holder_list_def option.map_comp comp_def)
  qed (use Cons.prems(1) in \<open>simp add: shared_copy_def holder_list_def\<close>)
  moreover have "same_cells h ?h b" for b by (auto simp: same_cells_def shared_copy_def option.map_comp comp_def split: option.split)
  moreover have "set (holders qs) \<subseteq> set (holder_list q @ owners)" using Cons.prems(2) by auto
  ultimately obtain h' where "copy_all qs ?h = (qs, h')" "counted h' (holders qs @ holder_list q @ owners)" "\<forall>b. same_cells h h' b"
    using Cons.IH [of ?h "holder_list q @ owners"] by (auto simp: same_cells_def)
  then show ?case
    using counted_perm [of h' "holders qs @ holder_list q @ owners" "holder_list q @ holders qs @ owners"]
    by (simp add: BatchQuery_copy_def)
qed (auto simp: same_cells_def)

lemma BatchQuery_ctor_eq:
  "BatchQuery_ctor a query args h = res_bind (mk_Query query) (\<lambda>q.
     Inr (\<lparr>bqo_query = q, bqo_params = \<lparr>qp_size = length args, qp_values = Some (a, 1)\<rparr>, bqo_holder = Some a\<rparr>,
       h(a \<mapsto> \<lparr>sv_refs = 1, sv_gen = 1, sv_cells = map enc_cell args\<rparr>)))"
  by (simp add: BatchQuery_ctor_def DynamicQueryParameters_Write_fresh shared_copy_def shared_reset_def Let_def)

lemma moved_dtor: "fold BatchQuery_dtor (map (snd \<circ> BatchQuery_move) qs) h = h"
  by (induction qs) (simp_all add: BatchQuery_move_def BatchQuery_dtor_def shared_reset_def)

lemma AddQuery_obj_eq:
  "AddQuery_obj full a query args store h = res_bind (BatchQuery_ctor a query args h) (\<lambda>(bq, h).
     Inr (store\<lparr>so_queries := so_queries store @ [bq]\<rparr>, h))"
proof -
  have "map (fst \<circ> BatchQuery_move) qs = qs" for qs by (induction qs) (simp_all add: BatchQuery_move_def)
  then show ?thesis by (cases full) (simp_all add: AddQuery_obj_def Let_def moved_dtor)
qed

lemma set_store_holders: "set (store_holders stores) = (\<Union>s \<in> set stores. set (holders (so_queries s)))"
  by (auto simp: holders_def)

lemma batch_inv_store:
  assumes "batch_inv h stores" "s \<in> set stores" "\<And>b. b \<in> set (holders (so_queries s)) \<Longrightarrow> same_cells h h' b"
  shows "(\<forall>q \<in> set (so_queries s). query_ok h' q) \<and> abs_store h' s = abs_store h s"
proof -
  have "\<forall>q \<in> set (so_queries s). query_ok h q" using assms(1,2) by (simp add: batch_inv_def)
  from store_ok_same [OF this assms(3)] show ?thesis by simp
qed

lemma batch_inv_add:
  assumes inv: "batch_inv h (xs @ store # ys)" and a: "h a = None"
    and add: "AddQuery_obj full a query args store h = Inr (store', h')"
  shows "batch_inv h' (xs @ store' # ys)" "s \<in> set (xs @ store # ys) \<Longrightarrow> abs_store h' s = abs_store h s"
    "\<exists>q bq. mk_Query query = Inr q \<and> store' = store\<lparr>so_queries := so_queries store @ [bq]\<rparr> \<and>
      abs_query h' bq = Inr \<lparr>bq_query = q, bq_params = map enc_cell args\<rparr>"
proof -
  obtain q where q: "mk_Query query = Inr q" using add by (auto simp: AddQuery_obj_eq BatchQuery_ctor_eq res_bind_def split: sum.splits)
  define bq where "bq = \<lparr>bqo_query = q, bqo_params = \<lparr>qp_size = length args, qp_values = Some (a, 1)\<rparr>, bqo_holder = Some a\<rparr>"
  have s': "store' = store\<lparr>so_queries := so_queries store @ [bq]\<rparr>"
    "h' = h(a \<mapsto> \<lparr>sv_refs = 1, sv_gen = 1, sv_cells = map enc_cell args\<rparr>)"
    using add q by (simp_all add: AddQuery_obj_eq BatchQuery_ctor_eq bq_def)
  have fresh: "a \<notin> set (store_holders (xs @ store # ys))" using counted_None [of h "store_holders (xs @ store # ys)" a] a inv by (simp add: batch_inv_def)
  have same: "same_cells h h' b" if "b \<in> set (store_holders (xs @ store # ys))" for b
    using fresh that s'(2) by (auto simp: same_cells_def)
  have stores: "(\<forall>q \<in> set (so_queries s). query_ok h' q) \<and> abs_store h' s = abs_store h s" if "s \<in> set (xs @ store # ys)" for s
    using same that by (intro batch_inv_store [OF inv]) (auto simp: set_store_holders)
  then show "s \<in> set (xs @ store # ys) \<Longrightarrow> abs_store h' s = abs_store h s" by blast
  have ok: "query_ok h' bq" by (simp add: query_ok_def bq_def s'(2))
  then show "\<exists>q bq. mk_Query query = Inr q \<and> store' = store\<lparr>so_queries := so_queries store @ [bq]\<rparr> \<and>
      abs_query h' bq = Inr \<lparr>bq_query = q, bq_params = map enc_cell args\<rparr>"
    using query_ok_abs [of h' bq a] q s' by (auto simp: bq_def)
  have c: "counted h (store_holders (xs @ store # ys))" using inv by (simp only: batch_inv_def)
  have "counted h' (a # store_holders (xs @ store # ys))"
    by (rule counted_update [OF c, of a]) (use fresh in \<open>simp_all add: s'(2) count_list_0_iff\<close>)
  then have "counted h' (store_holders (xs @ store' # ys))"
    by (rule counted_perm) (simp add: s'(1) bq_def holder_list_def)
  with stores ok show "batch_inv h' (xs @ store' # ys)" by (auto simp: batch_inv_def s'(1))
qed

lemma batch_inv_copy:
  assumes inv: "batch_inv h (xs @ store # ys)" and copy: "BatchStore_copy store h = (store', h')"
  shows "batch_inv h' (store' # xs @ store # ys)" "store' = store" "s \<in> set (xs @ store # ys) \<Longrightarrow> abs_store h' s = abs_store h s"
proof -
  have "counted h (store_holders (xs @ store # ys))" "set (holders (so_queries store)) \<subseteq> set (store_holders (xs @ store # ys))"
    using inv by (auto simp: batch_inv_def)
  from copy_all_counted [OF this] obtain h1 where "copy_all (so_queries store) h = (so_queries store, h1)"
    "counted h1 (holders (so_queries store) @ store_holders (xs @ store # ys))" "\<forall>b. same_cells h h1 b" by blast
  with copy have h': "store' = store" "counted h' (holders (so_queries store) @ store_holders (xs @ store # ys))"
    "\<forall>b. same_cells h h' b" by (simp_all add: BatchStore_copy_def)
  have stores: "(\<forall>q \<in> set (so_queries s). query_ok h' q) \<and> abs_store h' s = abs_store h s" if "s \<in> set (xs @ store # ys)" for s
    using h'(3) by (intro batch_inv_store [OF inv that]) simp
  with h'(1,2) show "batch_inv h' (store' # xs @ store # ys)" "store' = store"
    "s \<in> set (xs @ store # ys) \<Longrightarrow> abs_store h' s = abs_store h s" by (auto simp: batch_inv_def)
qed

lemma batch_inv_destroy:
  assumes inv: "batch_inv h (xs @ store # ys)"
  shows "batch_inv (BatchStore_dtor store h) (xs @ ys)" "s \<in> set (xs @ ys) \<Longrightarrow> abs_store (BatchStore_dtor store h) s = abs_store h s"
proof -
  have "counted h (holders (so_queries store) @ store_holders (xs @ ys))"
    by (rule counted_perm [of h "store_holders (xs @ store # ys)"]) (use inv in \<open>simp_all add: batch_inv_def\<close>)
  from dtor_counted [OF this] have h': "counted (BatchStore_dtor store h) (store_holders (xs @ ys))"
    "\<And>b. b \<in> set (store_holders (xs @ ys)) \<Longrightarrow> same_cells h (BatchStore_dtor store h) b" by (simp_all add: BatchStore_dtor_def)
  have stores: "(\<forall>q \<in> set (so_queries s). query_ok (BatchStore_dtor store h) q) \<and> abs_store (BatchStore_dtor store h) s = abs_store h s"
    if "s \<in> set (xs @ ys)" for s
    using h'(2) that by (intro batch_inv_store [OF inv]) (auto simp: set_store_holders)
  with h'(1) show "batch_inv (BatchStore_dtor store h) (xs @ ys)"
    "s \<in> set (xs @ ys) \<Longrightarrow> abs_store (BatchStore_dtor store h) s = abs_store h s" by (auto simp: batch_inv_def)
qed

lemma batch_reachable_inv: "batch_reachable h stores \<Longrightarrow> batch_inv h stores"
proof (induction rule: batch_reachable.induct)
  case init
  show ?case by (simp add: batch_inv_def counted_def)
next
  case (create h stores level)
  then show ?case by (simp add: batch_inv_def)
qed (auto intro: batch_inv_add(1) batch_inv_copy(1) batch_inv_destroy(1))

lemma abs_store_ok:
  assumes "batch_inv h stores" "store \<in> set stores"
  shows "\<exists>v. abs_store h store = Inr v"
proof -
  have "\<exists>v. abs_query h q = Inr v" if "q \<in> set (so_queries store)" for q
  proof -
    have ok: "query_ok h q" using assms that by (simp add: batch_inv_def)
    then obtain a where "bqo_holder q = Some a" by (auto simp: query_ok_def)
    from query_ok_abs [OF ok this] show ?thesis by blast
  qed
  then obtain f where "\<forall>q \<in> set (so_queries store). abs_query h q = Inr (f q)" by metis
  then have "map (abs_query h) (so_queries store) = map Inr (map f (so_queries store))" by simp
  then show ?thesis by (simp only: abs_store_def res_all_Inr res_bind_simps) blast
qed

section \<open>Properties of batches\<close>


definition one_query :: BatchStore_obj where
  "one_query = \<lparr>so_consistency = kQuorum, so_queries = [\<lparr>bqo_query = str ''A'',
     bqo_params = \<lparr>qp_size = 1, qp_values = Some (5, 1)\<rparr>, bqo_holder = Some 5\<rparr>]\<rparr>"

definition one_query_heap :: param_heap where
  "one_query_heap = [5 \<mapsto> \<lparr>sv_refs = 1, sv_gen = 1, sv_cells = [enc_int (7 :: 32 word)]\<rparr>]"

lemma one_query_reachable: "batch_reachable one_query_heap [one_query]"
proof -
  have "batch_reachable Map.empty ([] @ [\<lparr>so_consistency = kQuorum, so_queries = []\<rparr>])"
    using batch_reachable.create [OF batch_reachable.init] by simp
  from batch_reachable.add [OF this, where a = 5 and full = True and query = "FromView (str ''A'')" and args = "[VInt 7]"]
  show ?thesis by (simp add: AddQuery_obj_eq BatchQuery_ctor_eq one_query_def one_query_heap_def)
qed


end
