(* ===== verification/Spec2Isabelle.thy ===== *)
theory Spec2Isabelle
  imports Cql_Samples Cql_Multiplex Cql_Row_Types Cql_Batch_Heap
begin

text \<open>
  A verification of the Cassandra driver for userver: a client library in C++ that speaks version 4 of
  the CQL binary protocol. File names below are relative to \<open>src/\<close>.

  \<^bold>\<open>The program.\<close> An application asks the component (\<open>src/component.cpp\<close>) for a session. The component reads
  the static configuration (\<open>src/cassandra_configs.cpp\<close>) and the nodes of the keyspace from the secure
  configuration (\<open>src/secdist.cpp\<close>, \<open>include/cassandra/node_description.hpp\<close>) and creates the session
  (\<open>src/session.cpp\<close>, \<open>src/session_impl.cpp\<close>), which has one connection pool per node
  (\<open>src/detail/connection_pool.cpp\<close>). A pool opens connections in background tasks, chooses the least loaded
  one for a statement, caches the identifiers of prepared statements and pings its connections
  periodically. A connection (\<open>src/detail/connection.cpp\<close>, \<open>src/detail/connection_impl.cpp\<close>) makes the handshake,
  multiplexes requests over 1024 stream numbers (\<open>src/detail/stream_pool.cpp\<close>) and has a receiver task that
  routes responses to the request of their stream. Requests and responses are frames
  (\<open>src/io/protocol/\<close>) made of a header, a body and optionally LZ4 compression; bodies are made of the
  notations of \<open>include/cassandra/io/\<close>. Results are handed out as result sets of rows
  (\<open>include/cassandra/result_set.hpp\<close>, \<open>row.hpp\<close>) that are extracted into values.

  \<^bold>\<open>The theories\<close>, each importing those before it that it uses:

    \<^item> \<open>Cql_Prelude\<close>: bytes and buffers, readers and writers with their composition, vectors and \<open>memcpy\<close> with
      their bounds, big-endian numbers, strings.
    \<^item> \<open>Cql_Exceptions\<close>: error codes and exception classes (\<open>include/cassandra/exception.hpp\<close>). A call ends in a
      value or a fault; a fault is a thrown exception or a kind of undefined behaviour.
    \<^item> \<open>Cql_Codec\<close>: the interfaces of readers and writers as locales (\<open>bounded_reader\<close>, \<open>checked_reader\<close>,
      \<open>decoder\<close>, \<open>codec\<close>), with what follows from them, and their composition.
    \<^item> \<open>Cql_Buffer_IO\<close>, \<open>Cql_Containers\<close>: integers, floating point numbers, strings, byte sequences, lists and
      maps, each an interpretation of \<open>codec\<close>, with the parts they are generic in as locales
      (\<open>length_prefix\<close>, \<open>valued_prefix\<close>, \<open>map_parts\<close>).
    \<^item> \<open>Cql_Frame\<close>: the frame header. \<open>Cql_Lz4\<close>: the compressor. \<open>Cql_Column_Option\<close>: the recursive column types
      and the schema changes. \<open>Cql_Options\<close>: settings and command controls. \<open>Cql_Query\<close>: parameters and batches
      as values, \<open>Cql_Batch_Heap\<close>: batches with their pointers into shared parameter vectors.
    \<^item> \<open>Cql_Request\<close>, \<open>Cql_Response\<close>: the bodies of all messages and the choice of the class of a response;
      \<open>Cql_Result_Set\<close>: rows and result sets; \<open>Cql_Row_Types\<close>: the C++ types a row can be extracted into, and how
      they are filled in place.
    \<^item> \<open>Cql_Stream_Pool\<close>: the stream numbers; \<open>Cql_Connection\<close>: a connection over an arbitrary runtime, its
      receiver and its life as a step relation; \<open>Cql_Multiplex\<close>: many requests on one connection, interleaved with
      the server and the receiver task, over every runtime that delivers (locale \<open>multiplexed_runtime\<close>).
    \<^item> \<open>Cql_Config\<close>: node descriptions, secure and static configuration.
    \<^item> \<open>Cql_Pool\<close>: the pool over a heap of connections and its life as a step relation, with \<open>Cql_Maintain\<close> (what
      maintenance closes), \<open>Cql_Prepared\<close> (the cache of prepared statements) and \<open>Cql_Lifetime\<close> (ownership
      and size).
    \<^item> \<open>Cql_Connect\<close>: the facade \<open>Connection\<close>, address resolution, and the interface between pool and connections
      as a locale (\<open>connection_interface\<close>) that the connections of \<open>Cql_Connection\<close> implement on every
      \<open>live_runtime\<close>.
    \<^item> \<open>Cql_Session\<close>: session and component, and the properties that span all layers.
    \<^item> \<open>Cql_Database\<close>: what a connection to a database promises (locale \<open>database_connection\<close>), with the
      connections of \<open>Cql_Connection\<close> and a server that reads frames as an instance, and the session as the
      database behind it.
    \<^item> \<open>Cql_Samples\<close>: the handlers of the sample services (\<open>samples/example_service/main.cpp\<close>,
      \<open>samples/bench_service/main.cpp\<close>) over the layers below, for every database with a table (locale
      \<open>table_service\<close>).

  \<^bold>\<open>How the code is modelled.\<close> Classes are records and enumerations datatypes; integers of the protocol are words of
  their width, and the casts between them are written out. \<open>size_t\<close> values are natural numbers, with sums
  that can wrap taken modulo \<open>2 ^ 64\<close>. A buffer is a list of bytes. A parser takes a buffer and an offset
  and returns a value and the new offset; a formatter takes a buffer and returns the longer one. Methods
  with side effects pass their state: a connection passes itself and the world of its runtime, a pool
  its heap, so that \<open>delete\<close>, dangling pointers and null pointers are visible. Every exception, early return
  and undefined behaviour of the source is a branch. The only fuel is that of the recursive parser of column
  types, for which the length of the buffer is enough (\<open>column_option_terminates\<close>), and the number of
  rounds after which the receiver loop, which may run forever, is cut off.

  \<^bold>\<open>Code that is not part of the repository\<close> is a parameter: the LZ4 library (\<open>lz4_lib\<close>, \<open>lz4_contract\<close>), userver's
  queue of stream numbers (\<open>queue_lib\<close>, \<open>queue_contract\<close>), sockets, message queues and tasks (\<open>userver\<close>,
  \<open>socket_contract\<close>), the cache (\<open>lru_lib\<close>, \<open>lru_contract\<close>), JSON and YAML values (\<open>json_lib\<close>, \<open>yaml_lib\<close>), and
  address resolution (\<open>net_lib\<close>). The database is a function from statements to results (\<open>table_contract\<close> for the
  table of the samples). The contracts state the documented behaviour; each has an instance
  (\<open>stored_lz4\<close>, \<open>list_queue\<close>, \<open>pipe_runtime\<close>, \<open>map_cache\<close>, \<open>json_values\<close>, \<open>yaml_values\<close>, \<open>one_peer\<close>,
  \<open>table_run\<close>, \<open>request_values\<close>) on which the
  witnesses run.

  \<^bold>\<open>What is shown.\<close>

    \<^item> Wire format: requests, with and without compression, are read back by a server as they were meant;
      rows, prepared statements, column types and all notations are parsed back from their wire form;
      parsing returns on every input; where the code checks bounds no input leads outside the buffer, and
      where it does not this is stated as it is.
    \<^item> Errors: an ERROR frame becomes the exception of its code; the class of a response matches its opcode.
    \<^item> Streams and connections: stream numbers are unique and in range, every finished request has given its
      stream back, a request gets the message of its own stream, the receiver routes by stream, interleaved
      requests get their own answers in whatever order the server gives them and none is stuck as long as
      none has timed out (and how a late answer goes astray when one has), and the
      handshake negotiates compression exactly when both sides want it.
    \<^item> Pool: no operation touches a deleted connection as long as operations do not overlap (and how it does when they do),
      no connection is leaked, the size is bounded, the least loaded connection is chosen,
      maintenance closes at most one connection, the cache only holds identifiers issued for their
      statement, and execution through it refines execution of the plain text.
    \<^item> Batches: the pointers of a batch into its shared parameters never dangle, and batches refine the plain
      values that the pool sends.
    \<^item> Rows: which types count as rows, that the members of such a type are all assigned from their own
      columns, and that values come back from the rows that hold them.
    \<^item> Configuration and session: the lookup of nodes, all ways the component starts or refuses to, options that
      have no effect, and a query through all layers from arguments to extracted rows.
    \<^item> The driver as a whole: statements and batches of a session run on the database behind it exactly once, with
      their arguments, in whichever form they are sent; the handlers of the samples store, replace and list
      the rows of their requests.
    \<^item> Defects found on the way are proved as the behaviour of the code: null pointers before the first connection,
      a race between statements, a dangling view in address resolution, silently cut strings, and others.

  \<^bold>\<open>Not modelled.\<close> What the compiler and \<open>boost::pfr\<close> report about a C++ type is an argument of the traits of
  \<open>include/cassandra/io/row_types.hpp\<close>; the theories of sessions and results pass the list of member types directly. Logging, tracing and metrics have
  no effect on the modelled state. The scheduling of tasks and the semaphores are not state of the model:
  whether a lock is obtained is an input of a connect task, and finished tasks are steps in any order.
  Operations of a pool are atomic steps, except in the statement about the race of \<open>Acquire\<close>. The
  \<open>main\<close> functions of the samples only list components of the framework; the unit tests are not part of the library.
\<close>

end
